(* ===== verification/Prelude.thy ===== *)
theory Prelude
  imports Main "HOL-Library.Sublist" "HOL-Library.Multiset"
begin

text \<open>
  Shared vocabulary of the development: JavaScript strings and values as the
  TypeScript sources use them, results of fallible operations as sums, first-match
  list updates, and the list lemmas the component theories share.

  A string is an Isabelle \<open>string\<close>, one \<open>char\<close> per UTF-16 code unit; components in
  which units above 255 matter (the Unicode and CBOR theories) use their own unit type.
  A number is a \<open>jsnum\<close> wherever the source receives an unchecked value, and an \<open>int\<close>
  once the source has established that it is a safe integer.
\<close>

named_theorems gate_simps \<open>definitions that unfold a decision function of the model\<close>
named_theorems store_simps \<open>equations for operations on durable record stores\<close>

section \<open>Strings\<close>

text \<open>White space in the sense of \<open>String.prototype.trim\<close>, on code units below 256.\<close>

definition is_js_space :: "char \<Rightarrow> bool" where
  "is_js_space c \<longleftrightarrow> of_char c \<in> ({9, 10, 11, 12, 13, 32, 160} :: nat set)"

definition js_trim :: "string \<Rightarrow> string" where
  "js_trim s = rev (dropWhile is_js_space (rev (dropWhile is_js_space s)))"

definition has_text :: "string \<Rightarrow> bool" where
  "has_text s \<longleftrightarrow> length (js_trim s) > 0"

definition is_digit :: "char \<Rightarrow> bool" where
  "is_digit c \<longleftrightarrow> (48::nat) \<le> of_char c \<and> of_char c \<le> (57::nat)"

definition is_lower_hex :: "char \<Rightarrow> bool" where
  "is_lower_hex c \<longleftrightarrow> is_digit c \<or> ((97::nat) \<le> of_char c \<and> of_char c \<le> (102::nat))"

lemma dropWhile_eq_Nil_iff: "dropWhile P xs = [] \<longleftrightarrow> (\<forall>x\<in>set xs. P x)"
  by (induction xs) auto

lemma js_trim_eq_Nil_iff: "js_trim s = [] \<longleftrightarrow> (\<forall>c\<in>set s. is_js_space c)"
proof
  assume "js_trim s = []"
  then have all: "\<forall>c\<in>set (dropWhile is_js_space s). is_js_space c"
    by (simp add: js_trim_def dropWhile_eq_Nil_iff)
  have "dropWhile is_js_space s = []"
  proof (rule ccontr)
    assume ne: "dropWhile is_js_space s \<noteq> []"
    then have "\<not> is_js_space (hd (dropWhile is_js_space s))" by (rule hd_dropWhile)
    moreover from ne all have "is_js_space (hd (dropWhile is_js_space s))" by simp
    ultimately show False ..
  qed
  then show "\<forall>c\<in>set s. is_js_space c" by (simp add: dropWhile_eq_Nil_iff)
next
  assume "\<forall>c\<in>set s. is_js_space c"
  then show "js_trim s = []"
    by (auto simp: js_trim_def dropWhile_eq_Nil_iff dest: set_dropWhileD)
qed

lemma has_text_iff: "has_text s \<longleftrightarrow> (\<exists>c\<in>set s. \<not> is_js_space c)"
  unfolding has_text_def using js_trim_eq_Nil_iff [of s] by auto

lemma has_text_Nil [simp]: "\<not> has_text []"
  by (simp add: has_text_iff)

text \<open>ASCII lower case.\<close>

definition lower_char :: "char \<Rightarrow> char" where
  "lower_char c = (if (65::nat) \<le> of_char c \<and> of_char c \<le> (90::nat) then char_of (of_char c + 32 :: nat) else c)"

text \<open>The lower-case UUID pattern shared by the authorities: groups of 8, 4, 4, 4 and 12
  digits, version digit 1 to 8, variant digit 8, 9, a or b.\<close>

definition is_uuid_at :: "nat \<Rightarrow> char \<Rightarrow> bool" where
  "is_uuid_at i c =
     (if i \<in> {8, 13, 18, 23} then c = CHR ''-''
      else if i = 14 then is_digit c \<and> c \<noteq> CHR ''0'' \<and> c \<noteq> CHR ''9''
      else if i = 19 then c \<in> {CHR ''8'', CHR ''9'', CHR ''a'', CHR ''b''}
      else is_lower_hex c)"

definition is_uuid :: "string \<Rightarrow> bool" where
  "is_uuid s \<longleftrightarrow> length s = 36 \<and> list_all (\<lambda>(i, c). is_uuid_at i c) (zip [0..<36] s)"

text \<open>\<open>s.split(c)\<close> for one separator character.\<close>

fun split_on :: "char \<Rightarrow> string \<Rightarrow> string list" where
  "split_on c [] = [[]]"
| "split_on c (d # s) =
     (if d = c then [] # split_on c s
      else (case split_on c s of [] \<Rightarrow> [[d]] | l # ls \<Rightarrow> (d # l) # ls))"

lemma split_on_ne: "split_on c s \<noteq> []"
  by (induction s) (auto split: list.splits)

lemma split_on_plain: "c \<notin> set l \<Longrightarrow> split_on c l = [l]"
  by (induction l) auto

lemma split_on_line: "c \<notin> set l \<Longrightarrow> split_on c (l @ c # s) = l # split_on c s"
  by (induction l) auto

lemma split_on_append: "split_on c (s @ c # t) = split_on c s @ split_on c t"
proof (induction s)
  case Nil
  then show ?case by simp
next
  case (Cons d s)
  then show ?case using split_on_ne [of c s] by (cases "split_on c s") auto
qed

section \<open>Unchecked JavaScript values\<close>

text \<open>Numbers: integral ones carry their value, the others are told apart only as far as
  the sources do (a finite fraction, an infinity, not-a-number).\<close>

datatype jsnum = NInt int | NFrac int int | NInf bool | NNaN

datatype jsval =
    JUndef
  | JNull
  | JBool bool
  | JNum jsnum
  | JStr string
  | JArr "jsval list"
  | JObj "(string \<times> jsval) list"

definition MAX_SAFE_INTEGER :: int where "MAX_SAFE_INTEGER = 9007199254740991"

definition is_safe_int :: "int \<Rightarrow> bool" where
  "is_safe_int i \<longleftrightarrow> - MAX_SAFE_INTEGER \<le> i \<and> i \<le> MAX_SAFE_INTEGER"

fun is_safe_integer :: "jsval \<Rightarrow> bool" where
  "is_safe_integer (JNum (NInt i)) = is_safe_int i"
| "is_safe_integer _ = False"

fun int_of_jsval :: "jsval \<Rightarrow> int" where
  "int_of_jsval (JNum (NInt i)) = i"
| "int_of_jsval _ = 0"

fun is_string :: "jsval \<Rightarrow> bool" where
  "is_string (JStr _) = True"
| "is_string _ = False"

fun string_of_jsval :: "jsval \<Rightarrow> string" where
  "string_of_jsval (JStr s) = s"
| "string_of_jsval _ = []"

text \<open>Own-property read; a missing own property reads as \<open>undefined\<close>.\<close>

definition obj_keys :: "(string \<times> jsval) list \<Rightarrow> string list" where
  "obj_keys o1 = map fst o1"

definition obj_get :: "(string \<times> jsval) list \<Rightarrow> string \<Rightarrow> jsval" where
  "obj_get o1 k = (case map_of o1 k of None \<Rightarrow> JUndef | Some v \<Rightarrow> v)"

definition has_own :: "(string \<times> jsval) list \<Rightarrow> string \<Rightarrow> bool" where
  "has_own o1 k \<longleftrightarrow> k \<in> set (obj_keys o1)"

lemma is_safe_integerE:
  assumes "is_safe_integer v"
  obtains i where "v = JNum (NInt i)" and "is_safe_int i" and "int_of_jsval v = i"
  using assms by (cases v rule: is_safe_integer.cases) auto

lemma is_stringE:
  assumes "is_string v"
  obtains s where "v = JStr s" and "string_of_jsval v = s"
  using assms by (cases v) auto

section \<open>Results of fallible operations\<close>

definition rbind :: "'e + 'a \<Rightarrow> ('a \<Rightarrow> 'e + 'b) \<Rightarrow> 'e + 'b" where
  "rbind r f = (case r of Inl e \<Rightarrow> Inl e | Inr a \<Rightarrow> f a)"

definition require :: "bool \<Rightarrow> 'e \<Rightarrow> 'e + unit" where
  "require b e = (if b then Inr () else Inl e)"

text \<open>\<open>xs.map(f)\<close> for an \<open>f\<close> that may throw: left to right, the first error wins.\<close>

fun rmap :: "('a \<Rightarrow> 'e + 'b) \<Rightarrow> 'a list \<Rightarrow> 'e + 'b list" where
  "rmap f [] = Inr []"
| "rmap f (x # xs) = (case f x of Inl e \<Rightarrow> Inl e | Inr y \<Rightarrow>
     (case rmap f xs of Inl e \<Rightarrow> Inl e | Inr ys \<Rightarrow> Inr (y # ys)))"

lemma rbind_Inl [simp]: "rbind (Inl e) f = Inl e" by (simp add: rbind_def)

lemma rbind_Inr [simp]: "rbind (Inr a) f = f a" by (simp add: rbind_def)

lemma rbind_eq_Inr_iff: "rbind r f = Inr b \<longleftrightarrow> (\<exists>a. r = Inr a \<and> f a = Inr b)"
  by (cases r) auto

lemma require_eq_Inr_iff [simp]: "require b e = Inr u \<longleftrightarrow> b"
  by (simp add: require_def)

lemma require_eq_Inl_iff [simp]: "require b e = Inl e' \<longleftrightarrow> \<not> b \<and> e = e'"
  by (auto simp: require_def)

lemma rmap_eq_Inr_iff: "rmap f xs = Inr ys \<longleftrightarrow> list_all2 (\<lambda>x y. f x = Inr y) xs ys"
proof (induction xs arbitrary: ys)
  case Nil
  show ?case by auto
next
  case (Cons x xs)
  show ?case
    by (cases ys) (auto simp: Cons.IH [symmetric] split: sum.splits)
qed

lemma rmap_length: "rmap f xs = Inr ys \<Longrightarrow> length ys = length xs"
  by (auto simp: rmap_eq_Inr_iff dest: list_all2_lengthD)

section \<open>First-match list operations\<close>

text \<open>\<open>const r = rs.find(p); rs[rs.indexOf(r)] = r'\<close> on records that are distinct objects:
  the first element that satisfies \<open>p\<close> is replaced.\<close>

fun replace_first :: "('a \<Rightarrow> bool) \<Rightarrow> ('a \<Rightarrow> 'a) \<Rightarrow> 'a list \<Rightarrow> 'a list" where
  "replace_first p f [] = []"
| "replace_first p f (x # xs) = (if p x then f x # xs else x # replace_first p f xs)"

lemma length_replace_first [simp]: "length (replace_first p f xs) = length xs"
  by (induction xs) auto

lemma find_Some_mem: "find p xs = Some x \<Longrightarrow> x \<in> set xs \<and> p x"
  by (induction xs) (auto split: if_splits)

lemma find_None_iff': "find p xs = None \<longleftrightarrow> (\<forall>x\<in>set xs. \<not> p x)"
  by (induction xs) auto

lemma map_replace_first_inv:
  "(\<And>x. g (f x) = g x) \<Longrightarrow> map g (replace_first p f xs) = map g xs"
  by (induction xs) auto

lemma find_replace_first:
  "find p xs = Some x \<Longrightarrow> (\<And>y. p y \<Longrightarrow> p (f y)) \<Longrightarrow>
     find p (replace_first p f xs) = Some (f x)"
  by (induction xs) (auto split: if_splits)

lemma find_replace_first_other:
  "(\<And>x. q x \<Longrightarrow> \<not> p x \<and> \<not> p (f x)) \<Longrightarrow> find p (replace_first q f xs) = find p xs"
  by (induction xs) auto

lemma mem_replace_firstD:
  "y \<in> set (replace_first p f xs) \<Longrightarrow> y \<in> set xs \<or> (\<exists>x\<in>set xs. p x \<and> y = f x)"
  by (induction xs) (auto split: if_splits)

lemma filter_replace_first:
  "(\<And>x. p x \<Longrightarrow> \<not> q x \<and> \<not> q (f x)) \<Longrightarrow> filter q (replace_first p f xs) = filter q xs"
  by (induction xs) auto

lemma replace_first_distinct_mem:
  "distinct (map k xs) \<Longrightarrow> x \<in> set xs \<Longrightarrow> k x = i \<Longrightarrow>
     f x \<in> set (replace_first (\<lambda>y. k y = i) f xs)"
  by (induction xs) (auto simp: rev_image_eqI)

text \<open>Ordered de-duplication, \<open>[...new Set(xs)]\<close>: the first occurrence stays.\<close>

fun js_dedupe :: "'a list \<Rightarrow> 'a list \<Rightarrow> 'a list" where
  "js_dedupe seen [] = []"
| "js_dedupe seen (x # xs) =
     (if x \<in> set seen then js_dedupe seen xs else x # js_dedupe (x # seen) xs)"

lemma set_js_dedupe: "set (js_dedupe seen xs) = set xs - set seen"
  by (induction seen xs rule: js_dedupe.induct) auto

lemma distinct_js_dedupe: "distinct (js_dedupe seen xs)"
  by (induction seen xs rule: js_dedupe.induct) (auto simp: set_js_dedupe)

text \<open>Sorting by distinct keys does not depend on the order of the input.\<close>

lemma sort_key_perm:
  assumes "mset xs = mset ys" and "distinct (map f xs)"
  shows "sort_key f xs = sort_key f ys"
proof (rule properties_for_sort_key)
  show "mset (sort_key f ys) = mset xs" using assms(1) by simp
  show "sorted (map f (sort_key f ys))" by simp
  have dy: "distinct (map f ys)" using assms by (metis mset_eq_imp_distinct_iff mset_map)
  fix k
  assume k: "k \<in> set (sort_key f ys)"
  have one: "filter (\<lambda>x. f k = f x) zs = [k]" if "distinct (map f zs)" "k \<in> set zs" for zs
    using that by (induction zs) (auto simp: filter_empty_conv rev_image_eqI)
  have "k \<in> set xs" using k assms(1) by (metis set_mset_mset set_sort)
  then show "filter (\<lambda>x. f k = f x) (sort_key f ys) = filter (\<lambda>x. f k = f x) xs"
    using one assms(2) dy k by (simp add: filter_sort)
qed

section \<open>Transactions\<close>

text \<open>A transaction on tables \<open>'s\<close>: an error, which leaves the tables as they were, or a result and the new
  tables.\<close>

type_synonym ('s, 'e, 'r) trans = "'s \<Rightarrow> 'e + 'r \<times> 's"

definition tx_return :: "'r \<Rightarrow> ('s, 'e, 'r) trans" where
  "tx_return a db = Inr (a, db)"

definition tx_bind :: "('s, 'e, 'a) trans \<Rightarrow> ('a \<Rightarrow> ('s, 'e, 'b) trans) \<Rightarrow> ('s, 'e, 'b) trans" where
  "tx_bind m f db = (case m db of Inl e \<Rightarrow> Inl e | Inr (a, db') \<Rightarrow> f a db')"

definition tx_fail :: "'e \<Rightarrow> ('s, 'e, 'r) trans" where
  "tx_fail e db = Inl e"

text \<open>A check that only reads.\<close>

definition tx_check :: "('s \<Rightarrow> 'e + 'r) \<Rightarrow> ('s, 'e, 'r) trans" where
  "tx_check f db = (case f db of Inl e \<Rightarrow> Inl e | Inr a \<Rightarrow> Inr (a, db))"

lemmas tx_defs = tx_return_def tx_bind_def tx_fail_def tx_check_def

lemma tx_bindE:
  assumes "tx_bind m f db = Inr (b, db')"
  obtains a db1 where "m db = Inr (a, db1)" "f a db1 = Inr (b, db')"
  using assms by (auto simp: tx_bind_def split: sum.splits)

lemma tx_checkE:
  assumes "tx_check f db = Inr (a, db')"
  obtains "f db = Inr a" "db' = db"
  using assms by (auto simp: tx_check_def split: sum.splits)

text \<open>A relation between the tables before and after that a transaction keeps.\<close>

definition tx_keeps :: "('s \<Rightarrow> 's \<Rightarrow> bool) \<Rightarrow> ('s, 'e, 'r) trans \<Rightarrow> bool" where
  "tx_keeps R m \<longleftrightarrow> (\<forall>db a db'. m db = Inr (a, db') \<longrightarrow> R db db')"

lemma tx_keepsI: "(\<And>db a db'. m db = Inr (a, db') \<Longrightarrow> R db db') \<Longrightarrow> tx_keeps R m"
  by (simp add: tx_keeps_def)

lemma tx_keepsD: "tx_keeps R m \<Longrightarrow> m db = Inr (a, db') \<Longrightarrow> R db db'"
  by (simp add: tx_keeps_def)

locale table_relation =
  fixes R :: "'s \<Rightarrow> 's \<Rightarrow> bool"
  assumes R_refl: "R db db"
    and R_trans: "R a b \<Longrightarrow> R b c \<Longrightarrow> R a c"
begin

lemma keeps_return: "tx_keeps R (tx_return a)"
  by (rule tx_keepsI) (simp add: tx_return_def R_refl)

lemma keeps_fail: "tx_keeps R (tx_fail e)"
  by (rule tx_keepsI) (simp add: tx_fail_def)

lemma keeps_check: "tx_keeps R (tx_check f)"
  by (rule tx_keepsI) (auto simp: tx_check_def R_refl split: sum.splits)

lemma keeps_bind:
  assumes "tx_keeps R m" and "\<And>a. tx_keeps R (f a)"
  shows "tx_keeps R (tx_bind m f)"
proof (rule tx_keepsI)
  fix db a db'
  assume "tx_bind m f db = Inr (a, db')"
  then obtain x db1 where "m db = Inr (x, db1)" "f x db1 = Inr (a, db')" by (rule tx_bindE)
  then show "R db db'" using assms by (meson R_trans tx_keepsD)
qed

text \<open>A transaction whose statements depend on what it read at its start.\<close>

lemma keeps_reading: "tx_keeps R (\<lambda>db. g db db)" if "\<And>db0. tx_keeps R (g db0)"
  using that by (auto simp: tx_keeps_def)

end

text \<open>The characters of base64url, also the class \<open>[A-Za-z0-9_-]\<close>.\<close>

definition token_char :: "char \<Rightarrow> bool" where
  "token_char c \<longleftrightarrow> is_digit c \<or> c = CHR ''_'' \<or> c = CHR ''-'' \<or> ((97::nat) \<le> of_char (lower_char c) \<and> of_char (lower_char c) \<le> (122::nat))"

end
