(* ===== verification/Host_Store.thy ===== *)
theory Host_Store
  imports Prelude
begin

text \<open>
  The durable JSON record store of the desktop host,
  \<^verbatim>\<open>apps/desktop/shell/src/dev-runtime/host-store.ts\<close> (\<open>createDurableJsonStore\<close>), and the error
  codes and scopes of \<^verbatim>\<open>authority.ts\<close> that every authority shares.

  The file is modelled by what a read can find there: nothing, something that is not a
  regular file, text that is not a JSON envelope, or an envelope with a schema version and
  records. A save replaces the whole file in one rename; a load either returns the records,
  or refuses and moves the unread content aside. Failures of the file system itself (a full
  disk, a permission change between two calls) are outside the model.
\<close>

section \<open>Error codes and scope\<close>

datatype dev_code =
    not_found | unauthorized | unauthorized_root | path_escape | path_denied
  | symlink_rejected | special_file_rejected | identity_mismatch | invalid_state
  | stale_generation | stale_version | corrupt_state | unsupported_version
  | auth_required | limit_exceeded | unavailable | spawn_failed

record dev_scope =
  accountId :: string
  workspaceId :: string
  runtimeNodeId :: string

definition RETRYABLE_CODES :: "dev_code set" where
  "RETRYABLE_CODES = {corrupt_state}"

text \<open>A thrown \<open>DevAuthorityError\<close>: its code and, where the source gives
  one, the record's current version.\<close>

record dev_error =
  code :: dev_code
  retryable :: bool
  currentVersion :: "int option"

definition dev_authority_error :: "dev_code \<Rightarrow> dev_error" where
  "dev_authority_error c = \<lparr>code = c, retryable = (c \<in> RETRYABLE_CODES), currentVersion = None\<rparr>"

definition dev_authority_error_at :: "dev_code \<Rightarrow> int \<Rightarrow> dev_error" where
  "dev_authority_error_at c v = (dev_authority_error c)\<lparr>currentVersion := Some v\<rparr>"

definition sameScope :: "dev_scope \<Rightarrow> dev_scope \<Rightarrow> bool" where
  "sameScope a b \<longleftrightarrow> accountId a = accountId b \<and> workspaceId a = workspaceId b
     \<and> runtimeNodeId a = runtimeNodeId b"

lemma sameScope_iff [simp]: "sameScope a b \<longleftrightarrow> a = b"
  by (auto simp: sameScope_def)

lemma code_dev_authority_error [simp]: "code (dev_authority_error c) = c"
  by (simp add: dev_authority_error_def)

lemma dev_authority_error_eq_iff [simp]:
  "dev_authority_error c = dev_authority_error d \<longleftrightarrow> c = d"
  by (auto simp: dev_authority_error_def)

section \<open>The store\<close>

datatype 'r disk =
    Absent
  | Irregular
  | NotEnvelope string
  | Envelope int "'r list"

record 'r store_state =
  disk :: "'r disk"
  retained :: "'r disk list"

definition empty_store :: "'r store_state" where
  "empty_store = \<lparr>disk = Absent, retained = []\<rparr>"

definition store_retain :: "dev_code \<Rightarrow> 'r store_state \<Rightarrow> (dev_error + 'r list) \<times> 'r store_state" where
  "store_retain c s =
     (Inl (dev_authority_error c), s\<lparr>disk := Absent, retained := retained s @ [disk s]\<rparr>)"

definition store_load :: "int \<Rightarrow> 'r store_state \<Rightarrow> (dev_error + 'r list) \<times> 'r store_state" where
  "store_load schemaVersion s =
     (case disk s of
        Irregular \<Rightarrow> (Inl (dev_authority_error corrupt_state), s)
      | Absent \<Rightarrow> (Inr [], s)
      | NotEnvelope raw \<Rightarrow> store_retain corrupt_state s
      | Envelope v rs \<Rightarrow>
          if v \<noteq> schemaVersion then store_retain unsupported_version s else (Inr rs, s))"

definition store_save :: "int \<Rightarrow> 'r list \<Rightarrow> 'r store_state \<Rightarrow> dev_error + 'r store_state" where
  "store_save schemaVersion rs s =
     (case disk s of
        Irregular \<Rightarrow> Inl (dev_authority_error corrupt_state)
      | _ \<Rightarrow> Inr (s\<lparr>disk := Envelope schemaVersion rs\<rparr>))"

section \<open>Read-modify-write over a store\<close>

text \<open>
  Every store-backed authority loads all records, decides, and saves the whole list at most
  once. \<open>transact\<close> is that shape: \<open>f\<close> sees the records and either throws, or returns a result
  with the new record list (\<open>Some\<close>) or without a write (\<open>None\<close>).
\<close>

definition transact ::
  "('s \<Rightarrow> ('e + 'r list) \<times> 's) \<Rightarrow> ('r list \<Rightarrow> 's \<Rightarrow> 'e + 's) \<Rightarrow>
   ('r list \<Rightarrow> 'e + ('r list option \<times> 'a)) \<Rightarrow> 's \<Rightarrow> ('e + 'a) \<times> 's" where
  "transact ld sv f s =
     (case ld s of
        (Inl e, s1) \<Rightarrow> (Inl e, s1)
      | (Inr rs, s1) \<Rightarrow>
          (case f rs of
             Inl e \<Rightarrow> (Inl e, s1)
           | Inr (None, a) \<Rightarrow> (Inr a, s1)
           | Inr (Some rs', a) \<Rightarrow>
               (case sv rs' s1 of Inl e \<Rightarrow> (Inl e, s1) | Inr s2 \<Rightarrow> (Inr a, s2))))"

text \<open>A component with its own error type sees the store's errors wrapped by \<open>h\<close>.\<close>

definition lift_load :: "('e \<Rightarrow> 'f) \<Rightarrow> ('s \<Rightarrow> ('e + 'r list) \<times> 's) \<Rightarrow> 's \<Rightarrow> ('f + 'r list) \<times> 's" where
  "lift_load h ld s = map_prod (map_sum h id) id (ld s)"

definition lift_save :: "('e \<Rightarrow> 'f) \<Rightarrow> ('r list \<Rightarrow> 's \<Rightarrow> 'e + 's) \<Rightarrow> 'r list \<Rightarrow> 's \<Rightarrow> 'f + 's" where
  "lift_save h sv rs s = map_sum h id (sv rs s)"

lemma lift_load_Inr_iff [simp]: "lift_load h ld s = (Inr rs, s1) \<longleftrightarrow> ld s = (Inr rs, s1)"
  by (cases "ld s"; cases "fst (ld s)") (auto simp: lift_load_def)

lemma lift_save_Inr_iff [simp]: "lift_save h sv rs s = Inr s1 \<longleftrightarrow> sv rs s = Inr s1"
  by (cases "sv rs s") (auto simp: lift_save_def)

locale record_store =
  fixes ld :: "'s \<Rightarrow> ('e + 'r list) \<times> 's"
    and sv :: "'r list \<Rightarrow> 's \<Rightarrow> 'e + 's"
  assumes load_stable: "ld s = (Inr rs, s1) \<Longrightarrow> ld s1 = (Inr rs, s1)"
    and save_load: "ld s = (Inr rs, s1) \<Longrightarrow> \<exists>s2. sv rs' s1 = Inr s2 \<and> ld s2 = (Inr rs', s2)"
begin

lemma transact_writes:
  assumes "ld s = (Inr rs, s1)" and "f rs = Inr (Some rs', a)"
  shows "\<exists>s2. transact ld sv f s = (Inr a, s2) \<and> ld s2 = (Inr rs', s2)"
  using assms save_load [OF assms(1), of rs'] by (auto simp: transact_def)

lemma transact_reads:
  assumes "ld s = (Inr rs, s1)" and "f rs = Inr (None, a)"
  shows "transact ld sv f s = (Inr a, s1) \<and> ld s1 = (Inr rs, s1)"
  using assms load_stable by (auto simp: transact_def)

lemma transact_refuses:
  assumes "ld s = (Inr rs, s1)" and "f rs = Inl e"
  shows "transact ld sv f s = (Inl e, s1) \<and> ld s1 = (Inr rs, s1)"
  using assms load_stable by (auto simp: transact_def)

text \<open>A transaction on a readable store leaves a readable store; the records change only
  when it succeeds.\<close>

lemma transact_atomic:
  assumes "ld s = (Inr rs, s1)" and "transact ld sv f s = (r, s2)"
  shows "\<exists>rs'. ld s2 = (Inr rs', s2) \<and> (rs' = rs \<or> (\<exists>a. r = Inr a \<and> f rs = Inr (Some rs', a)))"
proof (cases "f rs")
  case (Inl e)
  from transact_refuses [of s rs s1 f e] Inl assms show ?thesis by auto
next
  case (Inr wa)
  obtain w a where wa: "wa = (w, a)" by (cases wa)
  show ?thesis
  proof (cases w)
    case None
    with Inr wa have "f rs = Inr (None, a)" by simp
    from transact_reads [of s rs s1 f a] this assms show ?thesis by auto
  next
    case (Some rs')
    with Inr wa have f: "f rs = Inr (Some rs', a)" by simp
    from transact_writes [of s rs s1 f rs' a] f assms show ?thesis by auto
  qed
qed

lemma transact_InrE:
  assumes "transact ld sv f s = (Inr a, s2)"
  obtains rs s1 w where "ld s = (Inr rs, s1)" and "f rs = Inr (w, a)"
    and "ld s2 = (Inr (case w of None \<Rightarrow> rs | Some rs' \<Rightarrow> rs'), s2)"
proof -
  obtain r s1 where ls: "ld s = (r, s1)" by (cases "ld s")
  then obtain rs where r: "r = Inr rs" using assms by (cases r) (auto simp: transact_def)
  with ls have ld: "ld s = (Inr rs, s1)" by simp
  obtain w where f: "f rs = Inr (w, a)"
    using assms ld by (auto simp: transact_def split: sum.splits option.splits)
  have "ld s2 = (Inr (case w of None \<Rightarrow> rs | Some rs' \<Rightarrow> rs'), s2)"
  proof (cases w)
    case None
    with f transact_reads [OF ld, of f a] assms show ?thesis by simp
  next
    case (Some rs')
    with f transact_writes [OF ld, of f rs' a] assms show ?thesis by auto
  qed
  with ld f show ?thesis by (rule that)
qed

end

text \<open>Wrapping the errors keeps the laws.\<close>

context record_store
begin

lemma record_store_lift: "record_store (lift_load h ld) (lift_save h sv)"
  using load_stable save_load by unfold_locales auto

end

interpretation json_store: record_store "store_load v" "store_save v" for v
proof
  fix s s1 :: "'r store_state" and rs rs' :: "'r list"
  assume ld: "store_load v s = (Inr rs, s1)"
  then have s1: "s1 = s" and d: "disk s = Absent \<or> disk s = Envelope v rs"
    by (auto simp: store_load_def store_retain_def split: disk.splits if_splits)
  show "store_load v s1 = (Inr rs, s1)" using ld s1 by simp
  show "\<exists>s2. store_save v rs' s1 = Inr s2 \<and> store_load v s2 = (Inr rs', s2)"
    using d s1 by (auto simp: store_save_def store_load_def)
qed

text \<open>Unreadable content is refused once, kept aside, and never interpreted.\<close>

lemma store_load_refusal_retains:
  assumes "store_load v s = (Inl e, s')"
  shows "disk s = Irregular \<and> s' = s
     \<or> disk s' = Absent \<and> retained s' = retained s @ [disk s] \<and> disk s \<noteq> Absent"
  using assms by (auto simp: store_load_def store_retain_def split: disk.splits if_splits)

definition stored :: "int \<Rightarrow> 'r list \<Rightarrow> 'r store_state" where
  "stored v rs = \<lparr>disk = Envelope v rs, retained = []\<rparr>"

lemma store_load_stored [simp]: "store_load v (stored v rs) = (Inr rs, stored v rs)"
  by (simp add: store_load_def stored_def)

lemma store_save_stored [simp]: "store_save v rs' (stored v rs) = Inr (stored v rs')"
  by (simp add: store_save_def stored_def)

end
