(* ===== verification/Approvals.thy ===== *)
theory Approvals
  imports Host_Store
begin

text \<open>
  The owner-approval ledger, \<open>createOwnerApprovalVerifier\<close> in
  \<^verbatim>\<open>apps/desktop/shell/src/dev-runtime/authority.ts\<close>: \<open>recordIssuance\<close> writes an issuance,
  \<open>consume\<close> and \<open>consumeByReference\<close> spend it. \<open>Date.parse\<close> is the argument \<open>parse\<close> (\<open>None\<close> is
  NaN, which every comparison treats as false); the clock is the argument \<open>at\<close>, in
  milliseconds. The step relation at the end interleaves any number of calls.
\<close>

record owner_approval =
  approval_method :: string
  reference :: string
  approval_scope :: "dev_scope option"
  issuedAt :: "string option"
  expiresAt :: "string option"

record stored_approval =
  sa_reference :: string
  sa_method :: string
  sa_action :: string
  sa_scope :: dev_scope
  sa_issuedAt :: string
  sa_expiresAt :: string
  sa_consumedAt :: "int option"

type_synonym date_parse = "string \<Rightarrow> int option"
type_synonym approval_store = "stored_approval store_state"

definition APPROVAL_MAX_LIFETIME_MS :: int where
  "APPROVAL_MAX_LIFETIME_MS = 10 * 60000"

text \<open>\<open>NaN <= at\<close> and \<open>NaN > at\<close> are both false.\<close>

definition ms_le :: "int option \<Rightarrow> int \<Rightarrow> bool" where
  "ms_le t at = (case t of None \<Rightarrow> False | Some m \<Rightarrow> m \<le> at)"

definition ms_gt :: "int option \<Rightarrow> int \<Rightarrow> bool" where
  "ms_gt t at = (case t of None \<Rightarrow> False | Some m \<Rightarrow> m > at)"

definition requireApproval :: "owner_approval option \<Rightarrow> dev_error + owner_approval" where
  "requireApproval approval =
     (case approval of
        None \<Rightarrow> Inl (dev_authority_error unauthorized)
      | Some a \<Rightarrow>
          if (approval_method a \<noteq> ''owner_dialog'' \<and> approval_method a \<noteq> ''owner_setting'')
             \<or> length (reference a) < 1 \<or> length (reference a) > 256
          then Inl (dev_authority_error unauthorized) else Inr a)"

definition requireLabel :: "jsval \<Rightarrow> dev_error + string" where
  "requireLabel label =
     (if \<not> is_string label \<or> length (string_of_jsval label) < 1
         \<or> length (string_of_jsval label) > 128
      then Inl (dev_authority_error invalid_state) else Inr (string_of_jsval label))"

definition window_ok :: "date_parse \<Rightarrow> int \<Rightarrow> string \<Rightarrow> string \<Rightarrow> bool" where
  "window_ok parse at isd exd =
     (case (parse isd, parse exd) of
        (Some issued, Some expires) \<Rightarrow>
          \<not> (issued > at + 30000 \<or> expires \<le> issued
              \<or> expires - issued > APPROVAL_MAX_LIFETIME_MS)
      | _ \<Rightarrow> False)"

definition assertWellFormed ::
  "date_parse \<Rightarrow> int \<Rightarrow> owner_approval \<Rightarrow> dev_scope \<Rightarrow> dev_error + unit" where
  "assertWellFormed parse at approval scope =
     rbind (requireApproval (Some approval)) (\<lambda>_.
       if approval_scope approval = None \<or> \<not> sameScope (the (approval_scope approval)) scope
       then Inl (dev_authority_error unauthorized)
       else (case (issuedAt approval, expiresAt approval) of
               (Some isd, Some exd) \<Rightarrow> require (window_ok parse at isd exd) (dev_authority_error unauthorized)
             | _ \<Rightarrow> Inl (dev_authority_error unauthorized)))"

definition issue_record :: "owner_approval \<Rightarrow> dev_scope \<Rightarrow> string \<Rightarrow> stored_approval" where
  "issue_record approval scope action =
     \<lparr>sa_reference = reference approval, sa_method = approval_method approval, sa_action = action,
      sa_scope = scope, sa_issuedAt = the (issuedAt approval),
      sa_expiresAt = the (expiresAt approval), sa_consumedAt = None\<rparr>"

definition recordIssuance ::
  "date_parse \<Rightarrow> int \<Rightarrow> owner_approval \<Rightarrow> dev_scope \<Rightarrow> string \<Rightarrow> approval_store
     \<Rightarrow> (dev_error + unit) \<times> approval_store" where
  "recordIssuance parse at approval scope action s =
     (case assertWellFormed parse at approval scope of
        Inl e \<Rightarrow> (Inl e, s)
      | Inr _ \<Rightarrow> transact (store_load 1) (store_save 1)
          (\<lambda>all. if \<exists>r\<in>set all. sa_reference r = reference approval \<and> sa_action r = action
                 then Inl (dev_authority_error unauthorized)
                 else Inr (Some (all @ [issue_record approval scope action]), ())) s)"

definition mark_consumed :: "string \<Rightarrow> string \<Rightarrow> int \<Rightarrow> stored_approval list \<Rightarrow> stored_approval list" where
  "mark_consumed ref action at all =
     map (\<lambda>r. if sa_reference r = ref \<and> sa_action r = action
              then r\<lparr>sa_consumedAt := Some at\<rparr> else r) all"

definition issued_under :: "string \<Rightarrow> string \<Rightarrow> stored_approval list \<Rightarrow> dev_error + stored_approval" where
  "issued_under ref action all =
     (let underReference = filter (\<lambda>r. sa_reference r = ref) all in
      case find (\<lambda>r. sa_action r = action) underReference of
        None \<Rightarrow> Inl (dev_authority_error unauthorized)
      | Some issued \<Rightarrow>
          if \<exists>r\<in>set underReference. sa_consumedAt r \<noteq> None
          then Inl (dev_authority_error unauthorized) else Inr issued)"

definition consume_records ::
  "date_parse \<Rightarrow> int \<Rightarrow> owner_approval \<Rightarrow> dev_scope \<Rightarrow> string \<Rightarrow> stored_approval list
     \<Rightarrow> dev_error + (stored_approval list option \<times> unit)" where
  "consume_records parse at approval scope action all =
     rbind (issued_under (reference approval) action all) (\<lambda>issued.
       if sa_method issued \<noteq> approval_method approval
          \<or> accountId (sa_scope issued) \<noteq> accountId scope
          \<or> workspaceId (sa_scope issued) \<noteq> workspaceId scope
          \<or> runtimeNodeId (sa_scope issued) \<noteq> runtimeNodeId scope
          \<or> Some (sa_issuedAt issued) \<noteq> issuedAt approval
          \<or> Some (sa_expiresAt issued) \<noteq> expiresAt approval
       then Inl (dev_authority_error unauthorized)
       else if ms_le (parse (sa_expiresAt issued)) at
       then Inl (dev_authority_error unauthorized)
       else Inr (Some (mark_consumed (reference approval) action at all), ()))"

definition consume ::
  "date_parse \<Rightarrow> int \<Rightarrow> owner_approval \<Rightarrow> dev_scope \<Rightarrow> string \<Rightarrow> approval_store
     \<Rightarrow> (dev_error + unit) \<times> approval_store" where
  "consume parse at approval scope action s =
     (case assertWellFormed parse at approval scope of
        Inl e \<Rightarrow> (Inl e, s)
      | Inr _ \<Rightarrow> transact (store_load 1) (store_save 1)
          (consume_records parse at approval scope action) s)"

definition consume_by_reference_records ::
  "date_parse \<Rightarrow> int \<Rightarrow> string \<Rightarrow> dev_scope \<Rightarrow> string \<Rightarrow> stored_approval list
     \<Rightarrow> dev_error + (stored_approval list option \<times> unit)" where
  "consume_by_reference_records parse at ref scope action all =
     rbind (issued_under ref action all) (\<lambda>issued.
       if accountId (sa_scope issued) \<noteq> accountId scope
          \<or> workspaceId (sa_scope issued) \<noteq> workspaceId scope
          \<or> runtimeNodeId (sa_scope issued) \<noteq> runtimeNodeId scope
       then Inl (dev_authority_error unauthorized)
       else if parse (sa_expiresAt issued) = None
          \<or> ms_le (parse (sa_expiresAt issued)) at
          \<or> ms_gt (parse (sa_issuedAt issued)) (at + 30000)
       then Inl (dev_authority_error unauthorized)
       else Inr (Some (mark_consumed ref action at all), ()))"

definition consumeByReference ::
  "date_parse \<Rightarrow> int \<Rightarrow> jsval \<Rightarrow> dev_scope \<Rightarrow> string \<Rightarrow> approval_store
     \<Rightarrow> (dev_error + unit) \<times> approval_store" where
  "consumeByReference parse at refv scope action s =
     (if \<not> is_string refv \<or> length (string_of_jsval refv) < 1 \<or> length (string_of_jsval refv) > 256
      then (Inl (dev_authority_error unauthorized), s)
      else transact (store_load 1) (store_save 1)
        (consume_by_reference_records parse at (string_of_jsval refv) scope action) s)"

section \<open>The ledger invariant\<close>

definition spent :: "stored_approval list \<Rightarrow> string \<Rightarrow> bool" where
  "spent all ref \<longleftrightarrow> (\<exists>r\<in>set all. sa_reference r = ref \<and> sa_consumedAt r \<noteq> None)"

definition ledger_inv :: "stored_approval list \<Rightarrow> bool" where
  "ledger_inv all \<longleftrightarrow> distinct (map (\<lambda>r. (sa_reference r, sa_action r)) all)"

lemma spent_map: "spent (map g all) x \<longleftrightarrow> (\<exists>y\<in>set all. sa_reference (g y) = x \<and> sa_consumedAt (g y) \<noteq> None)"
  by (simp add: spent_def)

lemma spent_mark_consumed:
  assumes "r \<in> set all" and "sa_reference r = ref" and "sa_action r = action"
  shows "spent (mark_consumed ref action at all) x \<longleftrightarrow> x = ref \<or> spent all x"
  using assms unfolding mark_consumed_def spent_map unfolding spent_def by auto metis

lemma ledger_inv_mark_consumed [simp]:
  "ledger_inv (mark_consumed ref action at all) = ledger_inv all"
proof -
  have "map (\<lambda>r. (sa_reference r, sa_action r)) (mark_consumed ref action at all)
      = map (\<lambda>r. (sa_reference r, sa_action r)) all"
    by (simp add: mark_consumed_def)
  then show ?thesis by (simp add: ledger_inv_def)
qed

lemma ledger_inv_issue:
  assumes "ledger_inv all"
    and "\<not> (\<exists>r\<in>set all. sa_reference r = reference a \<and> sa_action r = action)"
  shows "ledger_inv (all @ [issue_record a scope action])"
  using assms by (auto simp: ledger_inv_def issue_record_def)

lemma issued_under_InrD:
  assumes "issued_under ref action all = Inr issued"
  shows "issued \<in> set all \<and> sa_reference issued = ref \<and> sa_action issued = action
     \<and> \<not> spent all ref"
  using assms
  by (auto simp: issued_under_def spent_def Let_def split: option.splits if_splits
      dest: find_Some_mem)

lemma scope_fields_eqI:
  "accountId a = accountId b \<Longrightarrow> workspaceId a = workspaceId b \<Longrightarrow>
     runtimeNodeId a = runtimeNodeId b \<Longrightarrow> a = (b::dev_scope)"
  by (cases a; cases b) simp

text \<open>What one successful spend needs and does, whichever entry point was used.\<close>

definition spend_of ::
  "string \<Rightarrow> string \<Rightarrow> dev_scope \<Rightarrow> int \<Rightarrow> stored_approval list \<Rightarrow> stored_approval list \<Rightarrow> bool" where
  "spend_of ref action scope at all all' \<longleftrightarrow>
     (\<exists>issued\<in>set all. sa_reference issued = ref \<and> sa_action issued = action \<and> sa_scope issued = scope)
     \<and> \<not> spent all ref \<and> all' = mark_consumed ref action at all"

lemma consume_records_InrD:
  assumes "consume_records parse at approval scope action all = Inr (w, u)"
  shows "\<exists>all'. w = Some all' \<and> spend_of (reference approval) action scope at all all'"
proof -
  from assms obtain issued where iss: "issued_under (reference approval) action all = Inr issued"
    and eq: "accountId (sa_scope issued) = accountId scope"
      "workspaceId (sa_scope issued) = workspaceId scope"
      "runtimeNodeId (sa_scope issued) = runtimeNodeId scope"
    and w: "w = Some (mark_consumed (reference approval) action at all)"
    by (auto simp: consume_records_def rbind_eq_Inr_iff split: if_splits)
  from eq have "sa_scope issued = scope" by (rule scope_fields_eqI)
  with issued_under_InrD [OF iss] w show ?thesis by (auto simp: spend_of_def)
qed

lemma consume_by_reference_records_InrD:
  assumes "consume_by_reference_records parse at ref scope action all = Inr (w, u)"
  shows "\<exists>all'. w = Some all' \<and> spend_of ref action scope at all all'"
proof -
  from assms obtain issued where iss: "issued_under ref action all = Inr issued"
    and eq: "accountId (sa_scope issued) = accountId scope"
      "workspaceId (sa_scope issued) = workspaceId scope"
      "runtimeNodeId (sa_scope issued) = runtimeNodeId scope"
    and w: "w = Some (mark_consumed ref action at all)"
    by (auto simp: consume_by_reference_records_def rbind_eq_Inr_iff split: if_splits)
  from eq have "sa_scope issued = scope" by (rule scope_fields_eqI)
  with issued_under_InrD [OF iss] w show ?thesis by (auto simp: spend_of_def)
qed

lemma consume_InrE:
  assumes "consume parse at approval scope action s = (Inr u, s2)"
  obtains all s1 all' where "store_load 1 s = (Inr all, s1)"
    and "spend_of (reference approval) action scope at all all'"
    and "store_load 1 s2 = (Inr all', s2)"
proof -
  from assms have t: "transact (store_load 1) (store_save 1)
      (consume_records parse at approval scope action) s = (Inr u, s2)"
    by (auto simp: consume_def split: sum.splits)
  from t obtain all s1 w where "store_load 1 s = (Inr all, s1)"
    and "consume_records parse at approval scope action all = Inr (w, u)"
    and "store_load 1 s2 = (Inr (case w of None \<Rightarrow> all | Some rs' \<Rightarrow> rs'), s2)"
    by (rule json_store.transact_InrE)
  with that show ?thesis by (auto dest!: consume_records_InrD)
qed

lemma consumeByReference_InrE:
  assumes "consumeByReference parse at refv scope action s = (Inr u, s2)"
  obtains all s1 all' where "store_load 1 s = (Inr all, s1)" and "refv = JStr (string_of_jsval refv)"
    and "spend_of (string_of_jsval refv) action scope at all all'"
    and "store_load 1 s2 = (Inr all', s2)"
proof -
  from assms have r: "refv = JStr (string_of_jsval refv)" and t: "transact (store_load 1) (store_save 1)
      (consume_by_reference_records parse at (string_of_jsval refv) scope action) s = (Inr u, s2)"
    by (auto simp: consumeByReference_def split: if_splits elim: is_stringE)
  from t obtain all s1 w where "store_load 1 s = (Inr all, s1)"
    and "consume_by_reference_records parse at (string_of_jsval refv) scope action all = Inr (w, u)"
    and "store_load 1 s2 = (Inr (case w of None \<Rightarrow> all | Some rs' \<Rightarrow> rs'), s2)"
    by (rule json_store.transact_InrE)
  with that r show ?thesis by (auto dest!: consume_by_reference_records_InrD)
qed

section \<open>Interleaved calls\<close>

datatype approval_call =
    Issue int owner_approval dev_scope string
  | Spend int owner_approval dev_scope string
  | SpendByReference int jsval dev_scope string

fun run_call :: "date_parse \<Rightarrow> approval_call \<Rightarrow> approval_store \<Rightarrow> (dev_error + unit) \<times> approval_store" where
  "run_call parse (Issue at a scope action) s = recordIssuance parse at a scope action s"
| "run_call parse (Spend at a scope action) s = consume parse at a scope action s"
| "run_call parse (SpendByReference at r scope action) s = consumeByReference parse at r scope action s"

fun spends :: "approval_call \<Rightarrow> string list" where
  "spends (Issue _ _ _ _) = []"
| "spends (Spend _ a _ _) = [reference a]"
| "spends (SpendByReference _ r _ _) = [string_of_jsval r]"

text \<open>The second component of a state is the history of successfully spent references.\<close>

inductive approval_step ::
  "date_parse \<Rightarrow> approval_store \<times> string list \<Rightarrow> approval_store \<times> string list \<Rightarrow> bool" for parse where
  accepted: "run_call parse c s = (Inr u, s') \<Longrightarrow> approval_step parse (s, spent_refs) (s', spent_refs @ spends c)"
| refused: "run_call parse c s = (Inl e, s') \<Longrightarrow> approval_step parse (s, spent_refs) (s', spent_refs)"

inductive approval_reachable :: "date_parse \<Rightarrow> approval_store \<times> string list \<Rightarrow> bool" for parse where
  start: "approval_reachable parse (empty_store, [])"
| step: "approval_reachable parse st \<Longrightarrow> approval_step parse st st' \<Longrightarrow> approval_reachable parse st'"

inductive_cases approval_stepE: "approval_step parse st (s', l')"

definition ledger_state_inv :: "approval_store \<times> string list \<Rightarrow> bool" where
  "ledger_state_inv st \<longleftrightarrow>
     (\<exists>all. store_load 1 (fst st) = (Inr all, fst st) \<and> ledger_inv all
        \<and> distinct (snd st) \<and> (\<forall>x. x \<in> set (snd st) \<longleftrightarrow> spent all x))"

lemma refused_keeps_records:
  assumes "store_load 1 s = (Inr all, s)" and "run_call parse c s = (Inl e, s')"
  shows "store_load 1 s' = (Inr all, s')"
proof -
  have *: "\<And>f. transact (store_load 1) (store_save 1) f s = (Inl e, s') \<Longrightarrow> store_load 1 s' = (Inr all, s')"
    using json_store.transact_atomic [OF assms(1)] by fastforce
  show ?thesis
    using assms * by (cases c)
      (auto simp: recordIssuance_def consume_def consumeByReference_def split: sum.splits if_splits)
qed

lemma recordIssuance_InrD:
  assumes "recordIssuance parse at a scope action s = (Inr u, s')"
    and "store_load 1 s = (Inr all, s)"
  shows "store_load 1 s' = (Inr (all @ [issue_record a scope action]), s')
    \<and> \<not> (\<exists>r\<in>set all. sa_reference r = reference a \<and> sa_action r = action)"
proof -
  let ?f = "\<lambda>all. if \<exists>r\<in>set all. sa_reference r = reference a \<and> sa_action r = action
      then Inl (dev_authority_error unauthorized)
      else Inr (Some (all @ [issue_record a scope action]), ())"
  from assms(1) have "transact (store_load 1) (store_save 1) ?f s = (Inr u, s')"
    by (auto simp: recordIssuance_def split: sum.splits)
  then show ?thesis
    by (rule json_store.transact_InrE) (use assms(2) in \<open>auto split: if_splits\<close>)
qed

lemma spend_keeps_inv:
  assumes "spend_of ref action scope at all all'" and "store_load 1 s' = (Inr all', s')"
    and "ledger_inv all" and "distinct l" and "\<forall>x. x \<in> set l \<longleftrightarrow> spent all x"
  shows "ledger_state_inv (s', l @ [ref])"
proof -
  from assms(1) obtain r where r: "r \<in> set all" "sa_reference r = ref" "sa_action r = action"
    and ns: "\<not> spent all ref" and all': "all' = mark_consumed ref action at all"
    by (auto simp: spend_of_def)
  from r have "\<forall>x. spent all' x \<longleftrightarrow> x = ref \<or> spent all x"
    by (simp add: all' spent_mark_consumed)
  with assms ns all' show ?thesis by (auto simp: ledger_state_inv_def)
qed

lemma approval_step_inv:
  assumes "approval_step parse st st'" and "ledger_state_inv st"
  shows "ledger_state_inv st'"
  using assms
proof (induction rule: approval_step.induct)
  case (refused c s e s' l)
  then obtain all where ld: "store_load 1 s = (Inr all, s)"
    and rest: "ledger_inv all" "distinct l" "\<forall>x. x \<in> set l \<longleftrightarrow> spent all x"
    by (auto simp: ledger_state_inv_def)
  from refused_keeps_records [OF ld refused.hyps] rest show ?case
    by (auto simp: ledger_state_inv_def)
next
  case (accepted c s u s' l)
  then obtain all where ld: "store_load 1 s = (Inr all, s)" and inv: "ledger_inv all"
    and l: "distinct l" "\<forall>x. x \<in> set l \<longleftrightarrow> spent all x"
    by (auto simp: ledger_state_inv_def)
  show ?case
  proof (cases c)
    case (Issue at a scope action)
    with accepted.hyps ld recordIssuance_InrD [of parse at a scope action s u s' all]
    have "store_load 1 s' = (Inr (all @ [issue_record a scope action]), s')"
      and "\<not> (\<exists>r\<in>set all. sa_reference r = reference a \<and> sa_action r = action)" by auto
    moreover have "\<And>x. spent (all @ [issue_record a scope action]) x \<longleftrightarrow> spent all x"
      by (auto simp: spent_def issue_record_def)
    ultimately have "ledger_state_inv (s', l)"
      using ledger_inv_issue [OF inv] l by (auto simp: ledger_state_inv_def)
    with Issue show ?thesis by simp
  next
    case (Spend at a scope action)
    with accepted.hyps have c: "consume parse at a scope action s = (Inr u, s')" by simp
    from c have "ledger_state_inv (s', l @ [reference a])"
      by (rule consume_InrE) (use ld inv l in \<open>auto intro: spend_keeps_inv\<close>)
    with Spend show ?thesis by simp
  next
    case (SpendByReference at r scope action)
    with accepted.hyps have c: "consumeByReference parse at r scope action s = (Inr u, s')" by simp
    from c have "ledger_state_inv (s', l @ [string_of_jsval r])"
      by (rule consumeByReference_InrE) (use ld inv l in \<open>auto intro: spend_keeps_inv\<close>)
    with SpendByReference show ?thesis by simp
  qed
qed

lemma approval_reachable_inv: "approval_reachable parse st \<Longrightarrow> ledger_state_inv st"
proof (induction rule: approval_reachable.induct)
  case start
  show ?case by (simp add: ledger_state_inv_def store_load_def empty_store_def ledger_inv_def spent_def)
next
  case (step st st')
  then show ?case by (blast intro: approval_step_inv)
qed

lemma spent_refuses:
  assumes "store_load 1 s = (Inr all, s)" and "spent all (reference a)"
  shows "fst (consume parse at a scope action s) = Inl (dev_authority_error unauthorized)"
proof (cases "consume parse at a scope action s")
  case (Pair r s')
  show ?thesis
  proof (cases r)
    case (Inr u)
    with Pair assms show ?thesis by (auto elim!: consume_InrE simp: spend_of_def)
  next
    case (Inl e)
    with Pair assms have "e = dev_authority_error unauthorized"
      by (auto simp: consume_def assertWellFormed_def requireApproval_def transact_def
          consume_records_def issued_under_def Let_def rbind_def require_def spent_def
          split: sum.splits option.splits if_splits prod.splits)
    with Pair Inl show ?thesis by simp
  qed
qed

text \<open>C2: however issuances and spends are interleaved, an approval reference is spent
  successfully at most once, and once it has been spent every later \<open>consume\<close> under that
  reference, for whatever action, scope or time, is refused as unauthorized.\<close>

theorem approval_single_use:
  assumes "approval_reachable parse (s, spent_refs)"
  shows "distinct spent_refs \<and>
    (\<forall>a at scope action. reference a \<in> set spent_refs \<longrightarrow>
       fst (consume parse at a scope action s) = Inl (dev_authority_error unauthorized))"
proof -
  from approval_reachable_inv [OF assms] obtain all where "store_load 1 s = (Inr all, s)"
    and "distinct spent_refs" and "\<forall>x. x \<in> set spent_refs \<longleftrightarrow> spent all x"
    by (auto simp: ledger_state_inv_def)
  then show ?thesis using spent_refuses by blast
qed

subsection \<open>A concrete run\<close>

definition sample_parse :: date_parse where
  "sample_parse t = (if t = ''t0'' then Some 0 else if t = ''t1'' then Some 60000 else None)"

definition sample_scope :: dev_scope where
  "sample_scope = \<lparr>accountId = ''acct'', workspaceId = ''ws'', runtimeNodeId = ''node''\<rparr>"

definition sample_approval :: owner_approval where
  "sample_approval = \<lparr>approval_method = ''owner_dialog'', reference = ''ref-1'',
     approval_scope = Some sample_scope, issuedAt = Some ''t0'', expiresAt = Some ''t1''\<rparr>"

definition sample_issued :: stored_approval where
  "sample_issued = issue_record sample_approval sample_scope ''act''"

lemmas sample_defs = sample_parse_def sample_scope_def sample_approval_def sample_issued_def
  issue_record_def assertWellFormed_def requireApproval_def window_ok_def require_def
  APPROVAL_MAX_LIFETIME_MS_def transact_def store_load_def store_save_def empty_store_def stored_def

lemma sample_issue:
  "recordIssuance sample_parse 0 sample_approval sample_scope ''act'' empty_store
     = (Inr (), stored 1 [sample_issued])"
  by (simp add: recordIssuance_def sample_defs)

lemma sample_spend:
  "consume sample_parse 5 sample_approval sample_scope ''act'' (stored 1 [sample_issued])
     = (Inr (), stored 1 (mark_consumed ''ref-1'' ''act'' 5 [sample_issued]))"
  by (simp add: consume_def consume_records_def issued_under_def Let_def ms_le_def
      mark_consumed_def sample_defs)

lemma sample_reachable:
  "approval_reachable sample_parse
     (stored 1 (mark_consumed ''ref-1'' ''act'' 5 [sample_issued]), [''ref-1''])"
proof -
  have 1: "approval_step sample_parse (empty_store, []) (stored 1 [sample_issued], [])"
    using approval_step.accepted [of sample_parse "Issue 0 sample_approval sample_scope ''act''"
        empty_store "()" "stored 1 [sample_issued]" "[]"] sample_issue by simp
  have 2: "approval_step sample_parse (stored 1 [sample_issued], [])
      (stored 1 (mark_consumed ''ref-1'' ''act'' 5 [sample_issued]), [''ref-1''])"
    using approval_step.accepted [of sample_parse "Spend 5 sample_approval sample_scope ''act''"
        "stored 1 [sample_issued]" "()" "stored 1 (mark_consumed ''ref-1'' ''act'' 5 [sample_issued])" "[]"]
      sample_spend by (simp add: sample_approval_def)
  from approval_reachable.step [OF approval_reachable.step [OF approval_reachable.start 1] 2]
  show ?thesis .
qed

theorem approval_single_use_witness:
  "approval_reachable sample_parse
     (stored 1 (mark_consumed ''ref-1'' ''act'' 5 [sample_issued]), [''ref-1''])
   \<and> fst (consume sample_parse 6 sample_approval sample_scope ''other''
        (stored 1 (mark_consumed ''ref-1'' ''act'' 5 [sample_issued])))
      = Inl (dev_authority_error unauthorized)"
  using approval_single_use [OF sample_reachable] sample_reachable
  by (simp add: sample_approval_def)

end
