(* ===== verification/Grants.thy ===== *)
theory Grants
  imports Approvals
begin

text \<open>
  The audit trail (\<^verbatim>\<open>apps/desktop/shell/src/dev-runtime/audit.ts\<close>) and the project-grant
  authority (\<^verbatim>\<open>grants.ts\<close>). \<open>roots.validate\<close> and \<open>vault.get\<close> are the arguments
  \<open>validate\<close> and \<open>vaultGet\<close>; the fresh record id and the clock are arguments. An audit sink
  is optional, as in the source. A failure is a typed \<open>DevAuthorityError\<close> or an untyped
  \<open>Error\<close>.
\<close>

section \<open>Audit trail\<close>

datatype failure = Typed dev_error | Untyped

datatype audit_outcome = Granted | Denied | RevokedOutcome | Failed | Recovered

record audit_entry =
  au_action :: string
  au_subjectId :: string
  au_outcome :: audit_outcome
  au_detail :: "(string \<times> string) list option"

fun contains :: "string \<Rightarrow> string \<Rightarrow> bool" where
  "contains w [] = (w = [])"
| "contains w (c # s) = (take (length w) (c # s) = w \<or> contains w s)"

text \<open>\<open>\\b\<close> after the word: the next character, if any, is not a word character.\<close>

definition is_word_char :: "char \<Rightarrow> bool" where
  "is_word_char c \<longleftrightarrow> is_digit c \<or> c = CHR ''_''
     \<or> ((97::nat) \<le> of_char (lower_char c) \<and> of_char (lower_char c) \<le> (122::nat))"

fun contains_at_boundary :: "string \<Rightarrow> string \<Rightarrow> bool" where
  "contains_at_boundary w [] = (w = [])"
| "contains_at_boundary w (c # s) =
     (take (length w) (c # s) = w
        \<and> (case drop (length w) (c # s) of [] \<Rightarrow> True | d # _ \<Rightarrow> \<not> is_word_char d)
      \<or> contains_at_boundary w s)"

definition forbidden_detail_key :: "string \<Rightarrow> bool" where
  "forbidden_detail_key key =
     (let k = map lower_char key in
      list_ex (\<lambda>w. contains w k)
        [''secret'', ''password'', ''token'', ''plaintext'', ''cookie'', ''authorization'',
         ''credential'', ''path'']
      \<or> contains_at_boundary ''root'' k
      \<or> drop (length k - 3) k = ''key'')"

definition assertDetailIsScrubbed :: "(string \<times> string) list \<Rightarrow> bool" where
  "assertDetailIsScrubbed detail =
     list_all (\<lambda>(key, value). \<not> (length key < 1 \<or> length key > 64 \<or> forbidden_detail_key key)
        \<and> \<not> (length value < 1 \<or> length value > 256)) detail"

definition audit_append :: "audit_entry \<Rightarrow> audit_entry list option \<Rightarrow> failure + audit_entry list option" where
  "audit_append entry sink =
     (case sink of
        None \<Rightarrow> Inr None
      | Some entries \<Rightarrow>
          if length (au_action entry) < 1 \<or> length (au_action entry) > 128 then Inl Untyped
          else if length (au_subjectId entry) < 1 \<or> length (au_subjectId entry) > 256 then Inl Untyped
          else if \<not> (case au_detail entry of None \<Rightarrow> True | Some d \<Rightarrow> assertDetailIsScrubbed d) then Inl Untyped
          else Inr (Some (entries @ [entry])))"

definition auditOutcomeForError :: "failure \<Rightarrow> audit_outcome" where
  "auditOutcomeForError err =
     (case err of
        Typed e \<Rightarrow> (if code e = unauthorized \<or> code e = unauthorized_root then Denied else Failed)
      | Untyped \<Rightarrow> Failed)"

section \<open>Project grants\<close>

datatype grant_state = GrantActive | GrantRevoked

datatype credential_state = CredReady | CredExpired | CredRevoked | CredUnknown

record project_grant =
  pg_id :: string
  pg_scope :: dev_scope
  pg_projectId :: string
  pg_rootBookmarkId :: string
  pg_credentialRefId :: "string option"
  pg_state :: grant_state
  pg_generation :: int
  pg_version :: int
  pg_createdAt :: int
  pg_revokedAt :: "int option"
  pg_revokedReason :: "string option"

record grant_env =
  grant_store :: "project_grant store_state"
  approval_ledger :: approval_store
  audit_sink :: "audit_entry list option"

record grant_request =
  rq_scope :: dev_scope
  rq_projectId :: string
  rq_rootBookmarkId :: string
  rq_credentialRefId :: "string option"
  rq_approval :: "owner_approval option"

definition GRANT_ACTION :: string where "GRANT_ACTION = ''grant a project its root''"

fun credential_state_name :: "credential_state \<Rightarrow> string" where
  "credential_state_name CredReady = ''ready''"
| "credential_state_name CredExpired = ''expired''"
| "credential_state_name CredRevoked = ''revoked''"
| "credential_state_name CredUnknown = ''unknown''"

definition grant_log ::
  "string \<Rightarrow> string \<Rightarrow> audit_outcome \<Rightarrow> (string \<times> string) list option \<Rightarrow> grant_env \<Rightarrow> (failure + unit) \<times> grant_env" where
  "grant_log action subjectId outcome detail env =
     (case audit_append \<lparr>au_action = action, au_subjectId = subjectId, au_outcome = outcome,
                         au_detail = detail\<rparr> (audit_sink env) of
        Inl e \<Rightarrow> (Inl e, env)
      | Inr sink \<Rightarrow> (Inr (), env\<lparr>audit_sink := sink\<rparr>))"

definition live_match :: "grant_request \<Rightarrow> project_grant \<Rightarrow> bool" where
  "live_match input entry \<longleftrightarrow> sameScope (pg_scope entry) (rq_scope input)
     \<and> pg_projectId entry = rq_projectId input
     \<and> pg_rootBookmarkId entry = rq_rootBookmarkId input
     \<and> pg_state entry = GrantActive"

definition new_grant :: "string \<Rightarrow> int \<Rightarrow> grant_request \<Rightarrow> project_grant" where
  "new_grant newId at input =
     \<lparr>pg_id = newId, pg_scope = rq_scope input, pg_projectId = rq_projectId input,
      pg_rootBookmarkId = rq_rootBookmarkId input, pg_credentialRefId = rq_credentialRefId input,
      pg_state = GrantActive, pg_generation = 1, pg_version = 1, pg_createdAt = at,
      pg_revokedAt = None, pg_revokedReason = None\<rparr>"

text \<open>The credential check: absent means ready; a revoked reference is logged and refused,
  any other state but ready is refused. The log itself may throw.\<close>

definition check_credential ::
  "(dev_scope \<Rightarrow> string \<Rightarrow> dev_error + credential_state) \<Rightarrow> grant_request \<Rightarrow> grant_env
     \<Rightarrow> (failure + credential_state) \<times> grant_env" where
  "check_credential vaultGet input env =
     (case rq_credentialRefId input of
        None \<Rightarrow> (Inr CredReady, env)
      | Some ref \<Rightarrow>
          (case vaultGet (rq_scope input) ref of
             Inl e \<Rightarrow> (Inl (Typed e), env)
           | Inr CredReady \<Rightarrow> (Inr CredReady, env)
           | Inr CredRevoked \<Rightarrow>
               (case grant_log ''grant.denied'' (rq_projectId input) Denied
                       (Some [(''reason'', ''credential revoked'')]) env of
                  (Inl e, env1) \<Rightarrow> (Inl e, env1)
                | (Inr _, env1) \<Rightarrow> (Inl (Typed (dev_authority_error unauthorized)), env1))
           | Inr _ \<Rightarrow> (Inl (Typed (dev_authority_error auth_required)), env)))"

definition commit_grant ::
  "date_parse \<Rightarrow> int \<Rightarrow> string \<Rightarrow> grant_request \<Rightarrow> owner_approval \<Rightarrow> credential_state \<Rightarrow> grant_env
     \<Rightarrow> (failure + project_grant) \<times> grant_env" where
  "commit_grant parse at newId input approval cred env =
     (case store_load 1 (grant_store env) of
        (Inl e, st) \<Rightarrow> (Inl (Typed e), env\<lparr>grant_store := st\<rparr>)
      | (Inr all, st) \<Rightarrow>
          (case consume parse at approval (rq_scope input) GRANT_ACTION (approval_ledger env) of
             (Inl e, led) \<Rightarrow> (Inl (Typed e), env\<lparr>grant_store := st, approval_ledger := led\<rparr>)
           | (Inr _, led) \<Rightarrow>
               (case find (live_match input) all of
                  Some existing \<Rightarrow> (Inr existing, env\<lparr>grant_store := st, approval_ledger := led\<rparr>)
                | None \<Rightarrow>
                    (let rec = new_grant newId at input in
                     case store_save 1 (all @ [rec]) st of
                       Inl e \<Rightarrow> (Inl (Typed e), env\<lparr>grant_store := st, approval_ledger := led\<rparr>)
                     | Inr st2 \<Rightarrow>
                         (case grant_log ''grant.created'' newId Granted
                                 (Some [(''approvalMethod'', approval_method approval),
                                        (''credentialState'', credential_state_name cred)])
                                 (env\<lparr>grant_store := st2, approval_ledger := led\<rparr>) of
                            (Inl e, env2) \<Rightarrow> (Inl e, env2)
                          | (Inr _, env2) \<Rightarrow> (Inr rec, env2))))))"

definition grant_create ::
  "date_parse \<Rightarrow> int \<Rightarrow> string \<Rightarrow> (dev_scope \<Rightarrow> string \<Rightarrow> dev_error + unit)
     \<Rightarrow> (dev_scope \<Rightarrow> string \<Rightarrow> dev_error + credential_state) \<Rightarrow> grant_request \<Rightarrow> grant_env
     \<Rightarrow> (failure + project_grant) \<times> grant_env" where
  "grant_create parse at newId validate vaultGet input env =
     (case requireApproval (rq_approval input) of
        Inl e \<Rightarrow> (Inl (Typed e), env)
      | Inr approval \<Rightarrow>
          if \<not> is_uuid (rq_projectId input) then (Inl (Typed (dev_authority_error not_found)), env)
          else (case validate (rq_scope input) (rq_rootBookmarkId input) of
                  Inl e \<Rightarrow> (Inl (Typed e), env)
                | Inr _ \<Rightarrow>
                    (case check_credential vaultGet input env of
                       (Inl e, env1) \<Rightarrow> (Inl e, env1)
                     | (Inr cred, env1) \<Rightarrow> commit_grant parse at newId input approval cred env1)))"

definition revoked_grant :: "int \<Rightarrow> string option \<Rightarrow> project_grant \<Rightarrow> project_grant" where
  "revoked_grant at reason r =
     r\<lparr>pg_state := GrantRevoked, pg_generation := pg_generation r + 1, pg_version := pg_version r + 1,
       pg_revokedAt := Some at,
       pg_revokedReason := (case reason of Some (c # cs) \<Rightarrow> Some (take 256 (c # cs)) | _ \<Rightarrow> pg_revokedReason r)\<rparr>"

definition revoke_records ::
  "int \<Rightarrow> dev_scope \<Rightarrow> string \<Rightarrow> int \<Rightarrow> string option \<Rightarrow> project_grant list
     \<Rightarrow> dev_error + (project_grant list option \<times> project_grant)" where
  "revoke_records at scope grantId expectedVersion reason all =
     (case find (\<lambda>entry. pg_id entry = grantId) all of
        None \<Rightarrow> Inl (dev_authority_error not_found)
      | Some r \<Rightarrow>
          if \<not> is_uuid grantId \<or> \<not> sameScope (pg_scope r) scope then Inl (dev_authority_error not_found)
          else if pg_state r = GrantRevoked then Inr (None, r)
          else if pg_version r \<noteq> expectedVersion then Inl (dev_authority_error_at stale_version (pg_version r))
          else Inr (Some (map (\<lambda>entry. if pg_id entry = pg_id r then revoked_grant at reason r else entry) all),
                    revoked_grant at reason r))"

definition grant_revoke ::
  "int \<Rightarrow> dev_scope \<Rightarrow> string \<Rightarrow> int \<Rightarrow> string option \<Rightarrow> grant_env \<Rightarrow> (failure + project_grant) \<times> grant_env" where
  "grant_revoke at scope grantId expectedVersion reason env =
     (case store_load 1 (grant_store env) of
        (Inl e, st) \<Rightarrow> (Inl (Typed e), env\<lparr>grant_store := st\<rparr>)
      | (Inr all, st) \<Rightarrow>
          (case revoke_records at scope grantId expectedVersion reason all of
             Inl e \<Rightarrow> (Inl (Typed e), env\<lparr>grant_store := st\<rparr>)
           | Inr (None, r) \<Rightarrow> (Inr r, env\<lparr>grant_store := st\<rparr>)
           | Inr (Some all', r) \<Rightarrow>
               (case store_save 1 all' st of
                  Inl e \<Rightarrow> (Inl (Typed e), env\<lparr>grant_store := st\<rparr>)
                | Inr st2 \<Rightarrow>
                    (case grant_log ''grant.revoked'' (pg_id r) RevokedOutcome None
                            (env\<lparr>grant_store := st2\<rparr>) of
                       (Inl e, env2) \<Rightarrow> (Inl e, env2)
                     | (Inr _, env2) \<Rightarrow> (Inr r, env2)))))"

section \<open>Listing\<close>

definition MAX_PAGE_LIMIT :: int where "MAX_PAGE_LIMIT = 500"
definition DEFAULT_PAGE_LIMIT :: int where "DEFAULT_PAGE_LIMIT = 100"

record 'r page =
  items :: "'r list"
  nextCursor :: "string option"

text \<open>\<open>enc\<close> writes a number as the base64url of its decimal digits, \<open>dec\<close> reads one back.\<close>

definition grant_list ::
  "(int \<Rightarrow> string) \<Rightarrow> (string \<Rightarrow> jsval) \<Rightarrow> dev_scope \<Rightarrow> string option \<Rightarrow> string option \<Rightarrow> jsval
     \<Rightarrow> grant_env \<Rightarrow> (failure + project_grant page) \<times> grant_env" where
  "grant_list enc dec scope projectId cursor limit env =
     (if limit \<noteq> JUndef \<and> (\<not> is_safe_integer limit \<or> int_of_jsval limit < 1 \<or> int_of_jsval limit > MAX_PAGE_LIMIT)
      then (Inl (Typed (dev_authority_error limit_exceeded)), env)
      else let pageSize = (if limit = JUndef then DEFAULT_PAGE_LIMIT else int_of_jsval limit) in
      if (case cursor of None \<Rightarrow> False
          | Some c \<Rightarrow> \<not> is_safe_integer (dec c) \<or> int_of_jsval (dec c) < 0)
      then (Inl (Typed (dev_authority_error not_found)), env)
      else let start = (case cursor of None \<Rightarrow> 0 | Some c \<Rightarrow> int_of_jsval (dec c)) in
      (case store_load 1 (grant_store env) of
         (Inl e, st) \<Rightarrow> (Inl (Typed e), env\<lparr>grant_store := st\<rparr>)
       | (Inr all, st) \<Rightarrow>
           (let filtered = filter (\<lambda>entry. sameScope (pg_scope entry) scope
                   \<and> (case projectId of None \<Rightarrow> True | Some p \<Rightarrow> pg_projectId entry = p)) all in
            (Inr \<lparr>items = take (nat pageSize) (drop (nat start) filtered),
                  nextCursor = (if start + pageSize < int (length filtered) \<and> enc (start + pageSize) \<noteq> []
                                then Some (enc (start + pageSize)) else None)\<rparr>,
             env\<lparr>grant_store := st\<rparr>))))"

section \<open>Creation\<close>

lemma check_credential_InrD:
  assumes "check_credential vaultGet input env = (Inr cred, env1)"
  shows "env1 = env \<and> cred = CredReady"
  using assms
  by (auto simp: check_credential_def split: option.splits sum.splits credential_state.splits prod.splits)

lemma check_credential_keeps_stores:
  assumes "check_credential vaultGet input env = (r, env1)"
  shows "grant_store env1 = grant_store env \<and> approval_ledger env1 = approval_ledger env"
  using assms
  by (auto simp: check_credential_def grant_log_def
      split: option.splits sum.splits credential_state.splits prod.splits)

lemma check_credential_sink:
  assumes "check_credential vaultGet input (env\<lparr>audit_sink := a\<rparr>) = (Inr cred, env1)"
  shows "check_credential vaultGet input (env\<lparr>audit_sink := b\<rparr>) = (Inr cred, env\<lparr>audit_sink := b\<rparr>)"
  using assms
  by (auto simp: check_credential_def split: option.splits sum.splits credential_state.splits prod.splits)

lemma grant_create_InrE:
  assumes "grant_create parse at newId validate vaultGet input env = (Inr g, env')"
  obtains approval where "requireApproval (rq_approval input) = Inr approval"
    and "is_uuid (rq_projectId input)"
    and "validate (rq_scope input) (rq_rootBookmarkId input) = Inr ()"
    and "check_credential vaultGet input env = (Inr CredReady, env)"
    and "commit_grant parse at newId input approval CredReady env = (Inr g, env')"
  using assms that
  by (auto simp: grant_create_def split: sum.splits if_splits prod.splits
      dest!: check_credential_InrD)

lemma commit_grant_InrE:
  assumes "commit_grant parse at newId input approval cred env = (Inr g, env')"
  obtains all st led where "store_load 1 (grant_store env) = (Inr all, st)"
    and "consume parse at approval (rq_scope input) GRANT_ACTION (approval_ledger env) = (Inr (), led)"
    and "approval_ledger env' = led"
    and "(find (live_match input) all = Some g \<and> grant_store env' = st)
       \<or> (find (live_match input) all = None \<and> g = new_grant newId at input
           \<and> store_save 1 (all @ [g]) st = Inr (grant_store env'))"
  using assms that
  by (auto simp: commit_grant_def grant_log_def Let_def
      split: sum.splits prod.splits option.splits)

text \<open>C34: a grant is only ever returned when the owner's approval for exactly this action and
  scope was on the ledger, unspent, and that call spent it; this holds for the idempotent
  answer (an existing live grant) as well as for a new record.\<close>

theorem grant_create_spends_approval:
  assumes "grant_create parse at newId validate vaultGet input env = (Inr g, env')"
  shows "\<exists>approval all all' st. rq_approval input = Some approval
     \<and> store_load 1 (approval_ledger env) = (Inr all, st)
     \<and> spend_of (reference approval) GRANT_ACTION (rq_scope input) at all all'
     \<and> store_load 1 (approval_ledger env') = (Inr all', approval_ledger env')
     \<and> pg_scope g = rq_scope input \<and> pg_projectId g = rq_projectId input
     \<and> pg_rootBookmarkId g = rq_rootBookmarkId input \<and> pg_state g = GrantActive"
proof -
  from assms obtain approval where ra: "requireApproval (rq_approval input) = Inr approval"
    and cg: "commit_grant parse at newId input approval CredReady env = (Inr g, env')"
    by (rule grant_create_InrE)
  from ra have rq: "rq_approval input = Some approval"
    by (auto simp: requireApproval_def split: option.splits if_splits)
  from cg obtain all st led where
    con: "consume parse at approval (rq_scope input) GRANT_ACTION (approval_ledger env) = (Inr (), led)"
    and led: "approval_ledger env' = led"
    and g: "(find (live_match input) all = Some g \<and> grant_store env' = st)
       \<or> (find (live_match input) all = None \<and> g = new_grant newId at input
           \<and> store_save 1 (all @ [g]) st = Inr (grant_store env'))"
    by (rule commit_grant_InrE)
  from g have "pg_scope g = rq_scope input \<and> pg_projectId g = rq_projectId input
     \<and> pg_rootBookmarkId g = rq_rootBookmarkId input \<and> pg_state g = GrantActive"
    by (auto simp: new_grant_def live_match_def dest: find_Some_mem)
  with consume_InrE [OF con] rq led show ?thesis by metis
qed

text \<open>The records never hold two live grants for one scope, project and root.\<close>

definition grant_key :: "project_grant \<Rightarrow> dev_scope \<times> string \<times> string" where
  "grant_key g = (pg_scope g, pg_projectId g, pg_rootBookmarkId g)"

definition grants_inv :: "project_grant list \<Rightarrow> bool" where
  "grants_inv all \<longleftrightarrow> distinct (map grant_key (filter (\<lambda>g. pg_state g = GrantActive) all))"

lemma grants_inv_add:
  assumes "grants_inv all" and "find (live_match input) all = None"
  shows "grants_inv (all @ [new_grant newId at input])"
  using assms
  by (auto simp: grants_inv_def find_None_iff' live_match_def grant_key_def new_grant_def)

lemma distinct_map_filter_sub:
  assumes "distinct (map f (filter P xs))" and "\<And>x. Q x \<Longrightarrow> P x"
  shows "distinct (map f (filter Q xs))"
  using assms by (induction xs) (auto split: if_splits)

lemma grants_inv_revoke:
  assumes "grants_inv all"
  shows "grants_inv (map (\<lambda>g. if pg_id g = i then revoked_grant at reason r else g) all)"
proof -
  have "filter (\<lambda>g. pg_state g = GrantActive)
          (map (\<lambda>g. if pg_id g = i then revoked_grant at reason r else g) all)
        = filter (\<lambda>g. pg_state g = GrantActive \<and> pg_id g \<noteq> i) all"
    by (induction all) (auto simp: revoked_grant_def)
  with assms show ?thesis
    unfolding grants_inv_def by (auto intro: distinct_map_filter_sub)
qed

lemma revoke_records_inv:
  assumes "grants_inv all" and "revoke_records at scope i v reason all = Inr (Some all', r)"
  shows "grants_inv all'"
  using assms grants_inv_revoke [OF assms(1)]
  by (auto simp: revoke_records_def split: option.splits if_splits)

definition env_grants_ok :: "grant_env \<Rightarrow> bool" where
  "env_grants_ok env \<longleftrightarrow>
     (\<exists>all. store_load 1 (grant_store env) = (Inr all, grant_store env) \<and> grants_inv all)"

lemma save_load_grants:
  assumes "store_load 1 st = (Inr all, st)" and "store_save 1 all' st = Inr st2"
  shows "store_load 1 st2 = (Inr all', st2)"
  using assms json_store.save_load [OF assms(1), of all'] by auto

lemma commit_grant_ok:
  assumes "env_grants_ok env" and "commit_grant parse at newId input approval cred env = (r, env')"
  shows "env_grants_ok env'"
proof -
  from assms(1) obtain all where ld: "store_load 1 (grant_store env) = (Inr all, grant_store env)"
    and inv: "grants_inv all" by (auto simp: env_grants_ok_def)
  have "grant_store env' = grant_store env
      \<or> (find (live_match input) all = None
          \<and> store_save 1 (all @ [new_grant newId at input]) (grant_store env) = Inr (grant_store env'))"
    using assms(2) ld
    by (auto simp: commit_grant_def grant_log_def Let_def split: sum.splits prod.splits option.splits)
  then show ?thesis
    using ld inv save_load_grants [OF ld] grants_inv_add [OF inv]
    by (auto simp: env_grants_ok_def)
qed

text \<open>C39: creation and revocation keep the store readable and never leave two live grants for
  the same scope, project and root, on success and on every failure path.\<close>

theorem grants_stay_unique:
  assumes "env_grants_ok env"
  shows "env_grants_ok (snd (grant_create parse at newId validate vaultGet input env))
     \<and> env_grants_ok (snd (grant_revoke at scope i v reason env))"
proof
  obtain r env' where c: "grant_create parse at newId validate vaultGet input env = (r, env')"
    by (cases "grant_create parse at newId validate vaultGet input env")
  have "grant_store env' = grant_store env \<or>
      (\<exists>env1 approval cred. grant_store env1 = grant_store env
          \<and> commit_grant parse at newId input approval cred env1 = (r, env'))"
    using c check_credential_keeps_stores
    by (auto simp: grant_create_def split: sum.splits if_splits prod.splits)
  then have "env_grants_ok env'"
  proof (elim disjE exE conjE)
    assume "grant_store env' = grant_store env"
    with assms show ?thesis by (simp add: env_grants_ok_def)
  next
    fix env1 approval cred
    assume "grant_store env1 = grant_store env"
      and com: "commit_grant parse at newId input approval cred env1 = (r, env')"
    with assms have "env_grants_ok env1" by (simp add: env_grants_ok_def)
    from this com show ?thesis by (rule commit_grant_ok)
  qed
  with c show "env_grants_ok (snd (grant_create parse at newId validate vaultGet input env))" by simp
next
  from assms obtain all where ld: "store_load 1 (grant_store env) = (Inr all, grant_store env)"
    and inv: "grants_inv all" by (auto simp: env_grants_ok_def)
  let ?env' = "snd (grant_revoke at scope i v reason env)"
  have "grant_store ?env' = grant_store env
      \<or> (\<exists>all' r. revoke_records at scope i v reason all = Inr (Some all', r)
          \<and> store_save 1 all' (grant_store env) = Inr (grant_store ?env'))"
    using ld by (auto simp: grant_revoke_def grant_log_def split: sum.splits prod.splits option.splits)
  then show "env_grants_ok ?env'"
    using ld inv save_load_grants [OF ld] revoke_records_inv [OF inv]
    by (auto simp: env_grants_ok_def)
qed

text \<open>The detail key \<open>credentialState\<close> that \<open>create\<close> writes is one the audit trail
  forbids. With an audit sink, a call that would create a new grant therefore throws an
  untyped error after the grant has been saved and the approval spent: the stores are
  exactly those of the successful call without a sink.\<close>

theorem grant_create_audited_fails_after_commit:
  assumes "grant_create parse at newId validate vaultGet input (env\<lparr>audit_sink := None\<rparr>) = (Inr g, env')"
    and "store_load 1 (grant_store env) = (Inr all, st)"
    and "find (live_match input) all = None"
  shows "\<exists>env2. grant_create parse at newId validate vaultGet input (env\<lparr>audit_sink := Some es\<rparr>)
       = (Inl Untyped, env2)
     \<and> grant_store env2 = grant_store env' \<and> approval_ledger env2 = approval_ledger env'"
proof -
  have forbidden: "\<not> assertDetailIsScrubbed [(''approvalMethod'', m), (''credentialState'', c)]" for m c
    by (simp add: assertDetailIsScrubbed_def forbidden_detail_key_def Let_def lower_char_def)
  from assms(1) obtain approval where
    1: "requireApproval (rq_approval input) = Inr approval" "is_uuid (rq_projectId input)"
      "validate (rq_scope input) (rq_rootBookmarkId input) = Inr ()"
    and cc: "check_credential vaultGet input (env\<lparr>audit_sink := None\<rparr>) = (Inr CredReady, env\<lparr>audit_sink := None\<rparr>)"
    and cg: "commit_grant parse at newId input approval CredReady (env\<lparr>audit_sink := None\<rparr>) = (Inr g, env')"
    by (rule grant_create_InrE)
  note cc2 = check_credential_sink [OF cc, of "Some es"]
  from cg assms(2,3) obtain led where
    con: "consume parse at approval (rq_scope input) GRANT_ACTION (approval_ledger env) = (Inr (), led)"
    and sv: "store_save 1 (all @ [new_grant newId at input]) st = Inr (grant_store env')"
    and led: "approval_ledger env' = led"
    by (auto elim!: commit_grant_InrE)
  have "grant_create parse at newId validate vaultGet input (env\<lparr>audit_sink := Some es\<rparr>)
      = (Inl Untyped, env\<lparr>audit_sink := Some es, grant_store := grant_store env', approval_ledger := led\<rparr>)"
    using 1 cc2 con sv assms(2,3) forbidden
    by (simp add: grant_create_def commit_grant_def grant_log_def audit_append_def Let_def)
  with led show ?thesis by simp
qed

section \<open>Listing visits every grant\<close>

text \<open>A client that follows \<open>nextCursor\<close> until it is absent. \<open>None\<close> means a page was refused or
  the fuel ran out.\<close>

fun collect_pages ::
  "nat \<Rightarrow> (int \<Rightarrow> string) \<Rightarrow> (string \<Rightarrow> jsval) \<Rightarrow> dev_scope \<Rightarrow> string option \<Rightarrow> string option \<Rightarrow> jsval
     \<Rightarrow> grant_env \<Rightarrow> project_grant list option" where
  "collect_pages 0 enc dec scope pid cursor limit env = None"
| "collect_pages (Suc n) enc dec scope pid cursor limit env =
     (case grant_list enc dec scope pid cursor limit env of
        (Inl _, _) \<Rightarrow> None
      | (Inr p, env') \<Rightarrow>
          (case nextCursor p of
             None \<Rightarrow> Some (items p)
           | Some c \<Rightarrow> map_option (\<lambda>rest. items p @ rest)
               (collect_pages n enc dec scope pid (Some c) limit env')))"

definition grants_of :: "dev_scope \<Rightarrow> string option \<Rightarrow> project_grant list \<Rightarrow> project_grant list" where
  "grants_of scope pid all = filter (\<lambda>g. pg_scope g = scope \<and> (\<forall>p. pid = Some p \<longrightarrow> pg_projectId g = p)) all"

lemma grant_list_page:
  assumes "store_load 1 (grant_store env) = (Inr all, grant_store env)"
    and "1 \<le> k" and "k \<le> MAX_PAGE_LIMIT" and "0 \<le> start"
    and "case cursor of None \<Rightarrow> start = 0 | Some c \<Rightarrow> dec c = JNum (NInt start) \<and> is_safe_int start"
    and "\<forall>n. enc n \<noteq> []"
  shows "grant_list enc dec scope pid cursor (JNum (NInt k)) env =
    (Inr \<lparr>items = take (nat k) (drop (nat start) (grants_of scope pid all)),
          nextCursor = (if start + k < int (length (grants_of scope pid all))
                        then Some (enc (start + k)) else None)\<rparr>, env)"
proof -
  have "is_safe_int k" using assms(2,3) by (simp add: is_safe_int_def MAX_SAFE_INTEGER_def MAX_PAGE_LIMIT_def)
  moreover have "filter (\<lambda>entry. sameScope (pg_scope entry) scope
      \<and> (case pid of None \<Rightarrow> True | Some p \<Rightarrow> pg_projectId entry = p)) all = grants_of scope pid all"
    unfolding grants_of_def by (rule filter_cong) (auto split: option.splits)
  ultimately show ?thesis
    using assms by (cases cursor) (auto simp: grant_list_def Let_def)
qed

lemma collect_pages_from:
  assumes ld: "store_load 1 (grant_store env) = (Inr all, grant_store env)"
    and k: "1 \<le> k" "k \<le> MAX_PAGE_LIMIT"
    and enc: "\<forall>n. enc n \<noteq> []" "\<forall>n. 0 \<le> n \<and> is_safe_int n \<longrightarrow> dec (enc n) = JNum (NInt n)"
    and len: "is_safe_int (int (length all))"
  shows "0 \<le> start \<Longrightarrow>
     (case cursor of None \<Rightarrow> start = 0 | Some c \<Rightarrow> dec c = JNum (NInt start) \<and> is_safe_int start) \<Longrightarrow>
     length (grants_of scope pid all) < n + nat start \<Longrightarrow> start \<le> int (length (grants_of scope pid all)) \<Longrightarrow>
     collect_pages n enc dec scope pid cursor (JNum (NInt k)) env
       = Some (drop (nat start) (grants_of scope pid all))"
proof (induction n arbitrary: start cursor)
  case 0
  then show ?case by simp
next
  case (Suc n)
  let ?gs = "grants_of scope pid all"
  note page = grant_list_page [OF ld k Suc.prems(1,2) enc(1), of scope pid]
  show ?case
  proof (cases "start + k < int (length ?gs)")
    case False
    then have "length ?gs \<le> nat start + nat k" using Suc.prems(1) k by linarith
    then show ?thesis using page False by simp
  next
    case True
    have "length ?gs \<le> length all" by (simp add: grants_of_def)
    with True len Suc.prems(1) k have safe: "is_safe_int (start + k)" by (simp add: is_safe_int_def)
    with enc Suc.prems(1) k have "dec (enc (start + k)) = JNum (NInt (start + k))" by simp
    with Suc.IH [of "start + k" "Some (enc (start + k))"] safe True Suc.prems k
    have IH: "collect_pages n enc dec scope pid (Some (enc (start + k))) (JNum (NInt k)) env
        = Some (drop (nat (start + k)) ?gs)" by simp
    have "take (nat k) (drop (nat start) ?gs) @ drop (nat (start + k)) ?gs = drop (nat start) ?gs"
      using Suc.prems(1) k append_take_drop_id [of "nat k" "drop (nat start) ?gs"]
      by (simp add: nat_add_distrib add.commute)
    with IH page True show ?thesis by simp
  qed
qed

text \<open>For every page size the listing accepts, following the cursors terminates within
  one page more than there are grants and yields exactly the caller's grants, in order, none
  twice and none lost. The cursor codec is assumed to read back what it wrote.\<close>

theorem grant_listing_complete:
  assumes "store_load 1 (grant_store env) = (Inr all, grant_store env)"
    and "1 \<le> k" and "k \<le> MAX_PAGE_LIMIT"
    and "\<forall>n. enc n \<noteq> []" and "\<forall>n. 0 \<le> n \<and> is_safe_int n \<longrightarrow> dec (enc n) = JNum (NInt n)"
    and "is_safe_int (int (length all))"
  shows "collect_pages (Suc (length all)) enc dec scope pid None (JNum (NInt k)) env
     = Some (grants_of scope pid all)"
proof -
  have "length (grants_of scope pid all) < Suc (length all)"
    by (simp add: grants_of_def less_Suc_eq_le)
  then show ?thesis
    using collect_pages_from [OF assms, of 0 None scope pid "Suc (length all)"] by simp
qed

subsection \<open>Concrete runs\<close>

definition sample_request :: grant_request where
  "sample_request = \<lparr>rq_scope = sample_scope, rq_projectId = ''00000000-0000-4000-8000-000000000000'',
     rq_rootBookmarkId = ''root'', rq_credentialRefId = None, rq_approval = Some sample_approval\<rparr>"

definition sample_env :: "audit_entry list option \<Rightarrow> grant_env" where
  "sample_env sink = \<lparr>grant_store = empty_store,
     approval_ledger = stored 1 [issue_record sample_approval sample_scope GRANT_ACTION],
     audit_sink = sink\<rparr>"

definition sample_grant :: project_grant where
  "sample_grant = new_grant ''g1'' 5 sample_request"

definition sample_env_after :: grant_env where
  "sample_env_after = \<lparr>grant_store = stored 1 [sample_grant],
     approval_ledger = stored 1 (mark_consumed ''ref-1'' GRANT_ACTION 5
        [issue_record sample_approval sample_scope GRANT_ACTION]), audit_sink = None\<rparr>"

lemma sample_project_uuid: "is_uuid ''00000000-0000-4000-8000-000000000000''"
  by code_simp

lemma sample_grant_run:
  "grant_create sample_parse 5 ''g1'' (\<lambda>_ _. Inr ()) (\<lambda>_ _. Inr CredReady) sample_request (sample_env None)
     = (Inr sample_grant, sample_env_after)"
  using sample_project_uuid
  by (simp add: grant_create_def sample_request_def sample_env_def check_credential_def
      commit_grant_def consume_def consume_records_def issued_under_def Let_def ms_le_def
      mark_consumed_def grant_log_def audit_append_def sample_env_after_def sample_grant_def
      sample_defs)

theorem grant_create_spends_approval_witness:
  "grant_create sample_parse 5 ''g1'' (\<lambda>_ _. Inr ()) (\<lambda>_ _. Inr CredReady) sample_request (sample_env None)
     = (Inr sample_grant, sample_env_after)
   \<and> pg_state sample_grant = GrantActive"
  using grant_create_spends_approval [OF sample_grant_run] sample_grant_run by blast

theorem grants_stay_unique_witness:
  "env_grants_ok sample_env_after
   \<and> env_grants_ok (snd (grant_create sample_parse 5 ''g2'' (\<lambda>_ _. Inr ()) (\<lambda>_ _. Inr CredReady)
        sample_request sample_env_after))"
proof -
  have "env_grants_ok sample_env_after"
    by (simp add: env_grants_ok_def sample_env_after_def grants_inv_def sample_grant_def)
  then show ?thesis using grants_stay_unique by blast
qed

theorem grant_create_audited_fails_after_commit_witness:
  "\<exists>env2. grant_create sample_parse 5 ''g1'' (\<lambda>_ _. Inr ()) (\<lambda>_ _. Inr CredReady) sample_request
       ((sample_env None)\<lparr>audit_sink := Some []\<rparr>) = (Inl Untyped, env2)
     \<and> grant_store env2 = stored 1 [sample_grant]"
proof -
  have 1: "grant_create sample_parse 5 ''g1'' (\<lambda>_ _. Inr ()) (\<lambda>_ _. Inr CredReady) sample_request
      ((sample_env None)\<lparr>audit_sink := None\<rparr>) = (Inr sample_grant, sample_env_after)"
    using sample_grant_run by (simp add: sample_env_def)
  have 2: "store_load 1 (grant_store (sample_env None)) = (Inr [], empty_store)"
    by (simp add: sample_env_def store_load_def empty_store_def)
  from grant_create_audited_fails_after_commit [OF 1 2, of "[]"] show ?thesis
    by (auto simp: sample_env_after_def)
qed

theorem grant_listing_complete_witness:
  "collect_pages 3 (\<lambda>n. CHR ''c'' # replicate (nat n) CHR ''x'') (\<lambda>c. JNum (NInt (int (length c) - 1)))
     sample_scope None None (JNum (NInt 1))
     (sample_env_after\<lparr>grant_store := stored 1 [sample_grant, sample_grant]\<rparr>)
   = Some [sample_grant, sample_grant]"
  using grant_listing_complete [of "sample_env_after\<lparr>grant_store := stored 1 [sample_grant, sample_grant]\<rparr>"
      "[sample_grant, sample_grant]" 1 "\<lambda>n. CHR ''c'' # replicate (nat n) CHR ''x''"
      "\<lambda>c. JNum (NInt (int (length c) - 1))" sample_scope None]
  by (simp add: is_safe_int_def MAX_SAFE_INTEGER_def MAX_PAGE_LIMIT_def grants_of_def sample_grant_def
      new_grant_def sample_request_def numeral_3_eq_3)

end
