(* ===== verification/Leases.thy ===== *)
theory Leases
  imports Host_Store
begin

text \<open>
  Worktree error codes (\<^verbatim>\<open>worktrees/errors.ts\<close>) and the worktree lease authority
  (\<^verbatim>\<open>worktrees/leases.ts\<close>, \<open>createLeaseStore\<close>). Times are milliseconds: the clock reading \<open>at\<close> and
  the fresh record id are arguments, \<open>suspectAfter\<close> is the option \<open>suspectAfterMs\<close>. Every operation
  is a \<open>transact\<close> over the durable store; the step relation at the end interleaves them.
\<close>

section \<open>Worktree errors\<close>

datatype wt_code =
    W_not_found | W_unauthorized | W_identity_mismatch | W_stale_generation | W_stale_version
  | W_invalid_state | W_corrupt_state | W_already_completed | W_idempotency_conflict
  | W_unauthorized_root | W_path_escape | W_symlink_rejected | W_special_file_rejected
  | W_file_changed | W_not_git_repo | W_gitdir_unproven | W_remote_unavailable
  | W_remote_changed | W_auth_required | W_base_not_found | W_name_collision
  | W_path_collision | W_bootstrap_denied | W_bootstrap_failed | W_dirty | W_unpushed
  | W_behind | W_conflicted | W_protected_branch | W_external_ownership | W_dangerous_path
  | W_nested_worktree | W_lock_timeout | W_limit_exceeded | W_timeout | W_cancelled
  | W_leased | W_ownership_unproven | W_plan_stale | W_cleanup_blocked | W_cleanup_partial
  | W_recovery_required | W_rollback_failed

definition wt_retryable :: "wt_code \<Rightarrow> bool" where
  "wt_retryable c \<longleftrightarrow> c \<in> {W_remote_unavailable, W_lock_timeout, W_timeout, W_cancelled}"

text \<open>What a lease operation may throw: an error of the store, or a \<open>WorktreeError\<close>.\<close>

datatype wt_failure = StoreFailure dev_error | WorktreeFailure wt_code

section \<open>Lease records\<close>

definition LEASE_HEARTBEAT_MS :: int where "LEASE_HEARTBEAT_MS = 15000"
definition LEASE_SUSPECT_AFTER_MS :: int where "LEASE_SUSPECT_AFTER_MS = 45000"
definition LEASE_MIN_TTL_S :: int where "LEASE_MIN_TTL_S = 15"
definition LEASE_MAX_TTL_S :: int where "LEASE_MAX_TTL_S = 86400"

datatype lease_owner_kind = OTerminal | OHarness | OBrowser | ODevice | OServer | OEditor

datatype lease_phase = LActive | LSuspect | LExpired | LReleased

record lease_record =
  l_id :: string
  l_scope :: dev_scope
  l_worktreeId :: string
  l_ownerKind :: lease_owner_kind
  l_ownerId :: string
  l_generation :: int
  l_state :: lease_phase
  l_acquiredAt :: int
  l_heartbeatAt :: int
  l_expiresAt :: "int option"
  l_releasedAt :: "int option"

record lease_view =
  v_lease :: lease_record
  v_effectiveState :: lease_phase
  v_heartbeatAgeMs :: int

type_synonym lease_store = "lease_record store_state"

definition lease_load :: "lease_store \<Rightarrow> (wt_failure + lease_record list) \<times> lease_store" where
  "lease_load = lift_load StoreFailure (store_load 1)"

definition lease_save :: "lease_record list \<Rightarrow> lease_store \<Rightarrow> wt_failure + lease_store" where
  "lease_save = lift_save StoreFailure (store_save 1)"

interpretation lease_json: record_store lease_load lease_save
  unfolding lease_load_def lease_save_def by (rule json_store.record_store_lift)

section \<open>Operations\<close>

definition findOwned ::
  "lease_record list \<Rightarrow> dev_scope \<Rightarrow> string \<Rightarrow> string \<Rightarrow> wt_failure + lease_record" where
  "findOwned records scope wt leaseId =
     (case find (\<lambda>entry. l_id entry = leaseId) records of
        None \<Rightarrow> Inl (WorktreeFailure W_not_found)
      | Some r \<Rightarrow>
          if l_worktreeId r \<noteq> wt \<or> \<not> sameScope (l_scope r) scope
          then Inl (WorktreeFailure W_not_found) else Inr r)"

definition lease_view_of :: "int \<Rightarrow> int \<Rightarrow> lease_record \<Rightarrow> lease_view" where
  "lease_view_of suspectAfter at r =
     (if l_state r = LReleased
      then \<lparr>v_lease = r, v_effectiveState = LReleased, v_heartbeatAgeMs = 0\<rparr>
      else if (case l_expiresAt r of None \<Rightarrow> False | Some t \<Rightarrow> t \<le> at)
      then \<lparr>v_lease = r, v_effectiveState = LExpired, v_heartbeatAgeMs = at - l_heartbeatAt r\<rparr>
      else if at - l_heartbeatAt r > suspectAfter
      then \<lparr>v_lease = r, v_effectiveState = LSuspect, v_heartbeatAgeMs = at - l_heartbeatAt r\<rparr>
      else \<lparr>v_lease = r, v_effectiveState = l_state r, v_heartbeatAgeMs = at - l_heartbeatAt r\<rparr>)"

abbreviation effective :: "int \<Rightarrow> int \<Rightarrow> lease_record \<Rightarrow> lease_phase" where
  "effective suspectAfter at r \<equiv> v_effectiveState (lease_view_of suspectAfter at r)"

definition views_of :: "int \<Rightarrow> int \<Rightarrow> string \<Rightarrow> lease_record list \<Rightarrow> lease_view list" where
  "views_of suspectAfter at wt records =
     map (lease_view_of suspectAfter at)
       (filter (\<lambda>entry. l_worktreeId entry = wt \<and> l_state entry \<noteq> LReleased) records)"

definition activeViews ::
  "int \<Rightarrow> int \<Rightarrow> string \<Rightarrow> lease_store \<Rightarrow> (wt_failure + lease_view list) \<times> lease_store" where
  "activeViews suspectAfter at wt =
     transact lease_load lease_save (\<lambda>records. Inr (None, views_of suspectAfter at wt records))"

definition new_lease ::
  "int \<Rightarrow> string \<Rightarrow> dev_scope \<Rightarrow> string \<Rightarrow> int \<Rightarrow> lease_owner_kind \<Rightarrow> string \<Rightarrow> int \<Rightarrow> lease_record" where
  "new_lease at newId scope wt gen kind owner ttlSeconds =
     \<lparr>l_id = newId, l_scope = scope, l_worktreeId = wt, l_ownerKind = kind, l_ownerId = owner,
      l_generation = gen, l_state = LActive, l_acquiredAt = at, l_heartbeatAt = at,
      l_expiresAt = Some (at + ttlSeconds * 1000), l_releasedAt = None\<rparr>"

definition acquire_records ::
  "int \<Rightarrow> string \<Rightarrow> dev_scope \<Rightarrow> string \<Rightarrow> int \<Rightarrow> lease_owner_kind \<Rightarrow> string \<Rightarrow> int
     \<Rightarrow> lease_record list \<Rightarrow> wt_failure + (lease_record list option \<times> lease_record)" where
  "acquire_records at newId scope wt gen kind owner ttlSeconds records =
     (let r = new_lease at newId scope wt gen kind owner ttlSeconds in Inr (Some (records @ [r]), r))"

definition acquire ::
  "int \<Rightarrow> string \<Rightarrow> dev_scope \<Rightarrow> string \<Rightarrow> int \<Rightarrow> lease_owner_kind \<Rightarrow> string \<Rightarrow> jsval
     \<Rightarrow> lease_store \<Rightarrow> (wt_failure + lease_record) \<times> lease_store" where
  "acquire at newId scope wt gen kind owner ttl s =
     (if length owner < 1 \<or> length owner > 256 then (Inl (WorktreeFailure W_invalid_state), s)
      else let ttlSeconds = (if ttl = JUndef \<or> ttl = JNull then JNum (NInt 900) else ttl) in
      if \<not> is_safe_integer ttlSeconds \<or> int_of_jsval ttlSeconds < LEASE_MIN_TTL_S
         \<or> int_of_jsval ttlSeconds > LEASE_MAX_TTL_S
      then (Inl (WorktreeFailure W_limit_exceeded), s)
      else transact lease_load lease_save
        (acquire_records at newId scope wt gen kind owner (int_of_jsval ttlSeconds)) s)"

definition heartbeat_records ::
  "int \<Rightarrow> int \<Rightarrow> dev_scope \<Rightarrow> string \<Rightarrow> string \<Rightarrow> lease_record list
     \<Rightarrow> wt_failure + (lease_record list option \<times> lease_view)" where
  "heartbeat_records suspectAfter at scope wt leaseId records =
     rbind (findOwned records scope wt leaseId) (\<lambda>r.
       if l_state r = LReleased then Inl (WorktreeFailure W_invalid_state)
       else let nxt = r\<lparr>l_heartbeatAt := at\<rparr> in
         Inr (Some (replace_first (\<lambda>entry. l_id entry = leaseId) (\<lambda>_. nxt) records),
              lease_view_of suspectAfter at nxt))"

definition heartbeat ::
  "int \<Rightarrow> int \<Rightarrow> dev_scope \<Rightarrow> string \<Rightarrow> string \<Rightarrow> lease_store \<Rightarrow> (wt_failure + lease_view) \<times> lease_store" where
  "heartbeat suspectAfter at scope wt leaseId =
     transact lease_load lease_save (heartbeat_records suspectAfter at scope wt leaseId)"

definition release_records ::
  "int \<Rightarrow> dev_scope \<Rightarrow> string \<Rightarrow> string \<Rightarrow> lease_record list
     \<Rightarrow> wt_failure + (lease_record list option \<times> lease_record)" where
  "release_records at scope wt leaseId records =
     rbind (findOwned records scope wt leaseId) (\<lambda>r.
       let nxt = r\<lparr>l_state := LReleased, l_releasedAt := Some at\<rparr> in
         Inr (Some (replace_first (\<lambda>entry. l_id entry = leaseId) (\<lambda>_. nxt) records), nxt))"

definition release ::
  "int \<Rightarrow> dev_scope \<Rightarrow> string \<Rightarrow> string \<Rightarrow> lease_store \<Rightarrow> (wt_failure + lease_record) \<times> lease_store" where
  "release at scope wt leaseId =
     transact lease_load lease_save (release_records at scope wt leaseId)"

definition reconcile_records ::
  "int \<Rightarrow> int \<Rightarrow> dev_scope \<Rightarrow> string \<Rightarrow> string \<Rightarrow> lease_record list
     \<Rightarrow> wt_failure + (lease_record list option \<times> lease_record)" where
  "reconcile_records suspectAfter at scope wt leaseId records =
     rbind (findOwned records scope wt leaseId) (\<lambda>r.
       let observed = lease_view_of suspectAfter at r in
       if v_effectiveState observed \<noteq> LExpired \<and> v_effectiveState observed \<noteq> LSuspect
       then Inl (WorktreeFailure W_leased)
       else let nxt = r\<lparr>l_state := LExpired\<rparr> in
         Inr (Some (replace_first (\<lambda>entry. l_id entry = leaseId) (\<lambda>_. nxt) records), nxt))"

definition reconcileExpired ::
  "int \<Rightarrow> int \<Rightarrow> dev_scope \<Rightarrow> string \<Rightarrow> string \<Rightarrow> lease_store \<Rightarrow> (wt_failure + lease_record) \<times> lease_store" where
  "reconcileExpired suspectAfter at scope wt leaseId =
     transact lease_load lease_save (reconcile_records suspectAfter at scope wt leaseId)"

definition live_in :: "int \<Rightarrow> int \<Rightarrow> string \<Rightarrow> lease_record list \<Rightarrow> bool" where
  "live_in suspectAfter at wt records =
     list_ex (\<lambda>entry. v_effectiveState entry = LActive \<or> v_effectiveState entry = LSuspect)
       (views_of suspectAfter at wt records)"

definition hasLiveLeases ::
  "int \<Rightarrow> int \<Rightarrow> string \<Rightarrow> lease_store \<Rightarrow> (wt_failure + bool) \<times> lease_store" where
  "hasLiveLeases suspectAfter at wt s =
     (case activeViews suspectAfter at wt s of
        (Inl e, s1) \<Rightarrow> (Inl e, s1)
      | (Inr vs, s1) \<Rightarrow>
          (Inr (list_ex (\<lambda>entry. v_effectiveState entry = LActive \<or> v_effectiveState entry = LSuspect) vs), s1))"

section \<open>Facts about single operations\<close>

lemma findOwned_InrD:
  assumes "findOwned records scope wt i = Inr r"
  shows "find (\<lambda>e. l_id e = i) records = Some r \<and> l_id r = i \<and> l_worktreeId r = wt \<and> l_scope r = scope"
  using assms by (auto simp: findOwned_def split: option.splits if_splits dest: find_Some_mem)

text \<open>Every lease operation appends an active lease, or replaces the first record with the given
  id by one that keeps the id and, when it was released, stays released.\<close>

inductive lease_change :: "lease_record list \<Rightarrow> lease_record list \<Rightarrow> bool" where
  append_lease: "l_state r = LActive \<Longrightarrow> lease_change records (records @ [r])"
| replace_lease: "find (\<lambda>e. l_id e = i) records = Some r \<Longrightarrow> l_id nxt = i \<Longrightarrow> l_state nxt \<noteq> LSuspect \<or> l_state r = LSuspect
    \<Longrightarrow> (l_state r = LReleased \<longrightarrow> l_state nxt = LReleased)
    \<Longrightarrow> lease_change records (replace_first (\<lambda>e. l_id e = i) (\<lambda>_. nxt) records)"

lemma acquire_change:
  "acquire_records at newId scope wt gen kind owner ttl records = Inr (Some records', r)
     \<Longrightarrow> lease_change records records'"
  by (auto simp: acquire_records_def Let_def new_lease_def intro!: append_lease)

lemma heartbeat_change:
  "heartbeat_records sa at scope wt i records = Inr (Some records', v) \<Longrightarrow> lease_change records records'"
  by (auto simp: heartbeat_records_def rbind_eq_Inr_iff Let_def split: if_splits
      dest!: findOwned_InrD intro!: replace_lease)

lemma release_change:
  "release_records at scope wt i records = Inr (Some records', v) \<Longrightarrow> lease_change records records'"
  by (auto simp: release_records_def rbind_eq_Inr_iff Let_def
      dest!: findOwned_InrD intro!: replace_lease)

lemma reconcile_change:
  "reconcile_records sa at scope wt i records = Inr (Some records', v) \<Longrightarrow> lease_change records records'"
  by (auto simp: reconcile_records_def rbind_eq_Inr_iff Let_def lease_view_of_def split: if_splits
      dest!: findOwned_InrD intro!: replace_lease)

lemma find_append_Some: "find p xs = Some x \<Longrightarrow> find p (xs @ ys) = Some x"
  by (induction xs) (auto split: if_splits)

lemma lease_change_released:
  assumes "lease_change records records'"
    and "find (\<lambda>e. l_id e = i) records = Some r" and "l_state r = LReleased"
  shows "\<exists>r'. find (\<lambda>e. l_id e = i) records' = Some r' \<and> l_state r' = LReleased"
  using assms
proof (induction rule: lease_change.induct)
  case (append_lease x records)
  then show ?case by (auto intro: find_append_Some)
next
  case (replace_lease j records x nxt)
  show ?case
  proof (cases "i = j")
    case True
    with replace_lease find_replace_first [of "\<lambda>e. l_id e = j" records x "\<lambda>_. nxt"]
    show ?thesis by auto
  next
    case False
    with replace_lease find_replace_first_other [of "\<lambda>e. l_id e = j" "\<lambda>e. l_id e = i" "\<lambda>_. nxt" records]
    show ?thesis by auto
  qed
qed

lemma lease_change_no_suspect:
  assumes "lease_change records records'" and "\<forall>r\<in>set records. l_state r \<noteq> LSuspect"
  shows "\<forall>r\<in>set records'. l_state r \<noteq> LSuspect"
  using assms
  by (induction rule: lease_change.induct)
     (auto dest!: mem_replace_firstD dest: find_Some_mem)

section \<open>Interleaved calls\<close>

datatype lease_call =
    Acquire int string dev_scope string int lease_owner_kind string jsval
  | Heartbeat int dev_scope string string
  | Release int dev_scope string string
  | Reconcile int dev_scope string string

fun lease_run :: "int \<Rightarrow> lease_call \<Rightarrow> lease_store \<Rightarrow> lease_store" where
  "lease_run sa (Acquire at newId scope wt gen kind owner ttl) s = snd (acquire at newId scope wt gen kind owner ttl s)"
| "lease_run sa (Heartbeat at scope wt i) s = snd (heartbeat sa at scope wt i s)"
| "lease_run sa (Release at scope wt i) s = snd (release at scope wt i s)"
| "lease_run sa (Reconcile at scope wt i) s = snd (reconcileExpired sa at scope wt i s)"

lemma transact_change:
  assumes "lease_load s = (Inr records, s)"
    and "\<And>records' a. f records = Inr (Some records', a) \<Longrightarrow> lease_change records records'"
  shows "\<exists>records'. lease_load (snd (transact lease_load lease_save f s))
      = (Inr records', snd (transact lease_load lease_save f s))
     \<and> (records' = records \<or> lease_change records records')"
proof -
  obtain r s2 where t: "transact lease_load lease_save f s = (r, s2)" by (cases "transact lease_load lease_save f s")
  from lease_json.transact_atomic [OF assms(1) t] assms(2) t show ?thesis by auto
qed

lemma lease_run_change:
  assumes "lease_load s = (Inr records, s)"
  shows "\<exists>records'. lease_load (lease_run sa c s) = (Inr records', lease_run sa c s)
     \<and> (records' = records \<or> lease_change records records')"
proof (cases c)
  case (Acquire at newId scope wt gen kind owner ttl)
  have "\<exists>records'. lease_load (snd (transact lease_load lease_save (acquire_records at newId scope wt gen kind owner t) s))
      = (Inr records', snd (transact lease_load lease_save (acquire_records at newId scope wt gen kind owner t) s))
     \<and> (records' = records \<or> lease_change records records')" for t
    using transact_change [OF assms, of "acquire_records at newId scope wt gen kind owner t"] acquire_change
    by auto
  with Acquire assms show ?thesis by (simp add: acquire_def Let_def)
next
  case (Heartbeat at scope wt i)
  then show ?thesis
    using transact_change [OF assms, of "heartbeat_records sa at scope wt i"] heartbeat_change
    by (auto simp: heartbeat_def)
next
  case (Release at scope wt i)
  then show ?thesis
    using transact_change [OF assms, of "release_records at scope wt i"] release_change
    by (auto simp: release_def)
next
  case (Reconcile at scope wt i)
  then show ?thesis
    using transact_change [OF assms, of "reconcile_records sa at scope wt i"] reconcile_change
    by (auto simp: reconcileExpired_def)
qed

lemma runs_keep_released:
  assumes "lease_load s = (Inr records, s)"
    and "find (\<lambda>e. l_id e = i) records = Some r" and "l_state r = LReleased"
  shows "\<exists>records' r'. lease_load (fold (lease_run sa) cs s) = (Inr records', fold (lease_run sa) cs s)
     \<and> find (\<lambda>e. l_id e = i) records' = Some r' \<and> l_state r' = LReleased"
  using assms
proof (induction cs arbitrary: s records r)
  case Nil
  then show ?case by auto
next
  case (Cons c cs)
  from lease_run_change [OF Cons.prems(1), of sa c] obtain records1 where
    1: "lease_load (lease_run sa c s) = (Inr records1, lease_run sa c s)"
    and ch: "records1 = records \<or> lease_change records records1" by auto
  from ch Cons.prems(2,3) lease_change_released obtain r1 where
    "find (\<lambda>e. l_id e = i) records1 = Some r1" "l_state r1 = LReleased" by metis
  from Cons.IH [OF 1 this] show ?case by simp
qed

lemma released_heartbeat_refused:
  assumes "lease_load s = (Inr records, s)"
    and "find (\<lambda>e. l_id e = i) records = Some r" and "l_state r = LReleased"
  shows "isl (fst (heartbeat sa at scope wt i s)) \<and> isl (fst (reconcileExpired sa at scope wt i s))"
  using assms
  by (auto simp: heartbeat_def heartbeat_records_def reconcileExpired_def reconcile_records_def
      transact_def findOwned_def lease_view_of_def)

text \<open>Release is final. After a successful release, whatever calls follow, the lease stays
  released on disk, and neither a heartbeat nor a reconciliation can bring it back.\<close>

theorem lease_release_is_final:
  assumes "release at scope wt i s = (Inr l, s1)"
  shows "\<exists>records r. lease_load (fold (lease_run sa) cs s1) = (Inr records, fold (lease_run sa) cs s1)
     \<and> find (\<lambda>e. l_id e = i) records = Some r \<and> l_state r = LReleased
     \<and> (\<forall>at' scope' wt'. isl (fst (heartbeat sa at' scope' wt' i (fold (lease_run sa) cs s1)))
          \<and> isl (fst (reconcileExpired sa at' scope' wt' i (fold (lease_run sa) cs s1))))"
proof -
  from assms obtain rs s0 w where ld: "lease_load s = (Inr rs, s0)"
    and f: "release_records at scope wt i rs = Inr (w, l)"
    and after: "lease_load s1 = (Inr (case w of None \<Rightarrow> rs | Some rs' \<Rightarrow> rs'), s1)"
    unfolding release_def by (rule lease_json.transact_InrE)
  from f obtain r where fo: "findOwned rs scope wt i = Inr r"
    and w: "w = Some (replace_first (\<lambda>e. l_id e = i) (\<lambda>_. r\<lparr>l_state := LReleased, l_releasedAt := Some at\<rparr>) rs)"
    by (auto simp: release_records_def rbind_eq_Inr_iff Let_def)
  have "find (\<lambda>e. l_id e = i) (case w of None \<Rightarrow> rs | Some rs' \<Rightarrow> rs')
      = Some (r\<lparr>l_state := LReleased, l_releasedAt := Some at\<rparr>)"
    using findOwned_InrD [OF fo] w
      find_replace_first [of "\<lambda>e. l_id e = i" rs r "\<lambda>_. r\<lparr>l_state := LReleased, l_releasedAt := Some at\<rparr>"]
    by simp
  from runs_keep_released [OF after this, of sa cs] obtain records r' where
    fin: "lease_load (fold (lease_run sa) cs s1) = (Inr records, fold (lease_run sa) cs s1)"
      "find (\<lambda>e. l_id e = i) records = Some r'" "l_state r' = LReleased" by auto
  from released_heartbeat_refused [OF fin] fin show ?thesis by blast
qed

section \<open>The cleanup gate\<close>

definition expired_at :: "int \<Rightarrow> lease_record \<Rightarrow> bool" where
  "expired_at at r \<longleftrightarrow> (\<exists>t. l_expiresAt r = Some t \<and> t \<le> at)"

lemma effective_cases:
  "effective sa at r =
     (if l_state r = LReleased then LReleased
      else if expired_at at r then LExpired
      else if at - l_heartbeatAt r > sa then LSuspect else l_state r)"
  by (auto simp: lease_view_of_def expired_at_def split: option.splits)

definition blocks :: "int \<Rightarrow> int \<Rightarrow> string \<Rightarrow> lease_record \<Rightarrow> bool" where
  "blocks sa at wt r \<longleftrightarrow> l_worktreeId r = wt \<and> l_state r \<noteq> LReleased \<and> \<not> expired_at at r
     \<and> (at - l_heartbeatAt r > sa \<or> l_state r \<noteq> LExpired)"

lemma live_in_iff: "live_in sa at wt records \<longleftrightarrow> (\<exists>r\<in>set records. blocks sa at wt r)"
proof -
  have *: "(v_effectiveState (lease_view_of sa at r) = LActive \<or> v_effectiveState (lease_view_of sa at r) = LSuspect)
      \<and> l_state r \<noteq> LReleased \<longleftrightarrow> l_state r \<noteq> LReleased \<and> \<not> expired_at at r
         \<and> (at - l_heartbeatAt r > sa \<or> l_state r \<noteq> LExpired)" for r
    by (cases "l_state r") (auto simp: effective_cases)
  show ?thesis
    by (auto simp: live_in_def views_of_def list_ex_iff blocks_def) (metis *)+
qed

lemma hasLiveLeases_load:
  assumes "lease_load s = (Inr records, s)"
  shows "hasLiveLeases sa at wt s = (Inr (live_in sa at wt records), s)"
  using assms by (simp add: hasLiveLeases_def activeViews_def transact_def live_in_def)

text \<open>The destructive-cleanup gate answers true exactly when some lease of the worktree is
  not released, has not reached its expiry time, and either has a stale heartbeat or is not
  stored as expired. The comment on \<open>hasLiveLeases\<close> states the opposite polarity.\<close>

theorem hasLiveLeases_meaning:
  assumes "lease_load s = (Inr records, s)"
  shows "hasLiveLeases sa at wt s =
     (Inr (\<exists>r\<in>set records. l_worktreeId r = wt \<and> l_state r \<noteq> LReleased
        \<and> (\<forall>t. l_expiresAt r = Some t \<longrightarrow> at < t)
        \<and> (l_heartbeatAt r + sa < at \<or> l_state r \<noteq> LExpired)), s)"
proof -
  have "blocks sa at wt r \<longleftrightarrow> l_worktreeId r = wt \<and> l_state r \<noteq> LReleased
      \<and> (\<forall>t. l_expiresAt r = Some t \<longrightarrow> at < t) \<and> (l_heartbeatAt r + sa < at \<or> l_state r \<noteq> LExpired)" for r
    by (auto simp: blocks_def expired_at_def)
  then show ?thesis using hasLiveLeases_load [OF assms] by (simp add: live_in_iff)
qed

lemma bex_replace_first:
  assumes "find p xs = Some x" and "P (f x) = P x"
  shows "(\<exists>y\<in>set (replace_first p f xs). P y) \<longleftrightarrow> (\<exists>y\<in>set xs. P y)"
  using assms by (induction xs) (auto split: if_splits)

lemma reconcile_keeps_blocks:
  assumes "effective sa at r = LExpired \<or> effective sa at r = LSuspect" and "l_state r \<noteq> LSuspect"
  shows "blocks sa at wt (r\<lparr>l_state := LExpired\<rparr>) = blocks sa at wt r"
  using assms by (auto simp: effective_cases blocks_def expired_at_def split: if_splits)

lemma fold_lease_run_readable:
  assumes "lease_load s = (Inr records, s)" and "\<forall>r\<in>set records. l_state r \<noteq> LSuspect"
  shows "\<exists>records'. lease_load (fold (lease_run sa) cs s) = (Inr records', fold (lease_run sa) cs s)
     \<and> (\<forall>r\<in>set records'. l_state r \<noteq> LSuspect)"
  using assms
proof (induction cs arbitrary: s records)
  case Nil
  then show ?case by auto
next
  case (Cons c cs)
  from lease_run_change [OF Cons.prems(1), of sa c] obtain records1 where
    1: "lease_load (lease_run sa c s) = (Inr records1, lease_run sa c s)"
    and ch: "records1 = records \<or> lease_change records records1" by auto
  from ch Cons.prems(2) lease_change_no_suspect have "\<forall>r\<in>set records1. l_state r \<noteq> LSuspect" by metis
  from Cons.IH [OF 1 this] show ?case by simp
qed

lemma lease_load_empty: "lease_load empty_store = (Inr [], empty_store)"
  by (simp add: lease_load_def store_load_def empty_store_def)

text \<open>Reconciliation retires nothing. In every store the operations can produce, a
  successful \<open>reconcileExpired\<close> leaves the cleanup gate of every worktree as it was at that
  moment: a lease past its expiry was already ignored, and a lease whose heartbeat is stale
  keeps being reported as suspect.\<close>

theorem reconcile_leaves_gate:
  assumes "s = fold (lease_run sa) cs empty_store"
    and "reconcileExpired sa at scope wt i s = (Inr l, s1)"
  shows "fst (hasLiveLeases sa at wt' s1) = fst (hasLiveLeases sa at wt' s)"
proof -
  from fold_lease_run_readable [OF lease_load_empty, of sa cs] assms(1) obtain records where
    ld: "lease_load s = (Inr records, s)" and ns: "\<forall>r\<in>set records. l_state r \<noteq> LSuspect" by auto
  from assms(2) obtain rs s0 w where ld0: "lease_load s = (Inr rs, s0)"
    and f: "reconcile_records sa at scope wt i rs = Inr (w, l)"
    and after: "lease_load s1 = (Inr (case w of None \<Rightarrow> rs | Some rs' \<Rightarrow> rs'), s1)"
    unfolding reconcileExpired_def by (rule lease_json.transact_InrE)
  from ld ld0 have rs: "rs = records" by simp
  from f obtain r where fo: "findOwned rs scope wt i = Inr r"
    and ef: "effective sa at r = LExpired \<or> effective sa at r = LSuspect"
    and w: "w = Some (replace_first (\<lambda>e. l_id e = i) (\<lambda>_. r\<lparr>l_state := LExpired\<rparr>) rs)"
    by (auto simp: reconcile_records_def rbind_eq_Inr_iff Let_def split: if_splits)
  from findOwned_InrD [OF fo] have fnd: "find (\<lambda>e. l_id e = i) rs = Some r" by simp
  with ns rs have "l_state r \<noteq> LSuspect" by (auto dest: find_Some_mem)
  from reconcile_keeps_blocks [OF ef this, of wt']
    bex_replace_first [OF fnd, of "blocks sa at wt'" "\<lambda>_. r\<lparr>l_state := LExpired\<rparr>"]
  have "live_in sa at wt' (case w of None \<Rightarrow> rs | Some rs' \<Rightarrow> rs') = live_in sa at wt' records"
    by (simp add: live_in_iff w rs)
  with hasLiveLeases_load [OF ld] hasLiveLeases_load [OF after] show ?thesis by simp
qed

text \<open>A heartbeat never extends a lease. Once the time-to-live of the acquired lease has
  passed, a successful heartbeat still returns an expired view, and the gate no longer counts
  the lease although its owner is alive.\<close>

theorem heartbeat_does_not_extend:
  assumes "lease_load s = (Inr records, s)" and "\<forall>r\<in>set records. l_worktreeId r = wt \<longrightarrow> expired_at at r"
    and "heartbeat sa at scope wt i s = (Inr v, s1)"
  shows "v_effectiveState v = LExpired \<and> v_heartbeatAgeMs v = 0
     \<and> fst (hasLiveLeases sa at wt s1) = Inr False"
proof -
  from assms(3) obtain rs s0 w where ld0: "lease_load s = (Inr rs, s0)"
    and f: "heartbeat_records sa at scope wt i rs = Inr (w, v)"
    and after: "lease_load s1 = (Inr (case w of None \<Rightarrow> rs | Some rs' \<Rightarrow> rs'), s1)"
    unfolding heartbeat_def by (rule lease_json.transact_InrE)
  from assms(1) ld0 have rs: "rs = records" by simp
  from f obtain r where fo: "findOwned rs scope wt i = Inr r" and nr: "l_state r \<noteq> LReleased"
    and v: "v = lease_view_of sa at (r\<lparr>l_heartbeatAt := at\<rparr>)"
    and w: "w = Some (replace_first (\<lambda>e. l_id e = i) (\<lambda>_. r\<lparr>l_heartbeatAt := at\<rparr>) rs)"
    by (auto simp: heartbeat_records_def rbind_eq_Inr_iff Let_def split: if_splits)
  from findOwned_InrD [OF fo] have fnd: "find (\<lambda>e. l_id e = i) rs = Some r" and wt: "l_worktreeId r = wt" by auto
  with assms(2) rs have ex: "expired_at at r" by (auto dest: find_Some_mem)
  then have "blocks sa at wt (r\<lparr>l_heartbeatAt := at\<rparr>) = blocks sa at wt r"
    by (simp add: blocks_def expired_at_def)
  from bex_replace_first [OF fnd, of "blocks sa at wt" "\<lambda>_. r\<lparr>l_heartbeatAt := at\<rparr>", OF this]
  have "\<not> live_in sa at wt (case w of None \<Rightarrow> rs | Some rs' \<Rightarrow> rs')"
    using assms(2) by (simp add: live_in_iff w rs) (auto simp: blocks_def)
  with hasLiveLeases_load [OF after] have "fst (hasLiveLeases sa at wt s1) = Inr False" by simp
  moreover from ex nr v have "v_effectiveState v = LExpired \<and> v_heartbeatAgeMs v = 0"
    by (auto simp: lease_view_of_def expired_at_def split: option.splits)
  ultimately show ?thesis by simp
qed

subsection \<open>Concrete runs\<close>

definition lease_scope :: dev_scope where
  "lease_scope = \<lparr>accountId = ''acct'', workspaceId = ''ws'', runtimeNodeId = ''node''\<rparr>"

definition lease1 :: lease_record where
  "lease1 = new_lease 0 ''l1'' lease_scope ''w1'' 1 OTerminal ''term'' 15"

lemmas lease_eval = lease1_def lease_scope_def new_lease_def lease_load_def lease_save_def
  lift_load_def lift_save_def transact_def findOwned_def acquire_def acquire_records_def
  heartbeat_def heartbeat_records_def release_def release_records_def reconcileExpired_def
  reconcile_records_def lease_view_of_def store_load_def store_save_def stored_def empty_store_def
  LEASE_MIN_TTL_S_def LEASE_MAX_TTL_S_def is_safe_int_def MAX_SAFE_INTEGER_def Let_def

lemma lease1_stored: "lease_load (stored 1 [lease1]) = (Inr [lease1], stored 1 [lease1])"
  by (simp add: lease_load_def)

lemma lease1_release:
  "release 5 lease_scope ''w1'' ''l1'' (stored 1 [lease1])
     = (Inr (lease1\<lparr>l_state := LReleased, l_releasedAt := Some 5\<rparr>),
        stored 1 [lease1\<lparr>l_state := LReleased, l_releasedAt := Some 5\<rparr>])"
  by (simp add: lease_eval)

theorem lease_release_is_final_witness:
  "isl (fst (heartbeat 45000 7 lease_scope ''w1'' ''l1''
      (fold (lease_run 45000) [Heartbeat 6 lease_scope ''w1'' ''l1'', Reconcile 6 lease_scope ''w1'' ''l1'']
        (stored 1 [lease1\<lparr>l_state := LReleased, l_releasedAt := Some 5\<rparr>]))))"
  using lease_release_is_final [OF lease1_release, of 45000
      "[Heartbeat 6 lease_scope ''w1'' ''l1'', Reconcile 6 lease_scope ''w1'' ''l1'']"] by blast

theorem hasLiveLeases_meaning_witness:
  "hasLiveLeases 45000 15000 ''w1'' (stored 1 [lease1]) = (Inr False, stored 1 [lease1])
   \<and> hasLiveLeases 45000 14999 ''w1'' (stored 1 [lease1]) = (Inr True, stored 1 [lease1])"
  unfolding hasLiveLeases_meaning [OF lease1_stored] by (simp add: lease1_def new_lease_def)

lemma lease_suspect_run:
  "fold (lease_run 10) [Acquire 0 ''l1'' lease_scope ''w1'' 1 OTerminal ''term'' (JNum (NInt 15))] empty_store
     = stored 1 [lease1]"
  by (simp add: lease_eval)

lemma lease_suspect_reconcile:
  "reconcileExpired 10 100 lease_scope ''w1'' ''l1'' (stored 1 [lease1])
     = (Inr (lease1\<lparr>l_state := LExpired\<rparr>), stored 1 [lease1\<lparr>l_state := LExpired\<rparr>])"
  by (simp add: lease_eval)

theorem reconcile_leaves_gate_witness:
  "reconcileExpired 10 100 lease_scope ''w1'' ''l1'' (stored 1 [lease1])
     = (Inr (lease1\<lparr>l_state := LExpired\<rparr>), stored 1 [lease1\<lparr>l_state := LExpired\<rparr>])
   \<and> fst (hasLiveLeases 10 100 ''w1'' (stored 1 [lease1\<lparr>l_state := LExpired\<rparr>])) = Inr True"
proof -
  have "fst (hasLiveLeases 10 100 ''w1'' (stored 1 [lease1])) = Inr True"
    by (simp add: hasLiveLeases_def activeViews_def views_of_def lease_eval)
  with reconcile_leaves_gate [OF lease_suspect_run [symmetric] lease_suspect_reconcile, of "''w1''"]
    lease_suspect_reconcile show ?thesis by simp
qed

lemma lease1_late_heartbeat:
  "heartbeat 45000 15000 lease_scope ''w1'' ''l1'' (stored 1 [lease1])
     = (Inr (lease_view_of 45000 15000 (lease1\<lparr>l_heartbeatAt := 15000\<rparr>)),
        stored 1 [lease1\<lparr>l_heartbeatAt := 15000\<rparr>])"
  by (simp add: lease_eval)

theorem heartbeat_does_not_extend_witness:
  "fst (hasLiveLeases 45000 15000 ''w1'' (stored 1 [lease1\<lparr>l_heartbeatAt := 15000\<rparr>])) = Inr False"
  using heartbeat_does_not_extend [OF lease1_stored _ lease1_late_heartbeat]
  by (simp add: lease1_def new_lease_def expired_at_def)

end
