(* ===== verification/Json.thy ===== *)
theory Json
  imports Prelude
begin

text \<open>
  \<open>JSON.stringify\<close> as the sources use it: plain data whose numbers are integers and whose
  strings have code units below 256. The output determines the value, even when more text
  follows that does not start with a digit, so digests and comparisons of serialized values
  are comparisons of the values.
\<close>

datatype json =
    Json_null
  | Json_bool bool
  | Json_int int
  | Json_str string
  | Json_arr "json list"
  | Json_obj "(string \<times> json) list"

fun digit_chars :: "nat \<Rightarrow> string" where
  "digit_chars n = (if n < 10 then [char_of (48 + n)]
                    else digit_chars (n div 10) @ [char_of (48 + n mod 10)])"

declare digit_chars.simps [simp del]

definition show_nat :: "nat \<Rightarrow> string" where "show_nat n = digit_chars n"

definition show_int :: "int \<Rightarrow> string" where
  "show_int i = (if i < 0 then CHR ''-'' # show_nat (nat (- i)) else show_nat (nat i))"

definition hex_char :: "nat \<Rightarrow> char" where
  "hex_char n = char_of (if n < 10 then 48 + n else 87 + n)"

definition json_escape :: "char \<Rightarrow> string" where
  "json_escape c =
     (if c = CHR 0x22 then [CHR 0x5C, CHR 0x22]
      else if c = CHR 0x5C then [CHR 0x5C, CHR 0x5C]
      else if c = CHR 0x08 then [CHR 0x5C, CHR ''b'']
      else if c = CHR 0x0C then [CHR 0x5C, CHR ''f'']
      else if c = CHR 0x0A then [CHR 0x5C, CHR ''n'']
      else if c = CHR 0x0D then [CHR 0x5C, CHR ''r'']
      else if c = CHR 0x09 then [CHR 0x5C, CHR ''t'']
      else if of_char c < (32::nat)
      then [CHR 0x5C, CHR ''u'', CHR ''0'', CHR ''0'', hex_char (of_char c div 16), hex_char (of_char c mod 16)]
      else [c])"

fun json_chars :: "string \<Rightarrow> string" where
  "json_chars [] = [CHR 0x22]"
| "json_chars (c # s) = json_escape c @ json_chars s"

definition json_string :: "string \<Rightarrow> string" where
  "json_string s = CHR 0x22 # json_chars s"

fun stringify :: "json \<Rightarrow> string"
  and stringify_rest :: "json list \<Rightarrow> string"
  and stringify_fields :: "(string \<times> json) list \<Rightarrow> string" where
  "stringify Json_null = ''null''"
| "stringify (Json_bool b) = (if b then ''true'' else ''false'')"
| "stringify (Json_int i) = show_int i"
| "stringify (Json_str s) = json_string s"
| "stringify (Json_arr vs) =
     CHR ''['' # (case vs of [] \<Rightarrow> '']'' | v # r \<Rightarrow> stringify v @ stringify_rest r)"
| "stringify (Json_obj fs) =
     CHR ''{'' # (case fs of [] \<Rightarrow> ''}''
        | kv # r \<Rightarrow> json_string (fst kv) @ CHR '':'' # stringify (snd kv) @ stringify_fields r)"
| "stringify_rest [] = '']''"
| "stringify_rest (v # vs) = CHR '','' # stringify v @ stringify_rest vs"
| "stringify_fields [] = ''}''"
| "stringify_fields (kv # fs) =
     CHR '','' # json_string (fst kv) @ CHR '':'' # stringify (snd kv) @ stringify_fields fs"

section \<open>Numbers\<close>

fun digits_value :: "nat \<Rightarrow> string \<Rightarrow> nat" where
  "digits_value acc [] = acc"
| "digits_value acc (c # s) = digits_value (10 * acc + (of_char c - 48)) s"

lemma digits_value_append: "digits_value acc (xs @ ys) = digits_value (digits_value acc xs) ys"
  by (induction acc xs rule: digits_value.induct) auto

lemma of_char_digit: "n < 10 \<Longrightarrow> of_char (char_of (48 + n :: nat)) = 48 + n"
  by (simp add: of_char_of)

lemma is_digit_digit_char: "n < 10 \<Longrightarrow> is_digit (char_of (48 + n :: nat))"
  using of_char_digit [of n] by (simp add: is_digit_def)

lemma digit_chars_value: "digits_value 0 (digit_chars n) = n"
proof (induction n rule: digit_chars.induct)
  case (1 n)
  show ?case
  proof (cases "n < 10")
    case True
    then show ?thesis using of_char_digit [of n] by (subst digit_chars.simps) simp
  next
    case False
    then show ?thesis using 1 of_char_digit [of "n mod 10"]
      by (subst digit_chars.simps) (simp add: digits_value_append)
  qed
qed

lemma digit_chars_digits: "list_all is_digit (digit_chars n) \<and> digit_chars n \<noteq> []"
proof (induction n rule: digit_chars.induct)
  case (1 n)
  then show ?case
    using is_digit_digit_char [of n] is_digit_digit_char [of "n mod 10"]
    by (subst (1 2) digit_chars.simps) auto
qed

definition no_digit_first :: "string \<Rightarrow> bool" where
  "no_digit_first s \<longleftrightarrow> (case s of [] \<Rightarrow> True | c # _ \<Rightarrow> \<not> is_digit c)"

lemma takeWhile_digits:
  assumes "list_all is_digit d" and "no_digit_first s"
  shows "takeWhile is_digit (d @ s) = d"
  using assms by (induction d) (auto simp: no_digit_first_def split: list.splits)

lemma show_nat_split:
  assumes "show_nat m @ s = show_nat n @ t" and "no_digit_first s" and "no_digit_first t"
  shows "m = n \<and> s = t"
proof -
  have "digit_chars m = digit_chars n"
    using assms takeWhile_digits [of "digit_chars m" s] takeWhile_digits [of "digit_chars n" t]
      digit_chars_digits [of m] digit_chars_digits [of n] by (simp add: show_nat_def)
  then have "m = n" by (metis digit_chars_value)
  with assms(1) show ?thesis by simp
qed

lemma show_nat_hd: "\<exists>c r. show_nat n = c # r \<and> is_digit c"
  using digit_chars_digits [of n] by (cases "digit_chars n") (auto simp: show_nat_def)

lemma show_int_split:
  assumes "show_int i @ s = show_int j @ t" and "no_digit_first s" and "no_digit_first t"
  shows "i = j \<and> s = t"
proof -
  have minus: "\<not> is_digit (CHR ''-'')" by (simp add: is_digit_def)
  have neg: "i < 0 \<longleftrightarrow> j < 0"
    using assms(1) show_nat_hd [of "nat i"] show_nat_hd [of "nat j"] minus
    by (auto simp: show_int_def split: if_splits)
  with assms(1) have "show_nat (nat \<bar>i\<bar>) @ s = show_nat (nat \<bar>j\<bar>) @ t"
    by (auto simp: show_int_def split: if_splits)
  from show_nat_split [OF this assms(2,3)] neg show ?thesis by auto
qed

section \<open>Strings\<close>

definition unhex :: "char \<Rightarrow> nat" where
  "unhex c = (if of_char c < (58::nat) then of_char c - 48 else of_char c - 87)"

fun json_unescape :: "string \<Rightarrow> (char \<times> string) option" where
  "json_unescape (c # s) =
     (if c = CHR 0x22 then None
      else if c \<noteq> CHR 0x5C then Some (c, s)
      else (case s of
         [] \<Rightarrow> None
       | d # r \<Rightarrow>
           if d = CHR 0x22 \<or> d = CHR 0x5C then Some (d, r)
           else if d = CHR ''b'' then Some (CHR 0x08, r)
           else if d = CHR ''f'' then Some (CHR 0x0C, r)
           else if d = CHR ''n'' then Some (CHR 0x0A, r)
           else if d = CHR ''r'' then Some (CHR 0x0D, r)
           else if d = CHR ''t'' then Some (CHR 0x09, r)
           else Some (char_of (16 * unhex (r ! 2) + unhex (r ! 3)), drop 4 r)))"
| "json_unescape [] = None"

lemma unhex_hex: "n < 16 \<Longrightarrow> unhex (hex_char n) = n"
  by (auto simp: unhex_def hex_char_def of_char_of)

lemma json_unescape_escape: "json_unescape (json_escape c @ s) = Some (c, s)"
proof -
  have "of_char c div 16 < (16::nat)"
    using nat_of_char_less_256 [of c] by (simp add: less_mult_imp_div_less)
  then have "char_of (16 * unhex (hex_char (of_char c div 16)) + unhex (hex_char (of_char c mod 16))) = c"
    by (simp add: unhex_hex)
  then show ?thesis by (auto simp: json_escape_def)
qed

lemma json_unescape_quote: "json_unescape (CHR 0x22 # s) = None" by simp

lemma json_chars_split: "json_chars a @ s = json_chars b @ t \<Longrightarrow> a = b \<and> s = t"
proof (induction a arbitrary: b)
  case Nil
  then show ?case
    by (cases b) (auto dest: arg_cong [where f = json_unescape] simp del: json_unescape.simps
        simp: json_unescape_escape json_unescape_quote)
next
  case (Cons c a)
  show ?case
  proof (cases b)
    case Nil
    with Cons.prems have "json_escape c @ json_chars a @ s = CHR 0x22 # t" by simp
    then show ?thesis by (metis json_unescape_escape json_unescape_quote option.distinct(1))
  next
    case (Cons d b')
    with Cons.prems have "json_escape c @ json_chars a @ s = json_escape d @ json_chars b' @ t" by simp
    then have "c = d" and "json_chars a @ s = json_chars b' @ t"
      by (metis json_unescape_escape option.inject prod.inject)+
    with Cons.IH [of b'] Cons show ?thesis by simp
  qed
qed

lemma json_string_split: "json_string a @ s = json_string b @ t \<Longrightarrow> a = b \<and> s = t"
  unfolding json_string_def by (rule json_chars_split) simp

section \<open>Values\<close>

lemma no_digit_first_rest: "no_digit_first (stringify_rest vs @ s)" "no_digit_first (stringify_fields fs @ s)"
  by (cases vs; simp add: no_digit_first_def is_digit_def) (cases fs; simp add: no_digit_first_def is_digit_def)

text \<open>The first character tells the kinds of values apart.\<close>

fun json_kind :: "json \<Rightarrow> nat" where
  "json_kind Json_null = 1"
| "json_kind (Json_bool b) = (if b then 2 else 3)"
| "json_kind (Json_int _) = 4"
| "json_kind (Json_str _) = 5"
| "json_kind (Json_arr _) = 6"
| "json_kind (Json_obj _) = 7"

definition char_kind :: "char \<Rightarrow> nat" where
  "char_kind c = (if c = CHR ''n'' then 1 else if c = CHR ''t'' then 2 else if c = CHR ''f'' then 3
     else if c = CHR ''-'' \<or> is_digit c then 4 else if c = CHR 0x22 then 5
     else if c = CHR ''['' then 6 else if c = CHR ''{'' then 7 else 0)"

lemma char_kind_digit: "is_digit c \<Longrightarrow> char_kind c = 4"
  by (auto simp: char_kind_def is_digit_def)

lemma stringify_kind: "\<exists>c r. stringify v = c # r \<and> char_kind c = json_kind v"
proof (cases v)
  case (Json_int i)
  have "char_kind (CHR ''-'') = 4" by (simp add: char_kind_def)
  with Json_int show ?thesis using show_nat_hd [of "nat i"] char_kind_digit
    by (auto simp: show_int_def)
qed (auto simp: char_kind_def json_string_def is_digit_def)

lemma same_kind:
  assumes "stringify v @ s = stringify w @ t"
  shows "json_kind v = json_kind w"
  using assms stringify_kind [of v] stringify_kind [of w] by auto

lemma json_kind_nonzero: "json_kind v \<noteq> 0"
  by (cases v) auto

lemma stringify_not_close: "stringify v @ s \<noteq> CHR '']'' # t"
proof
  assume "stringify v @ s = CHR '']'' # t"
  with stringify_kind [of v] have "json_kind v = char_kind (CHR '']'')" by auto
  then show False using json_kind_nonzero [of v] by (simp add: char_kind_def is_digit_def)
qed

lemma stringify_split_all:
  "\<forall>w s t. no_digit_first s \<longrightarrow> no_digit_first t \<longrightarrow> stringify v @ s = stringify w @ t \<longrightarrow> v = w \<and> s = t"
  "\<forall>ws s t. stringify_rest vs @ s = stringify_rest ws @ t \<longrightarrow> vs = ws \<and> s = t"
  "\<forall>gs s t. stringify_fields fs @ s = stringify_fields gs @ t \<longrightarrow> fs = gs \<and> s = t"
proof (induction v and vs and fs rule: stringify_stringify_rest_stringify_fields.induct)
  case 1
  show ?case
  proof (intro allI impI)
    fix w s t
    assume eq: "stringify Json_null @ s = stringify w @ t"
    from same_kind [OF eq] eq show "Json_null = w \<and> s = t" by (cases w) (auto split: if_splits)
  qed
next
  case (2 b)
  show ?case
  proof (intro allI impI)
    fix w s t
    assume eq: "stringify (Json_bool b) @ s = stringify w @ t"
    from same_kind [OF eq] eq show "Json_bool b = w \<and> s = t" by (cases w) (auto split: if_splits)
  qed
next
  case (3 i)
  show ?case
  proof (intro allI impI)
    fix w s t
    assume d: "no_digit_first s" "no_digit_first t" and eq: "stringify (Json_int i) @ s = stringify w @ t"
    from same_kind [OF eq] obtain j where w: "w = Json_int j" by (cases w) (auto split: if_splits)
    with eq have "show_int i @ s = show_int j @ t" by simp
    from show_int_split [OF this d] w show "Json_int i = w \<and> s = t" by simp
  qed
next
  case (4 a)
  show ?case
  proof (intro allI impI)
    fix w s t
    assume eq: "stringify (Json_str a) @ s = stringify w @ t"
    from same_kind [OF eq] obtain b where w: "w = Json_str b" by (cases w) (auto split: if_splits)
    with eq have "json_string a @ s = json_string b @ t" by simp
    from json_string_split [OF this] w show "Json_str a = w \<and> s = t" by simp
  qed
next
  case (5 vs)
  show ?case
  proof (intro allI impI)
    fix w s t
    assume eq: "stringify (Json_arr vs) @ s = stringify w @ t"
    from same_kind [OF eq] obtain ws where w: "w = Json_arr ws" by (cases w) (auto split: if_splits)
    show "Json_arr vs = w \<and> s = t"
    proof (cases vs)
      case Nil
      have "ws = []"
      proof (rule ccontr)
        assume "ws \<noteq> []"
        then obtain v' r' where "ws = v' # r'" by (cases ws) auto
        with eq w Nil have "stringify v' @ stringify_rest r' @ t = CHR '']'' # s" by simp
        then show False using stringify_not_close by blast
      qed
      with Nil eq w show ?thesis by simp
    next
      case (Cons v r)
      have "ws \<noteq> []"
      proof
        assume "ws = []"
        with eq w Cons have "stringify v @ stringify_rest r @ s = CHR '']'' # t" by simp
        then show False using stringify_not_close by blast
      qed
      then obtain v' r' where ws: "ws = v' # r'" by (cases ws) auto
      with eq w Cons have e: "stringify v @ stringify_rest r @ s = stringify v' @ stringify_rest r' @ t" by simp
      with 5(1) [OF Cons] have "v = v' \<and> stringify_rest r @ s = stringify_rest r' @ t"
        using no_digit_first_rest(1) by blast
      with 5(2) [OF Cons] Cons ws w show ?thesis by blast
    qed
  qed
next
  case (6 fs)
  show ?case
  proof (intro allI impI)
    fix w s t
    assume eq: "stringify (Json_obj fs) @ s = stringify w @ t"
    from same_kind [OF eq] obtain gs where w: "w = Json_obj gs" by (cases w) (auto split: if_splits)
    show "Json_obj fs = w \<and> s = t"
    proof (cases fs)
      case Nil
      then show ?thesis using eq w by (cases gs) (auto simp: json_string_def)
    next
      case (Cons f r)
      then obtain f' r' where gs: "gs = f' # r'" using eq w by (cases gs) (auto simp: json_string_def)
      with eq w Cons have e: "json_string (fst f) @ CHR '':'' # stringify (snd f) @ stringify_fields r @ s
          = json_string (fst f') @ CHR '':'' # stringify (snd f') @ stringify_fields r' @ t" by simp
      from json_string_split [OF e] have k: "fst f = fst f'"
        and "stringify (snd f) @ stringify_fields r @ s = stringify (snd f') @ stringify_fields r' @ t" by auto
      with 6(1) [OF Cons] have "snd f = snd f' \<and> stringify_fields r @ s = stringify_fields r' @ t"
        using no_digit_first_rest(2) by blast
      with 6(2) [OF Cons] Cons gs w k show ?thesis by (metis prod.collapse)
    qed
  qed
next
  case 7
  show ?case
  proof (intro allI impI)
    fix ws s t
    assume "stringify_rest [] @ s = stringify_rest ws @ t"
    then show "[] = ws \<and> s = t" by (cases ws) auto
  qed
next
  case (8 v vs)
  show ?case
  proof (intro allI impI)
    fix ws s t
    assume eq: "stringify_rest (v # vs) @ s = stringify_rest ws @ t"
    then obtain v' vs' where ws: "ws = v' # vs'" by (cases ws) auto
    with eq have "stringify v @ stringify_rest vs @ s = stringify v' @ stringify_rest vs' @ t" by simp
    with 8(1) have "v = v' \<and> stringify_rest vs @ s = stringify_rest vs' @ t"
      using no_digit_first_rest(1) by blast
    with 8(2) ws show "v # vs = ws \<and> s = t" by blast
  qed
next
  case 9
  show ?case
  proof (intro allI impI)
    fix gs s t
    assume "stringify_fields [] @ s = stringify_fields gs @ t"
    then show "[] = gs \<and> s = t" by (cases gs) auto
  qed
next
  case (10 f fs)
  show ?case
  proof (intro allI impI)
    fix gs s t
    assume eq: "stringify_fields (f # fs) @ s = stringify_fields gs @ t"
    then obtain f' fs' where gs: "gs = f' # fs'" by (cases gs) auto
    with eq have e: "json_string (fst f) @ CHR '':'' # stringify (snd f) @ stringify_fields fs @ s
        = json_string (fst f') @ CHR '':'' # stringify (snd f') @ stringify_fields fs' @ t" by simp
    from json_string_split [OF e] have k: "fst f = fst f'"
      and "stringify (snd f) @ stringify_fields fs @ s = stringify (snd f') @ stringify_fields fs' @ t" by auto
    with 10(1) have "snd f = snd f' \<and> stringify_fields fs @ s = stringify_fields fs' @ t"
      using no_digit_first_rest(2) by blast
    with 10(2) gs k show "f # fs = gs \<and> s = t" by (metis prod.collapse)
  qed
qed

text \<open>Two values with the same text are equal.\<close>

lemma stringify_inj: "stringify v = stringify w \<longleftrightarrow> v = w"
proof
  assume "stringify v = stringify w"
  then have "stringify v @ [] = stringify w @ []" by simp
  moreover have "no_digit_first []" by (simp add: no_digit_first_def)
  ultimately show "v = w" using stringify_split_all(1) [of v] by blast
qed simp

section \<open>A serialised value is one line\<close>

lemma json_escape_no_newline: "CHR 0x0A \<notin> set (json_escape c)"
proof -
  have h: "CHR 0x0A \<noteq> hex_char n" if "n < 16" for n
  proof
    assume "CHR 0x0A = hex_char n"
    then have "(of_char (CHR 0x0A) :: nat) = of_char (hex_char n)" by simp
    with that show False by (auto simp: hex_char_def split: if_splits)
  qed
  have "of_char c div 16 < (16::nat)"
    using nat_of_char_less_256 [of c] by (simp add: less_mult_imp_div_less)
  with h [of "of_char c div 16"] h [of "of_char c mod 16"] show ?thesis by (auto simp: json_escape_def)
qed

lemma json_string_no_newline: "CHR 0x0A \<notin> set (json_string s)"
proof -
  have "CHR 0x0A \<notin> set (json_chars s)" by (induction s) (auto simp: json_escape_no_newline)
  then show ?thesis by (simp add: json_string_def)
qed

lemma show_int_no_newline: "CHR 0x0A \<notin> set (show_int i)"
proof -
  have "CHR 0x0A \<notin> set (digit_chars n)" for n
    using digit_chars_digits [of n] by (auto simp: list_all_iff is_digit_def)
  then show ?thesis by (simp add: show_int_def show_nat_def)
qed

lemma stringify_no_newline:
  "CHR 0x0A \<notin> set (stringify v)" "CHR 0x0A \<notin> set (stringify_rest vs)" "CHR 0x0A \<notin> set (stringify_fields fs)"
  by (induction v and vs and fs rule: stringify_stringify_rest_stringify_fields.induct)
     (auto simp: json_string_no_newline show_int_no_newline split: list.splits)

end
