(* ===== verification/Cleanup_Plan.thy ===== *)
theory Cleanup_Plan
  imports Leases Json "HOL-Library.List_Lexorder" "HOL-Library.Char_ord" "HOL-Library.Multiset"
begin

text \<open>
  Cleanup preflight, \<^verbatim>\<open>worktrees/cleanup-plan.ts\<close>: the blockers computed from observed facts,
  the gate for destructive steps, the canonical text a plan's digest is taken of, and the
  comparison of planned with observed facts at commit. SHA-256 is the argument \<open>sha\<close>. Strings
  sort by code unit, as \<open>toSorted()\<close> does.
\<close>

section \<open>Facts and blockers\<close>

datatype provenance = Adea | External

record cleanup_facts =
  cf_worktreeId :: string
  cf_generation :: int
  cf_provenance :: provenance
  cf_lifecycle :: string
  cf_canonicalRoot :: string
  cf_repoPath :: string
  cf_headBranch :: "string option"
  cf_branchRef :: "string option"
  cf_headSha :: "string option"
  cf_dirty :: bool
  cf_untracked :: bool
  cf_conflicted :: bool
  cf_upstreamKnown :: bool
  cf_ahead :: "int option"
  cf_behind :: "int option"
  cf_unpushedCommits :: "int option"
  cf_isDefaultBranch :: bool
  cf_isProtectedBranch :: bool
  cf_hasLiveLeases :: bool
  cf_attachedOwnedResources :: "(string \<times> string) list"  \<comment> \<open>id and kind\<close>
  cf_nestedWorktrees :: "string list"
  cf_identityProven :: bool
  cf_gitdirProven :: bool
  cf_dangerous :: bool
  cf_trashRootUsable :: bool

record cleanup_blocker =
  cb_code :: wt_code
  cb_detail :: string
  cb_narrowable :: bool

datatype cleanup_step =
    Stop_owned_resource | Run_teardown | Quarantine_worktree | Unregister_worktree
  | Delete_quarantine | Delete_branch | Prune_retained_data

definition HARD_BLOCKERS :: "cleanup_blocker list" where
  "HARD_BLOCKERS = [\<lparr>cb_code = W_external_ownership,
     cb_detail = ''external worktrees are never managed-deleted'', cb_narrowable = False\<rparr>]"

definition add_blocker :: "bool \<Rightarrow> wt_code \<Rightarrow> string \<Rightarrow> cleanup_blocker list" where
  "add_blocker cond c detail =
     (if cond then [\<lparr>cb_code = c, cb_detail = detail, cb_narrowable = False\<rparr>] else [])"

definition computeCleanupBlockers :: "cleanup_facts \<Rightarrow> cleanup_blocker list" where
  "computeCleanupBlockers facts =
     add_blocker (\<not> cf_identityProven facts) W_identity_mismatch ''worktree path/identity is unproven''
   @ add_blocker (\<not> cf_gitdirProven facts) W_gitdir_unproven ''gitdir backlink could not be proven''
   @ (if cf_provenance facts = External then HARD_BLOCKERS else [])
   @ add_blocker (cf_dangerous facts) W_dangerous_path ''path is a dangerous deletion target''
   @ add_blocker (\<not> cf_trashRootUsable facts) W_dangerous_path ''trash root is a symlink or not a directory''
   @ add_blocker (cf_dirty facts) W_dirty ''working tree has uncommitted modifications''
   @ add_blocker (cf_untracked facts) W_dirty ''working tree has untracked files''
   @ add_blocker (cf_conflicted facts) W_conflicted ''merge conflicts are unresolved''
   @ (if \<not> cf_upstreamKnown facts
      then add_blocker True W_unpushed ''no upstream is configured; push state is unknown''
      else add_blocker ((case cf_ahead facts of None \<Rightarrow> 0 | Some n \<Rightarrow> n) > 0
               \<or> cf_unpushedCommits facts \<noteq> Some 0) W_unpushed ''the branch has unpushed commits''
         @ add_blocker (cf_behind facts = None) W_behind ''behind state is unknown'')
   @ add_blocker (cf_isDefaultBranch facts) W_protected_branch ''the checked-out branch is the default branch''
   @ add_blocker (cf_isProtectedBranch facts) W_protected_branch ''the checked-out branch is protected''
   @ add_blocker (cf_hasLiveLeases facts) W_leased ''active or suspect leases still hold this worktree''
   @ add_blocker (length (cf_attachedOwnedResources facts) > 0) W_leased
       (show_nat (length (cf_attachedOwnedResources facts)) @ '' owned resource(s) are still attached'')
   @ add_blocker (length (cf_nestedWorktrees facts) > 0) W_nested_worktree
       (''contains '' @ show_nat (length (cf_nestedWorktrees facts)) @ '' nested registered worktree(s)'')"

section \<open>Destructive gate\<close>

definition DESTRUCTIVE_CLEANUP_STEPS :: "cleanup_step list" where
  "DESTRUCTIVE_CLEANUP_STEPS = [Stop_owned_resource, Run_teardown, Quarantine_worktree,
     Unregister_worktree, Delete_quarantine, Delete_branch]"

definition cleanupHasDestructiveStep :: "cleanup_step list \<Rightarrow> bool" where
  "cleanupHasDestructiveStep selectedSteps =
     list_ex (\<lambda>step. step \<in> set DESTRUCTIVE_CLEANUP_STEPS) selectedSteps"

definition cleanupSelectionBlocked :: "cleanup_blocker list \<Rightarrow> cleanup_step list \<Rightarrow> bool" where
  "cleanupSelectionBlocked blockers selectedSteps =
     (length blockers > 0 \<and> cleanupHasDestructiveStep selectedSteps)"

section \<open>Canonical text and digest\<close>

fun wt_code_name :: "wt_code \<Rightarrow> string" where
  "wt_code_name W_not_found = ''not_found''"
| "wt_code_name W_unauthorized = ''unauthorized''"
| "wt_code_name W_identity_mismatch = ''identity_mismatch''"
| "wt_code_name W_stale_generation = ''stale_generation''"
| "wt_code_name W_stale_version = ''stale_version''"
| "wt_code_name W_invalid_state = ''invalid_state''"
| "wt_code_name W_corrupt_state = ''corrupt_state''"
| "wt_code_name W_already_completed = ''already_completed''"
| "wt_code_name W_idempotency_conflict = ''idempotency_conflict''"
| "wt_code_name W_unauthorized_root = ''unauthorized_root''"
| "wt_code_name W_path_escape = ''path_escape''"
| "wt_code_name W_symlink_rejected = ''symlink_rejected''"
| "wt_code_name W_special_file_rejected = ''special_file_rejected''"
| "wt_code_name W_file_changed = ''file_changed''"
| "wt_code_name W_not_git_repo = ''not_git_repo''"
| "wt_code_name W_gitdir_unproven = ''gitdir_unproven''"
| "wt_code_name W_remote_unavailable = ''remote_unavailable''"
| "wt_code_name W_remote_changed = ''remote_changed''"
| "wt_code_name W_auth_required = ''auth_required''"
| "wt_code_name W_base_not_found = ''base_not_found''"
| "wt_code_name W_name_collision = ''name_collision''"
| "wt_code_name W_path_collision = ''path_collision''"
| "wt_code_name W_bootstrap_denied = ''bootstrap_denied''"
| "wt_code_name W_bootstrap_failed = ''bootstrap_failed''"
| "wt_code_name W_dirty = ''dirty''"
| "wt_code_name W_unpushed = ''unpushed''"
| "wt_code_name W_behind = ''behind''"
| "wt_code_name W_conflicted = ''conflicted''"
| "wt_code_name W_protected_branch = ''protected_branch''"
| "wt_code_name W_external_ownership = ''external_ownership''"
| "wt_code_name W_dangerous_path = ''dangerous_path''"
| "wt_code_name W_nested_worktree = ''nested_worktree''"
| "wt_code_name W_lock_timeout = ''lock_timeout''"
| "wt_code_name W_limit_exceeded = ''limit_exceeded''"
| "wt_code_name W_timeout = ''timeout''"
| "wt_code_name W_cancelled = ''cancelled''"
| "wt_code_name W_leased = ''leased''"
| "wt_code_name W_ownership_unproven = ''ownership_unproven''"
| "wt_code_name W_plan_stale = ''plan_stale''"
| "wt_code_name W_cleanup_blocked = ''cleanup_blocked''"
| "wt_code_name W_cleanup_partial = ''cleanup_partial''"
| "wt_code_name W_recovery_required = ''recovery_required''"
| "wt_code_name W_rollback_failed = ''rollback_failed''"

fun step_name :: "cleanup_step \<Rightarrow> string" where
  "step_name Stop_owned_resource = ''stop_owned_resource''"
| "step_name Run_teardown = ''run_teardown''"
| "step_name Quarantine_worktree = ''quarantine_worktree''"
| "step_name Unregister_worktree = ''unregister_worktree''"
| "step_name Delete_quarantine = ''delete_quarantine''"
| "step_name Delete_branch = ''delete_branch''"
| "step_name Prune_retained_data = ''prune_retained_data''"

fun provenance_name :: "provenance \<Rightarrow> string" where
  "provenance_name Adea = ''adea''"
| "provenance_name External = ''external''"

definition json_opt :: "int option \<Rightarrow> json" where
  "json_opt n = (case n of None \<Rightarrow> Json_null | Some i \<Rightarrow> Json_int i)"

text \<open>An absent optional property is not written.\<close>

definition opt_field :: "string \<Rightarrow> string option \<Rightarrow> (string \<times> json) list" where
  "opt_field k v = (case v of None \<Rightarrow> [] | Some s \<Rightarrow> [(k, Json_str s)])"

definition facts_head :: "cleanup_facts \<Rightarrow> (string \<times> json) list" where
  "facts_head f =
     [(''worktreeId'', Json_str (cf_worktreeId f)), (''generation'', Json_int (cf_generation f)),
      (''provenance'', Json_str (provenance_name (cf_provenance f))),
      (''lifecycle'', Json_str (cf_lifecycle f)), (''canonicalRoot'', Json_str (cf_canonicalRoot f)),
      (''repoPath'', Json_str (cf_repoPath f))]"

definition facts_tail :: "cleanup_facts \<Rightarrow> (string \<times> json) list" where
  "facts_tail f =
     [(''untracked'', Json_bool (cf_untracked f)),
      (''conflicted'', Json_bool (cf_conflicted f)), (''upstreamKnown'', Json_bool (cf_upstreamKnown f)),
      (''ahead'', json_opt (cf_ahead f)), (''behind'', json_opt (cf_behind f)),
      (''unpushedCommits'', json_opt (cf_unpushedCommits f)),
      (''isDefaultBranch'', Json_bool (cf_isDefaultBranch f)),
      (''isProtectedBranch'', Json_bool (cf_isProtectedBranch f)),
      (''hasLiveLeases'', Json_bool (cf_hasLiveLeases f)),
      (''attachedOwnedResources'', Json_arr (map (\<lambda>r. Json_obj [(''id'', Json_str (fst r)),
          (''kind'', Json_str (snd r))]) (cf_attachedOwnedResources f))),
      (''nestedWorktrees'', Json_arr (map Json_str (cf_nestedWorktrees f))),
      (''identityProven'', Json_bool (cf_identityProven f)),
      (''gitdirProven'', Json_bool (cf_gitdirProven f)),
      (''dangerous'', Json_bool (cf_dangerous f)),
      (''trashRootUsable'', Json_bool (cf_trashRootUsable f))]"

definition facts_json :: "cleanup_facts \<Rightarrow> json" where
  "facts_json f = Json_obj (facts_head f
     @ opt_field ''headBranch'' (cf_headBranch f) @ opt_field ''branchRef'' (cf_branchRef f)
     @ opt_field ''headSha'' (cf_headSha f)
     @ (''dirty'', Json_bool (cf_dirty f)) # facts_tail f)"

definition blocker_json :: "cleanup_blocker \<Rightarrow> json" where
  "blocker_json b = Json_obj [(''code'', Json_str (wt_code_name (cb_code b))),
     (''detail'', Json_str (cb_detail b)), (''narrowable'', Json_bool (cb_narrowable b))]"

record plan_fields =
  pf_planId :: string
  pf_worktreeId :: string
  pf_generation :: int
  pf_facts :: cleanup_facts
  pf_blockers :: "cleanup_blocker list"
  pf_selectedSteps :: "cleanup_step list"
  pf_selectedResourceIds :: "string list"

record cleanup_plan = plan_fields +
  cp_digest :: string
  cp_createdAt :: int

definition canonicalPlanJson :: "plan_fields \<Rightarrow> string" where
  "canonicalPlanJson plan = stringify (Json_obj
     [(''planId'', Json_str (pf_planId plan)), (''worktreeId'', Json_str (pf_worktreeId plan)),
      (''generation'', Json_int (pf_generation plan)), (''facts'', facts_json (pf_facts plan)),
      (''blockers'', Json_arr (map blocker_json (pf_blockers plan))),
      (''selectedSteps'', Json_arr (map Json_str (sort (map step_name (pf_selectedSteps plan))))),
      (''selectedResourceIds'', Json_arr (map Json_str (sort (pf_selectedResourceIds plan))))])"

definition planDigestOf :: "(string \<Rightarrow> string) \<Rightarrow> plan_fields \<Rightarrow> string" where
  "planDigestOf sha plan = sha (canonicalPlanJson plan)"

definition plan_of_facts :: "string \<Rightarrow> cleanup_facts \<Rightarrow> cleanup_step list \<Rightarrow> string list option \<Rightarrow> plan_fields" where
  "plan_of_facts planId facts selectedSteps resourceIds =
     \<lparr>pf_planId = planId, pf_worktreeId = cf_worktreeId facts, pf_generation = cf_generation facts,
      pf_facts = facts, pf_blockers = computeCleanupBlockers facts,
      pf_selectedSteps = js_dedupe [] selectedSteps,
      pf_selectedResourceIds = (case resourceIds of None \<Rightarrow> [] | Some ids \<Rightarrow> ids)\<rparr>"

definition buildCleanupPlan ::
  "(string \<Rightarrow> string) \<Rightarrow> int \<Rightarrow> string \<Rightarrow> cleanup_facts \<Rightarrow> cleanup_step list \<Rightarrow> string list option \<Rightarrow> cleanup_plan" where
  "buildCleanupPlan sha at planId facts selectedSteps resourceIds =
     (let fields = plan_of_facts planId facts selectedSteps resourceIds in
      plan_fields.extend fields \<lparr>cp_digest = planDigestOf sha fields, cp_createdAt = at\<rparr>)"

section \<open>Drift between plan and commit\<close>

definition compared_fields :: "(string \<times> (cleanup_facts \<Rightarrow> json)) list" where
  "compared_fields =
     [(''worktreeId'', \<lambda>f. Json_str (cf_worktreeId f)),
      (''generation'', \<lambda>f. Json_int (cf_generation f)),
      (''provenance'', \<lambda>f. Json_str (provenance_name (cf_provenance f))),
      (''dirty'', \<lambda>f. Json_bool (cf_dirty f)),
      (''untracked'', \<lambda>f. Json_bool (cf_untracked f)),
      (''conflicted'', \<lambda>f. Json_bool (cf_conflicted f)),
      (''upstreamKnown'', \<lambda>f. Json_bool (cf_upstreamKnown f)),
      (''ahead'', \<lambda>f. json_opt (cf_ahead f)),
      (''behind'', \<lambda>f. json_opt (cf_behind f)),
      (''unpushedCommits'', \<lambda>f. json_opt (cf_unpushedCommits f)),
      (''isDefaultBranch'', \<lambda>f. Json_bool (cf_isDefaultBranch f)),
      (''isProtectedBranch'', \<lambda>f. Json_bool (cf_isProtectedBranch f)),
      (''hasLiveLeases'', \<lambda>f. Json_bool (cf_hasLiveLeases f)),
      (''identityProven'', \<lambda>f. Json_bool (cf_identityProven f)),
      (''gitdirProven'', \<lambda>f. Json_bool (cf_gitdirProven f)),
      (''dangerous'', \<lambda>f. Json_bool (cf_dangerous f)),
      (''trashRootUsable'', \<lambda>f. Json_bool (cf_trashRootUsable f))]"

fun join_comma :: "string list \<Rightarrow> string" where
  "join_comma [] = []"
| "join_comma [s] = s"
| "join_comma (s # t # r) = s @ CHR '','' # join_comma (t # r)"

definition factsChanged :: "cleanup_facts \<Rightarrow> cleanup_facts \<Rightarrow> string option" where
  "factsChanged planned observed =
     (case find (\<lambda>(_, get). stringify (get planned) \<noteq> stringify (get observed)) compared_fields of
        Some (field, _) \<Rightarrow> Some field
      | None \<Rightarrow>
          if join_comma (sort (map fst (cf_attachedOwnedResources planned)))
             \<noteq> join_comma (sort (map fst (cf_attachedOwnedResources observed)))
          then Some ''attachedOwnedResources''
          else if join_comma (sort (cf_nestedWorktrees planned)) \<noteq> join_comma (sort (cf_nestedWorktrees observed))
          then Some ''nestedWorktrees''
          else None)"

section \<open>An unknown lead over the upstream\<close>

text \<open>Facts that are not known are meant to block; that the number of commits ahead is unknown counts as zero.\<close>

theorem unknown_ahead_counts_as_zero:
  "computeCleanupBlockers (f\<lparr>cf_ahead := None\<rparr>) = computeCleanupBlockers (f\<lparr>cf_ahead := Some 0\<rparr>)"
  by (simp add: computeCleanupBlockers_def)

section \<open>What the digest binds\<close>

lemma step_name_inj: "inj step_name"
proof (rule injI)
  fix x y
  assume "step_name x = step_name y"
  then show "x = y" by (cases x; cases y) simp_all
qed

text \<open>A decoder for code names, to see that they are distinct.\<close>

lemma wt_code_name_inj: "wt_code_name x = wt_code_name y \<Longrightarrow> x = y"
  by (cases x; simp; cases y; simp)

lemma json_opt_inj [simp]: "json_opt a = json_opt b \<longleftrightarrow> a = b"
  by (auto simp: json_opt_def split: option.splits)

lemma provenance_name_inj [simp]: "provenance_name a = provenance_name b \<longleftrightarrow> a = b"
  by (cases a; cases b) simp_all

lemma blocker_json_inj: "inj blocker_json"
proof (rule injI)
  fix a b :: cleanup_blocker
  assume "blocker_json a = blocker_json b"
  then show "a = b" by (auto simp: blocker_json_def dest: wt_code_name_inj)
qed

lemma resource_json_inj: "inj (\<lambda>r. Json_obj [(''id'', Json_str (fst r)), (''kind'', Json_str (snd r))])"
  by (rule injI) (simp add: prod_eq_iff)

lemma Json_str_inj: "inj Json_str"
  by (rule injI) simp

lemma opt_fields_inj:
  assumes "k1 \<noteq> k2" "k1 \<noteq> k3" "k2 \<noteq> k3" "k1 \<noteq> fst e" "k2 \<noteq> fst e" "k3 \<noteq> fst e" "fst e = fst e'"
    and "opt_field k1 a @ opt_field k2 b @ opt_field k3 c @ e # r
       = opt_field k1 a' @ opt_field k2 b' @ opt_field k3 c' @ e' # r'"
  shows "a = a' \<and> b = b' \<and> c = c' \<and> e = e' \<and> r = r'"
  using assms by (auto simp: opt_field_def split: option.splits)

lemma facts_json_inj: "facts_json f = facts_json g \<longleftrightarrow> f = g"
proof
  assume eq: "facts_json f = facts_json g"
  then have hd: "facts_head f = facts_head g"
    and opts: "opt_field ''headBranch'' (cf_headBranch f) @ opt_field ''branchRef'' (cf_branchRef f)
         @ opt_field ''headSha'' (cf_headSha f) @ (''dirty'', Json_bool (cf_dirty f)) # facts_tail f
       = opt_field ''headBranch'' (cf_headBranch g) @ opt_field ''branchRef'' (cf_branchRef g)
         @ opt_field ''headSha'' (cf_headSha g) @ (''dirty'', Json_bool (cf_dirty g)) # facts_tail g"
    by (simp_all add: facts_json_def facts_head_def)
  from opt_fields_inj [OF _ _ _ _ _ _ _ opts]
  have "cf_headBranch f = cf_headBranch g" "cf_branchRef f = cf_branchRef g" "cf_headSha f = cf_headSha g"
    "cf_dirty f = cf_dirty g" and tl: "facts_tail f = facts_tail g"
    by simp_all
  moreover from hd have "cf_worktreeId f = cf_worktreeId g" "cf_generation f = cf_generation g"
    "cf_provenance f = cf_provenance g" "cf_lifecycle f = cf_lifecycle g"
    "cf_canonicalRoot f = cf_canonicalRoot g" "cf_repoPath f = cf_repoPath g"
    by (simp_all add: facts_head_def)
  ultimately show "f = g"
    using tl inj_map_eq_map [OF resource_json_inj] inj_map_eq_map [OF Json_str_inj]
    by (simp add: facts_tail_def)
qed simp

lemma sort_eq_iff_mset: "sort (xs :: 'a::linorder list) = sort ys \<longleftrightarrow> mset xs = mset ys"
  by (metis mset_sort sorted_list_of_multiset_mset)

text \<open>Two plans have the same canonical text exactly when they agree on every field, with
  the selected steps and resource ids taken as multisets. The digest therefore changes with
  any single fact, also those the commit-time comparison skips, up to collisions of the hash.\<close>

theorem plan_text_binds:
  "canonicalPlanJson p = canonicalPlanJson q \<longleftrightarrow>
     pf_planId p = pf_planId q \<and> pf_worktreeId p = pf_worktreeId q \<and> pf_generation p = pf_generation q
     \<and> pf_facts p = pf_facts q \<and> pf_blockers p = pf_blockers q
     \<and> mset (pf_selectedSteps p) = mset (pf_selectedSteps q)
     \<and> mset (pf_selectedResourceIds p) = mset (pf_selectedResourceIds q)"
proof -
  have "mset (map step_name xs) = mset (map step_name ys) \<longleftrightarrow> mset xs = mset ys" for xs ys
    using multiset.inj_map [OF step_name_inj] by (simp add: inj_eq)
  then show ?thesis
    unfolding canonicalPlanJson_def stringify_inj
    by (simp add: facts_json_inj inj_map_eq_map [OF Json_str_inj]
        inj_map_eq_map [OF blocker_json_inj] sort_eq_iff_mset)
qed

section \<open>What the drift check guarantees\<close>

lemma factsChanged_NoneD:
  assumes "factsChanged p q = None"
  shows "cf_worktreeId p = cf_worktreeId q" "cf_generation p = cf_generation q"
    "cf_provenance p = cf_provenance q" "cf_dirty p = cf_dirty q" "cf_untracked p = cf_untracked q"
    "cf_conflicted p = cf_conflicted q" "cf_upstreamKnown p = cf_upstreamKnown q"
    "cf_ahead p = cf_ahead q" "cf_behind p = cf_behind q" "cf_unpushedCommits p = cf_unpushedCommits q"
    "cf_isDefaultBranch p = cf_isDefaultBranch q" "cf_isProtectedBranch p = cf_isProtectedBranch q"
    "cf_hasLiveLeases p = cf_hasLiveLeases q" "cf_identityProven p = cf_identityProven q"
    "cf_gitdirProven p = cf_gitdirProven q" "cf_dangerous p = cf_dangerous q"
    "cf_trashRootUsable p = cf_trashRootUsable q"
    "join_comma (sort (map fst (cf_attachedOwnedResources p))) = join_comma (sort (map fst (cf_attachedOwnedResources q)))"
    "join_comma (sort (cf_nestedWorktrees p)) = join_comma (sort (cf_nestedWorktrees q))"
proof -
  have "\<forall>x\<in>set compared_fields. snd x p = snd x q"
    using assms by (auto simp: factsChanged_def find_None_iff' stringify_inj split: option.splits)
  then show "cf_worktreeId p = cf_worktreeId q" "cf_generation p = cf_generation q"
    "cf_provenance p = cf_provenance q" "cf_dirty p = cf_dirty q" "cf_untracked p = cf_untracked q"
    "cf_conflicted p = cf_conflicted q" "cf_upstreamKnown p = cf_upstreamKnown q"
    "cf_ahead p = cf_ahead q" "cf_behind p = cf_behind q" "cf_unpushedCommits p = cf_unpushedCommits q"
    "cf_isDefaultBranch p = cf_isDefaultBranch q" "cf_isProtectedBranch p = cf_isProtectedBranch q"
    "cf_hasLiveLeases p = cf_hasLiveLeases q" "cf_identityProven p = cf_identityProven q"
    "cf_gitdirProven p = cf_gitdirProven q" "cf_dangerous p = cf_dangerous q"
    "cf_trashRootUsable p = cf_trashRootUsable q"
    by (simp_all add: compared_fields_def)
  show "join_comma (sort (map fst (cf_attachedOwnedResources p))) = join_comma (sort (map fst (cf_attachedOwnedResources q)))"
    "join_comma (sort (cf_nestedWorktrees p)) = join_comma (sort (cf_nestedWorktrees q))"
    using assms by (auto simp: factsChanged_def split: option.splits if_splits)
qed

lemma join_comma_Nil_iff: "list_all (\<lambda>s. s \<noteq> []) xs \<Longrightarrow> join_comma xs = [] \<longleftrightarrow> xs = []"
  by (cases xs rule: join_comma.cases) auto

lemma join_sorted_Nil_iff:
  assumes "[] \<notin> set xs"
  shows "join_comma (sort xs) = [] \<longleftrightarrow> xs = []"
  using assms join_comma_Nil_iff [of "sort xs"] by (auto simp: list_all_iff) (metis mset_sort mset_zero_iff)

definition named_resources :: "cleanup_facts \<Rightarrow> bool" where
  "named_resources f \<longleftrightarrow> [] \<notin> set (map fst (cf_attachedOwnedResources f)) \<and> [] \<notin> set (cf_nestedWorktrees f)"

text \<open>C33: when the commit-time comparison reports no drift, the facts observed at commit have
  blockers with exactly the codes of the planned facts, and a selection of steps is blocked by them
  exactly when it was blocked by the planned ones. Attached resources and nested worktrees have non-empty names.\<close>

theorem no_drift_same_blockers:
  assumes "factsChanged planned observed = None"
    and "named_resources planned" and "named_resources observed"
  shows "map cb_code (computeCleanupBlockers planned) = map cb_code (computeCleanupBlockers observed)
     \<and> cleanupSelectionBlocked (computeCleanupBlockers planned) steps = cleanupSelectionBlocked (computeCleanupBlockers observed) steps"
proof -
  note eqs = factsChanged_NoneD [OF assms(1)]
  have a: "(cf_attachedOwnedResources planned = []) = (cf_attachedOwnedResources observed = [])"
    using eqs(18) assms(2,3) join_sorted_Nil_iff
    by (metis map_is_Nil_conv named_resources_def)
  have n: "(cf_nestedWorktrees planned = []) = (cf_nestedWorktrees observed = [])"
    using eqs(19) assms(2,3) join_sorted_Nil_iff by (metis named_resources_def)
  have codes: "map cb_code (computeCleanupBlockers planned) = map cb_code (computeCleanupBlockers observed)"
    using a n by (simp add: computeCleanupBlockers_def add_blocker_def eqs(1-17))
  then have "(computeCleanupBlockers planned = []) = (computeCleanupBlockers observed = [])" by (metis map_is_Nil_conv)
  with codes show ?thesis by (simp add: cleanupSelectionBlocked_def)
qed

text \<open>The comparison reports no drift when the canonical root, the repository path, the
  lifecycle, the branch or the head commit differ, although the source says that any drift
  between planned and observed facts is a refusal.\<close>

theorem drift_check_ignores_identity_paths:
  "factsChanged f (f\<lparr>cf_lifecycle := l, cf_canonicalRoot := root, cf_repoPath := repo,
      cf_headBranch := hb, cf_branchRef := br, cf_headSha := sha\<rparr>) = None"
  by (simp add: factsChanged_def compared_fields_def)

definition clean_facts :: cleanup_facts where
  "clean_facts = \<lparr>cf_worktreeId = ''w1'', cf_generation = 1, cf_provenance = Adea, cf_lifecycle = ''active'',
     cf_canonicalRoot = ''/r'', cf_repoPath = ''/p'', cf_headBranch = Some ''b'', cf_branchRef = None,
     cf_headSha = None, cf_dirty = False, cf_untracked = False, cf_conflicted = False,
     cf_upstreamKnown = True, cf_ahead = Some 0, cf_behind = Some 0, cf_unpushedCommits = Some 0,
     cf_isDefaultBranch = False, cf_isProtectedBranch = False, cf_hasLiveLeases = False,
     cf_attachedOwnedResources = [], cf_nestedWorktrees = [], cf_identityProven = True,
     cf_gitdirProven = True, cf_dangerous = False, cf_trashRootUsable = True\<rparr>"

theorem no_drift_same_blockers_witness:
  "factsChanged clean_facts (clean_facts\<lparr>cf_headSha := Some ''abc''\<rparr>) = None
   \<and> \<not> cleanupSelectionBlocked (computeCleanupBlockers (clean_facts\<lparr>cf_headSha := Some ''abc''\<rparr>)) [Quarantine_worktree]"
proof -
  have d: "factsChanged clean_facts (clean_facts\<lparr>cf_headSha := Some ''abc''\<rparr>) = None"
    by (simp add: factsChanged_def compared_fields_def)
  have "\<not> cleanupSelectionBlocked (computeCleanupBlockers clean_facts) [Quarantine_worktree]" by code_simp
  with no_drift_same_blockers [OF d, of "[Quarantine_worktree]"] d show ?thesis by (simp add: named_resources_def clean_facts_def)
qed

end
