(* ===== verification/Json_Parse.thy ===== *)
theory Json_Parse
  imports Json
begin

text \<open>
  \<open>JSON.parse\<close> on texts whose values are in the model of \<open>Json\<close>: integers are the only numbers and \<open>\u\<close>
  escapes stand for code units below 256; any other text gives \<open>None\<close>. A repeated key keeps both entries,
  and \<open>json_field\<close> reads the last one, as the object built by \<open>JSON.parse\<close> has it. The number of calls is
  bounded by the length of the text. Main fact: parsing what \<open>JSON.stringify\<close> wrote gives the value back.
\<close>

definition is_json_space :: "char \<Rightarrow> bool" where
  "is_json_space c \<longleftrightarrow> c = CHR 0x20 \<or> c = CHR 0x09 \<or> c = CHR 0x0A \<or> c = CHR 0x0D"

abbreviation skip_space :: "string \<Rightarrow> string" where
  "skip_space s \<equiv> dropWhile is_json_space s"

definition hex_value :: "char \<Rightarrow> nat option" where
  "hex_value c = (let n = of_char c :: nat in
     if 48 \<le> n \<and> n \<le> 57 then Some (n - 48)
     else if 97 \<le> n \<and> n \<le> 102 then Some (n - 87)
     else if 65 \<le> n \<and> n \<le> 70 then Some (n - 55) else None)"

definition simple_escape :: "char \<Rightarrow> char option" where
  "simple_escape d =
     (if d = CHR 0x22 \<or> d = CHR 0x5C \<or> d = CHR ''/'' then Some d
      else if d = CHR ''b'' then Some (CHR 0x08)
      else if d = CHR ''f'' then Some (CHR 0x0C)
      else if d = CHR ''n'' then Some (CHR 0x0A)
      else if d = CHR ''r'' then Some (CHR 0x0D)
      else if d = CHR ''t'' then Some (CHR 0x09) else None)"

text \<open>The characters of a string behind its opening quote, and the text behind the closing one.\<close>

fun parse_chars :: "string \<Rightarrow> (string \<times> string) option" where
  "parse_chars [] = None"
| "parse_chars (c # s) =
     (if c = CHR 0x22 then Some ([], s)
      else if of_char c < (32::nat) then None
      else if c \<noteq> CHR 0x5C then map_option (\<lambda>(r, t). (c # r, t)) (parse_chars s)
      else (case s of
         [] \<Rightarrow> None
       | d # t \<Rightarrow>
           if d = CHR ''u'' then
             (case t of
                a # b # x # y # u \<Rightarrow>
                  (case (hex_value a, hex_value b, hex_value x, hex_value y) of
                     (Some i, Some j, Some h, Some l) \<Rightarrow>
                       if i = 0 \<and> j = 0 then map_option (\<lambda>(r, t). (char_of (16 * h + l) # r, t)) (parse_chars u) else None
                   | _ \<Rightarrow> None)
              | _ \<Rightarrow> None)
           else (case simple_escape d of
              Some e \<Rightarrow> map_option (\<lambda>(r, t). (e # r, t)) (parse_chars t) | None \<Rightarrow> None)))"

definition parse_digits :: "string \<Rightarrow> (nat \<times> string) option" where
  "parse_digits s =
     (let d = takeWhile is_digit s; t = dropWhile is_digit s in
      if d = [] \<or> (hd d = CHR ''0'' \<and> length d > 1) then None
      else if t \<noteq> [] \<and> hd t \<in> {CHR ''.'', CHR ''e'', CHR ''E''} then None
      else Some (digits_value 0 d, t))"

definition parse_number :: "string \<Rightarrow> (json \<times> string) option" where
  "parse_number s =
     (if s \<noteq> [] \<and> hd s = CHR ''-'' then map_option (\<lambda>(n, r). (Json_int (- int n), r)) (parse_digits (tl s))
      else map_option (\<lambda>(n, r). (Json_int (int n), r)) (parse_digits s))"

definition parse_word :: "string \<Rightarrow> json \<Rightarrow> string \<Rightarrow> (json \<times> string) option" where
  "parse_word w v s = (if take (length w) s = w then Some (v, drop (length w) s) else None)"

text \<open>A value; the elements of an array behind a first one; the fields of an object, before and behind
  one; \<open>acc\<close> holds what was read, reversed.\<close>

definition next_is :: "char \<Rightarrow> string \<Rightarrow> bool" where
  "next_is c s \<longleftrightarrow> (case skip_space s of [] \<Rightarrow> False | d # _ \<Rightarrow> d = c)"

abbreviation behind_next :: "string \<Rightarrow> string" where
  "behind_next s \<equiv> tl (skip_space s)"

datatype parse_mode =
    P_value
  | P_rest "json list"
  | P_field "(string \<times> json) list"
  | P_tail "(string \<times> json) list"

type_synonym json_parser = "parse_mode \<Rightarrow> string \<Rightarrow> (json \<times> string) option"

definition value_step :: "json_parser \<Rightarrow> string \<Rightarrow> (json \<times> string) option" where
  "value_step p s =
     (if next_is (CHR 0x22) s then map_option (\<lambda>(r, u). (Json_str r, u)) (parse_chars (behind_next s))
      else if next_is (CHR ''['') s then
        (if next_is (CHR '']'') (behind_next s) then Some (Json_arr [], behind_next (behind_next s))
         else Option.bind (p P_value (behind_next s)) (\<lambda>(v, u). p (P_rest [v]) u))
      else if next_is (CHR ''{'') s then
        (if next_is (CHR ''}'') (behind_next s) then Some (Json_obj [], behind_next (behind_next s))
         else p (P_field []) (behind_next s))
      else if next_is (CHR ''n'') s then parse_word ''null'' Json_null (skip_space s)
      else if next_is (CHR ''t'') s then parse_word ''true'' (Json_bool True) (skip_space s)
      else if next_is (CHR ''f'') s then parse_word ''false'' (Json_bool False) (skip_space s)
      else parse_number (skip_space s))"

definition rest_step :: "json_parser \<Rightarrow> json list \<Rightarrow> string \<Rightarrow> (json \<times> string) option" where
  "rest_step p acc s =
     (if next_is (CHR '']'') s then Some (Json_arr (rev acc), behind_next s)
      else if next_is (CHR '','') s then Option.bind (p P_value (behind_next s)) (\<lambda>(v, u). p (P_rest (v # acc)) u)
      else None)"

definition field_step :: "json_parser \<Rightarrow> (string \<times> json) list \<Rightarrow> string \<Rightarrow> (json \<times> string) option" where
  "field_step p acc s =
     (if \<not> next_is (CHR 0x22) s then None
      else Option.bind (parse_chars (behind_next s)) (\<lambda>(k, u).
        if \<not> next_is (CHR '':'') u then None
        else Option.bind (p P_value (behind_next u)) (\<lambda>(v, x). p (P_tail ((k, v) # acc)) x)))"

definition tail_step :: "json_parser \<Rightarrow> (string \<times> json) list \<Rightarrow> string \<Rightarrow> (json \<times> string) option" where
  "tail_step p acc s =
     (if next_is (CHR ''}'') s then Some (Json_obj (rev acc), behind_next s)
      else if next_is (CHR '','') s then p (P_field acc) (behind_next s)
      else None)"

primrec parse_json :: "nat \<Rightarrow> json_parser" where
  "parse_json 0 = (\<lambda>_ _. None)"
| "parse_json (Suc n) = (\<lambda>m s.
     case m of P_value \<Rightarrow> value_step (parse_json n) s | P_rest acc \<Rightarrow> rest_step (parse_json n) acc s
     | P_field acc \<Rightarrow> field_step (parse_json n) acc s | P_tail acc \<Rightarrow> tail_step (parse_json n) acc s)"

definition json_parse :: "string \<Rightarrow> json option" where
  "json_parse s = (case parse_json (Suc (length s)) P_value s of
     Some (v, t) \<Rightarrow> if skip_space t = [] then Some v else None | None \<Rightarrow> None)"

definition json_field :: "(string \<times> json) list \<Rightarrow> string \<Rightarrow> json option" where
  "json_field fs k = map_of (rev fs) k"

section \<open>Reading back what was written\<close>

lemma parse_chars_json: "parse_chars (json_chars s @ t) = Some (s, t)"
proof (induction s)
  case Nil
  show ?case by simp
next
  case (Cons c s)
  have hex: "hex_value (hex_char n) = Some n" if "n < 16" for n
    using that by (auto simp: hex_value_def hex_char_def of_char_of Let_def)
  have "of_char c div 16 < (16::nat)"
    using nat_of_char_less_256 [of c] by (simp add: less_mult_imp_div_less)
  note hexs = hex [OF this] hex [of "of_char c mod 16"]
  have zero: "hex_value (CHR ''0'') = Some 0" by code_simp
  show ?case using Cons hexs zero by (auto simp: json_escape_def simple_escape_def)
qed

definition number_end :: "string \<Rightarrow> bool" where
  "number_end s \<longleftrightarrow> (case s of [] \<Rightarrow> True | c # _ \<Rightarrow> \<not> is_digit c \<and> c \<notin> {CHR ''.'', CHR ''e'', CHR ''E''})"

lemma digit_chars_zero: "hd (digit_chars n) = CHR ''0'' \<Longrightarrow> length (digit_chars n) = 1"
proof (induction n rule: digit_chars.induct)
  case (1 n)
  show ?case
  proof (cases "n < 10")
    case False
    have ne: "digit_chars (n div 10) \<noteq> []" using digit_chars_digits by blast
    from 1(2) False ne have h: "hd (digit_chars (n div 10)) = CHR ''0''" by (subst (asm) digit_chars.simps) simp
    with 1(1) False have "length (digit_chars (n div 10)) = 1" by blast
    with h have "digit_chars (n div 10) = ''0''" by (cases "digit_chars (n div 10)") auto
    then have "n div 10 = 0" using digit_chars_value [of "n div 10"] by simp
    with False show ?thesis by simp
  qed (subst digit_chars.simps, simp)
qed

lemma parse_digits_nat:
  assumes "number_end s"
  shows "parse_digits (show_nat n @ s) = Some (n, s)"
proof -
  have d: "list_all is_digit (digit_chars n)" "digit_chars n \<noteq> []" using digit_chars_digits by auto
  have s: "no_digit_first s" using assms by (auto simp: number_end_def no_digit_first_def split: list.splits)
  have "takeWhile is_digit (digit_chars n @ s) = digit_chars n" by (rule takeWhile_digits [OF d(1) s])
  moreover then have "dropWhile is_digit (digit_chars n @ s) = s"
    by (metis append_same_eq takeWhile_dropWhile_id append_eq_append_conv)
  ultimately show ?thesis using d digit_chars_zero [of n] assms
    by (auto simp: parse_digits_def show_nat_def digit_chars_value number_end_def Let_def split: list.splits)
qed

lemma parse_number_int: "number_end s \<Longrightarrow> parse_number (show_int i @ s) = Some (Json_int i, s)"
  using show_nat_hd [of "nat i"] parse_digits_nat [of s] by (auto simp: parse_number_def show_int_def is_digit_def)

lemma number_end_rest: "number_end (stringify_rest vs @ s)" "number_end (stringify_fields fs @ s)"
  by (cases vs; simp add: number_end_def is_digit_def) (cases fs; simp add: number_end_def is_digit_def)

text \<open>What is written has no white space in front.\<close>

lemma next_is_char: "\<not> is_json_space d \<Longrightarrow> next_is c (d # s) \<longleftrightarrow> d = c" "\<not> is_json_space d \<Longrightarrow> skip_space (d # s) = d # s"
  by (simp_all add: next_is_def)

lemma json_not_space: "char_kind c \<noteq> 0 \<Longrightarrow> \<not> is_json_space c"
  by (auto simp: is_json_space_def char_kind_def is_digit_def)

lemma skip_stringify: "skip_space (stringify v @ s) = stringify v @ s"
  using stringify_kind [of v] json_kind_nonzero [of v] by (auto simp: json_not_space)

lemma next_is_stringify: "next_is c (stringify v @ s) \<longleftrightarrow> c = hd (stringify v)"
  using stringify_kind [of v] unfolding next_is_def skip_stringify by auto

lemmas parse_steps = value_step_def rest_step_def field_step_def tail_step_def

lemma json_marks: "\<not> is_json_space (CHR 0x22)" "\<not> is_json_space (CHR ''['')" "\<not> is_json_space (CHR '']'')" "\<not> is_json_space (CHR ''{'')"
  "\<not> is_json_space (CHR ''}'')" "\<not> is_json_space (CHR '','')" "\<not> is_json_space (CHR '':'')"
  by (simp_all add: is_json_space_def)

lemma Suc_le_fuel: "Suc k \<le> n \<Longrightarrow> \<exists>m. n = Suc m \<and> k \<le> m"
  by (cases n) auto

lemma parse_field_json:
  assumes "\<forall>n s. length (stringify v) \<le> n \<longrightarrow> number_end s \<longrightarrow> parse_json n P_value (stringify v @ s) = Some (v, s)"
    and "\<forall>n acc s. length (stringify_fields r) \<le> n \<longrightarrow> parse_json n (P_tail acc) (stringify_fields r @ s) = Some (Json_obj (rev acc @ r), s)"
    and "length (stringify v) + length (stringify_fields r) < n"
  shows "parse_json n (P_field acc) (json_string k @ CHR '':'' # stringify v @ stringify_fields r @ s) = Some (Json_obj (rev acc @ (k, v) # r), s)"
proof -
  obtain m where m: "n = Suc m" "length (stringify v) \<le> m" "length (stringify_fields r) \<le> m" using assms(3) by (cases n) auto
  have v: "parse_json m P_value (stringify v @ stringify_fields r @ s) = Some (v, stringify_fields r @ s)"
    using assms(1) m(2) number_end_rest(2) by blast
  have r: "parse_json m (P_tail ((k, v) # acc)) (stringify_fields r @ s) = Some (Json_obj (rev acc @ (k, v) # r), s)"
    using assms(2) m(3) by simp
  show ?thesis
    by (simp add: m(1) field_step_def json_string_def next_is_char json_marks parse_chars_json v r del: append.simps(2))
       (simp add: next_is_char json_marks parse_chars_json v r)
qed

lemma parse_stringify_all:
  "\<forall>n s. length (stringify v) \<le> n \<longrightarrow> number_end s \<longrightarrow> parse_json n P_value (stringify v @ s) = Some (v, s)"
  "\<forall>n acc s. length (stringify_rest vs) \<le> n \<longrightarrow> parse_json n (P_rest acc) (stringify_rest vs @ s) = Some (Json_arr (rev acc @ vs), s)"
  "\<forall>n acc s. length (stringify_fields fs) \<le> n \<longrightarrow> parse_json n (P_tail acc) (stringify_fields fs @ s) = Some (Json_obj (rev acc @ fs), s)"
proof (induction v and vs and fs rule: stringify_stringify_rest_stringify_fields.induct)
  case 1
  show ?case
    by (auto dest!: Suc_le_fuel simp: parse_steps next_is_char is_json_space_def parse_word_def)
next
  case (2 b)
  show ?case
    by (cases b) (auto dest!: Suc_le_fuel simp: parse_steps next_is_char is_json_space_def parse_word_def)
next
  case (3 i)
  show ?case
  proof (intro allI impI)
    fix n s
    assume n: "length (stringify (Json_int i)) \<le> n" and s: "number_end s"
    obtain c r where c: "stringify (Json_int i) = c # r" "char_kind c = 4" using stringify_kind [of "Json_int i"] by auto
    with n obtain m where m: "n = Suc m" by (cases n) auto
    have "\<not> next_is d (stringify (Json_int i) @ s)" if "char_kind d \<noteq> 4" for d
      using that c unfolding next_is_stringify by auto
    then show "parse_json n P_value (stringify (Json_int i) @ s) = Some (Json_int i, s)"
      using parse_number_int [OF s, of i] skip_stringify [of "Json_int i" s]
      by (simp add: m value_step_def char_kind_def is_digit_def)
  qed
next
  case (4 a)
  show ?case by (auto dest!: Suc_le_fuel simp: json_string_def parse_steps next_is_char json_marks parse_chars_json)
next
  case (5 vs)
  show ?case
  proof (cases vs)
    case Nil
    then show ?thesis by (auto dest!: Suc_le_fuel simp: parse_steps next_is_char json_marks)
  next
    case (Cons v r)
    have "hd (stringify v) \<noteq> CHR '']''" using stringify_not_close [of v "[]"] stringify_kind [of v] by force
    then show ?thesis using 5 [OF Cons] number_end_rest(1)
      by (auto dest!: Suc_le_fuel simp: Cons parse_steps next_is_char json_marks next_is_stringify)
  qed
next
  case (6 fs)
  show ?case
  proof (cases fs)
    case Nil
    then show ?thesis by (auto dest!: Suc_le_fuel simp: parse_steps next_is_char json_marks)
  next
    case (Cons f r)
    note field = parse_field_json [OF 6 [OF Cons], where k = "fst f" and acc = "[]"]
    show ?thesis
    proof (intro allI impI)
      fix n s
      assume "length (stringify (Json_obj fs)) \<le> n"
      then obtain m where m: "n = Suc m" "length (stringify (snd f)) + length (stringify_fields r) < m"
        by (cases n) (auto simp: Cons)
      have "\<not> next_is (CHR ''}'') (json_string (fst f) @ t)" for t by (simp add: json_string_def next_is_char json_marks)
      with field [OF m(2), of s] show "parse_json n P_value (stringify (Json_obj fs) @ s) = Some (Json_obj fs, s)"
        by (simp add: m(1) Cons value_step_def next_is_char json_marks)
    qed
  qed
next
  case 7
  show ?case by (auto dest!: Suc_le_fuel simp: parse_steps next_is_char json_marks)
next
  case (8 v vs)
  show ?case using 8 number_end_rest(1) by (auto dest!: Suc_le_fuel simp: parse_steps next_is_char json_marks)
next
  case 9
  show ?case by (auto dest!: Suc_le_fuel simp: parse_steps next_is_char json_marks)
next
  case (10 f fs)
  show ?case
  proof (intro allI impI)
    fix n acc s
    assume "length (stringify_fields (f # fs)) \<le> n"
    then obtain m where m: "n = Suc m" "length (stringify (snd f)) + length (stringify_fields fs) < m"
      by (cases n) auto
    from parse_field_json [OF 10 m(2), where k = "fst f" and acc = acc and s = s]
    show "parse_json n (P_tail acc) (stringify_fields (f # fs) @ s) = Some (Json_obj (rev acc @ f # fs), s)"
      by (simp add: m(1) tail_step_def next_is_char json_marks)
  qed
qed

text \<open>Every serialised value is parsed back, so \<open>JSON.parse\<close> inverts \<open>JSON.stringify\<close>.\<close>

lemma json_parse_stringify: "json_parse (stringify v) = Some v"
proof -
  have "parse_json (Suc (length (stringify v))) P_value (stringify v @ []) = Some (v, [])"
    by (rule parse_stringify_all(1) [rule_format]) (simp_all add: number_end_def)
  then show ?thesis by (simp add: json_parse_def del: parse_json.simps)
qed

end
