(* ===== verification/Journal.thy ===== *)
theory Journal
  imports Json_Parse
begin

text \<open>
  The durable cleanup journal, \<^verbatim>\<open>worktrees/journal.ts\<close>. The file is its text (\<open>None\<close> when it does
  not exist); \<open>append\<close> adds one JSON line, \<open>replay\<close> reads the lines back. Reading a line is the argument
  \<open>parse\<close>, SHA-256 is \<open>sha\<close>. Where it is needed, it is a hypothesis that a written line is read back, for
  entries that \<open>JSON.parse\<close> can reproduce (\<open>proper\<close>): safe integers, and objects whose keys are distinct and
  in the order in which JavaScript lists them. The parser of \<open>Json_Parse\<close> has that property. A step's side
  effect is a function on the state of the world; it does not write to the journal itself.
\<close>

datatype step_state = Started | Completed | Rolled_back

record journal_entry =
  j_jobId :: string
  j_worktreeId :: string
  j_seq :: int
  j_step :: string
  j_state :: step_state
  j_inputDigest :: "string option"
  j_result :: "(string \<times> json) list option"
  j_at :: string

type_synonym journal_file = "string option"
type_synonym line_parser = "string \<Rightarrow> journal_entry option"

fun step_state_name :: "step_state \<Rightarrow> string" where
  "step_state_name Started = ''started''"
| "step_state_name Completed = ''completed''"
| "step_state_name Rolled_back = ''rolled_back''"

definition entry_json :: "journal_entry \<Rightarrow> json" where
  "entry_json e = Json_obj (
     [(''jobId'', Json_str (j_jobId e)), (''worktreeId'', Json_str (j_worktreeId e)),
      (''seq'', Json_int (j_seq e)), (''step'', Json_str (j_step e)),
      (''state'', Json_str (step_state_name (j_state e)))]
     @ (case j_inputDigest e of None \<Rightarrow> [] | Some d \<Rightarrow> [(''inputDigest'', Json_str d)])
     @ (case j_result e of None \<Rightarrow> [] | Some r \<Rightarrow> [(''result'', Json_obj r)])
     @ [(''at'', Json_str (j_at e))])"

definition journal_line :: "journal_entry \<Rightarrow> string" where
  "journal_line e = stringify (entry_json e)"

definition journal_append :: "journal_entry \<Rightarrow> journal_file \<Rightarrow> journal_file" where
  "journal_append e file =
     Some ((case file of None \<Rightarrow> [] | Some raw \<Rightarrow> raw) @ journal_line e @ [CHR 0x0A])"

abbreviation split_lines :: "string \<Rightarrow> string list" where
  "split_lines s \<equiv> split_on (CHR 0x0A) s"

definition parse_lines :: "line_parser \<Rightarrow> string list \<Rightarrow> journal_entry list" where
  "parse_lines parse ls = List.map_filter (\<lambda>l. if length l = 0 then None else parse l) ls"

definition replay :: "line_parser \<Rightarrow> journal_file \<Rightarrow> journal_entry list" where
  "replay parse file = (case file of None \<Rightarrow> [] | Some raw \<Rightarrow> parse_lines parse (split_lines raw))"

definition completed_step ::
  "string \<Rightarrow> (string \<Rightarrow> string option) option \<Rightarrow> journal_entry \<Rightarrow> (string \<rightharpoonup> journal_entry) \<Rightarrow> (string \<rightharpoonup> journal_entry)" where
  "completed_step jobId inputDigests entry done =
     (if j_jobId entry \<noteq> jobId then done
      else if j_state entry = Rolled_back then done(j_step entry := None)
      else if j_state entry \<noteq> Completed then done
      else if (case inputDigests of None \<Rightarrow> False | Some d \<Rightarrow> j_inputDigest entry \<noteq> d (j_step entry)) then done
      else done(j_step entry \<mapsto> entry))"

definition completedSteps ::
  "line_parser \<Rightarrow> string \<Rightarrow> (string \<Rightarrow> string option) option \<Rightarrow> journal_file \<Rightarrow> (string \<rightharpoonup> journal_entry)" where
  "completedSteps parse jobId inputDigests file =
     fold (completed_step jobId inputDigests) (replay parse file) Map.empty"

definition last_seq_of :: "string \<Rightarrow> journal_entry list \<Rightarrow> int" where
  "last_seq_of jobId es = fold (\<lambda>e seq. if j_jobId e = jobId then max seq (j_seq e) else seq) es 0"

definition lastSeq :: "line_parser \<Rightarrow> string \<Rightarrow> journal_file \<Rightarrow> int" where
  "lastSeq parse jobId file = last_seq_of jobId (replay parse file)"

definition latestSteps :: "line_parser \<Rightarrow> string \<Rightarrow> journal_file \<Rightarrow> (string \<rightharpoonup> journal_entry)" where
  "latestSteps parse jobId file =
     fold (\<lambda>e latest. if j_jobId e = jobId then latest(j_step e \<mapsto> e) else latest) (replay parse file) Map.empty"

definition digestOf :: "(string \<Rightarrow> string) \<Rightarrow> json option \<Rightarrow> string" where
  "digestOf sha value = sha (stringify (case value of None \<Rightarrow> Json_null | Some v \<Rightarrow> v))"

record step_input =
  si_jobId :: string
  si_worktreeId :: string
  si_step :: string
  si_stepInputs :: "json option"

definition input_digest :: "(string \<Rightarrow> string) \<Rightarrow> step_input \<Rightarrow> string option" where
  "input_digest sha input =
     (case si_stepInputs input of None \<Rightarrow> None | Some v \<Rightarrow> Some (digestOf sha (Some v)))"

text \<open>An empty digest text is falsy: it neither filters nor is recorded.\<close>

definition truthy_digest :: "string option \<Rightarrow> string option" where
  "truthy_digest d = (case d of Some (c # s) \<Rightarrow> Some (c # s) | _ \<Rightarrow> None)"

definition step_entry ::
  "step_input \<Rightarrow> string option \<Rightarrow> int \<Rightarrow> step_state \<Rightarrow> (string \<times> json) list option \<Rightarrow> string \<Rightarrow> journal_entry" where
  "step_entry input d seq st res at =
     \<lparr>j_jobId = si_jobId input, j_worktreeId = si_worktreeId input, j_seq = seq, j_step = si_step input,
      j_state = st, j_inputDigest = truthy_digest d, j_result = res, j_at = at\<rparr>"

text \<open>\<open>fn\<close> acts on the world and returns a result object or throws; \<open>at1\<close> and \<open>at2\<close> are the two
  clock readings.\<close>

definition runJournaledStep ::
  "line_parser \<Rightarrow> (string \<Rightarrow> string) \<Rightarrow> string \<Rightarrow> string \<Rightarrow> step_input
     \<Rightarrow> ('w \<Rightarrow> ('e + (string \<times> json) list) \<times> 'w) \<Rightarrow> journal_file \<times> 'w
     \<Rightarrow> ('e + (string \<times> json) list) \<times> journal_file \<times> 'w" where
  "runJournaledStep parse sha at1 at2 input fn fw =
     (let d = input_digest sha input;
          dig = map_option (\<lambda>x. (\<lambda>k. if k = si_step input then Some x else None)) (truthy_digest d);
          prior = completedSteps parse (si_jobId input) dig (fst fw) (si_step input) in
      case (case prior of None \<Rightarrow> None | Some e \<Rightarrow> j_result e) of
        Some r \<Rightarrow> (Inr r, fw)
      | None \<Rightarrow>
          (let seq = lastSeq parse (si_jobId input) (fst fw) + 1;
               file1 = journal_append (step_entry input d seq Started None at1) (fst fw) in
           case fn (snd fw) of
             (Inl e, w1) \<Rightarrow> (Inl e, file1, w1)
           | (Inr r, w1) \<Rightarrow>
               (Inr r, journal_append (step_entry input d (seq + 1) Completed (Some r) at2) file1, w1)))"

section \<open>Lines\<close>

lemma journal_line_no_newline: "CHR 0x0A \<notin> set (journal_line e)"
  by (simp add: journal_line_def stringify_no_newline)

lemma journal_line_nonempty: "journal_line e \<noteq> []"
  by (simp add: journal_line_def entry_json_def)

lemma parse_lines_append: "parse_lines parse (a @ b) = parse_lines parse a @ parse_lines parse b"
  by (simp add: parse_lines_def map_filter_def)

section \<open>Replay\<close>

text \<open>A file whose last line is finished: only such files result from completed appends.\<close>

definition whole_lines :: "journal_file \<Rightarrow> bool" where
  "whole_lines file \<longleftrightarrow> (case file of None \<Rightarrow> True | Some raw \<Rightarrow> raw = [] \<or> last raw = CHR 0x0A)"

lemma whole_lines_cases:
  assumes "whole_lines file"
  shows "file = None \<or> file = Some [] \<or> (\<exists>raw. file = Some (raw @ [CHR 0x0A]))"
proof -
  have "raw = butlast raw @ [CHR 0x0A]" if "raw \<noteq> []" "last raw = CHR 0x0A" for raw
    using append_butlast_last_id [OF that(1)] that(2) by simp
  with assms show ?thesis by (auto simp: whole_lines_def split: option.splits)
qed

lemma whole_linesE:
  assumes "whole_lines file"
  obtains (no_text) "file = None \<or> file = Some []" | (lines) raw where "file = Some (raw @ [CHR 0x0A])"
  using whole_lines_cases [OF assms] by blast

text \<open>Data that survives \<open>JSON.stringify\<close> and \<open>JSON.parse\<close>: keys that are array indices come first, in ascending
  order, then the others; no key is repeated; integers are safe.\<close>

definition index_key :: "string \<Rightarrow> bool" where
  "index_key k \<longleftrightarrow> k \<noteq> [] \<and> list_all is_digit k \<and> (k = ''0'' \<or> hd k \<noteq> CHR ''0'') \<and> digits_value 0 k < 2 ^ 32 - 1"

definition object_keys :: "string list \<Rightarrow> bool" where
  "object_keys ks \<longleftrightarrow> distinct ks \<and> sorted (map (digits_value 0) (takeWhile index_key ks)) \<and> \<not> list_ex index_key (dropWhile index_key ks)"

fun js_data :: "json \<Rightarrow> bool" where
  "js_data (Json_int i) \<longleftrightarrow> \<bar>i\<bar> < 2 ^ 53"
| "js_data (Json_arr vs) \<longleftrightarrow> (\<forall>v\<in>set vs. js_data v)"
| "js_data (Json_obj fs) \<longleftrightarrow> object_keys (map fst fs) \<and> (\<forall>kv\<in>set fs. js_data (snd kv))"
| "js_data _ \<longleftrightarrow> True"

definition proper :: "journal_entry \<Rightarrow> bool" where
  "proper e \<longleftrightarrow> \<bar>j_seq e\<bar> < 2 ^ 53 \<and> (case j_result e of None \<Rightarrow> True | Some r \<Rightarrow> js_data (Json_obj r))"

text \<open>The contract between the writer and the reader of lines.\<close>

locale line_codec =
  fixes parse :: line_parser
  assumes read_back: "proper e \<Longrightarrow> parse (journal_line e) = Some e"
begin

lemma parse_line: "proper e \<Longrightarrow> parse_lines parse [journal_line e] = [e]"
  by (simp add: parse_lines_def map_filter_def journal_line_nonempty read_back)

lemma replay_journal_append:
  assumes "whole_lines file" and "proper e"
  shows "replay parse (journal_append e file) = replay parse file @ [e]"
proof -
  have one: "split_lines (journal_line e @ [CHR 0x0A]) = [journal_line e, []]"
    using split_on_line [OF journal_line_no_newline, of e "[]"] by simp
  have nil: "parse_lines parse [[]] = []" by (simp add: parse_lines_def map_filter_def)
  have two: "parse_lines parse [journal_line e, []] = [e]"
    using parse_lines_append [of parse "[journal_line e]" "[[]]"] parse_line [OF assms(2)] nil by simp
  from assms(1) show ?thesis
  proof (cases rule: whole_linesE)
    case no_text
    then show ?thesis using one two nil
      by (auto simp: replay_def journal_append_def)
  next
    case (lines raw)
    then show ?thesis
      using split_on_append [of "CHR 0x0A" raw "journal_line e @ [CHR 0x0A]"] split_on_append [of "CHR 0x0A" raw "[]"] one two nil
      by (simp add: replay_def journal_append_def parse_lines_append)
  qed
qed

end

lemma whole_lines_append [simp]: "whole_lines (journal_append e file)"
  by (simp add: whole_lines_def journal_append_def)

lemma whole_lines_fold: "whole_lines f \<Longrightarrow> whole_lines (fold journal_append es f)"
  by (induction es arbitrary: f) simp_all

context line_codec begin

lemma replay_fold: "whole_lines f \<Longrightarrow> list_all proper es \<Longrightarrow> replay parse (fold journal_append es f) = replay parse f @ es"
  by (induction es arbitrary: f) (simp_all add: replay_journal_append)

end

text \<open>Reading a line with the JSON parser; a text that is no entry of the journal is skipped.\<close>

definition state_of :: "string \<Rightarrow> step_state option" where
  "state_of s = find (\<lambda>st. step_state_name st = s) [Started, Completed, Rolled_back]"

definition entry_of :: "(string \<times> json) list \<Rightarrow> journal_entry option" where
  "entry_of fs =
     (case map (json_field fs) [''jobId'', ''worktreeId'', ''seq'', ''step'', ''state'', ''at''] of
        [Some (Json_str job), Some (Json_str wt), Some (Json_int seq), Some (Json_str step), Some (Json_str st), Some (Json_str at)] \<Rightarrow>
          map_option (\<lambda>st. \<lparr>j_jobId = job, j_worktreeId = wt, j_seq = seq, j_step = step, j_state = st,
            j_inputDigest = (case json_field fs ''inputDigest'' of Some (Json_str d) \<Rightarrow> Some d | _ \<Rightarrow> None),
            j_result = (case json_field fs ''result'' of Some (Json_obj r) \<Rightarrow> Some r | _ \<Rightarrow> None), j_at = at\<rparr>) (state_of st)
      | _ \<Rightarrow> None)"

definition parse_entry :: line_parser where
  "parse_entry l = (case json_parse l of Some (Json_obj fs) \<Rightarrow> entry_of fs | _ \<Rightarrow> None)"

interpretation entries: line_codec parse_entry
proof
  fix e :: journal_entry
  have "state_of (step_state_name st) = Some st" for st by (cases st) (simp_all add: state_of_def)
  then have "(case entry_json e of Json_obj fs \<Rightarrow> entry_of fs | _ \<Rightarrow> None) = Some e"
    by (simp add: entry_json_def entry_of_def json_field_def split: option.split)
  then show "parse_entry (journal_line e) = Some e"
    by (simp only: parse_entry_def journal_line_def json_parse_stringify option.case)
qed

text \<open>Appending any sequence of entries to a missing journal and replaying it gives back
  exactly these entries in order.\<close>

theorem journal_round_trip:
  assumes "\<forall>e. proper e \<longrightarrow> parse (journal_line e) = Some e" and "list_all proper es"
  shows "replay parse (fold journal_append es None) = es"
proof -
  from assms(1) have "line_codec parse" by (simp add: line_codec_def)
  from line_codec.replay_fold [OF this _ assms(2), of None] show ?thesis by (simp add: whole_lines_def replay_def)
qed

section \<open>Completed steps\<close>

text \<open>The entries that decide whether a step counts as done.\<close>

definition decides :: "string \<Rightarrow> (string \<Rightarrow> string option) option \<Rightarrow> string \<Rightarrow> journal_entry \<Rightarrow> bool" where
  "decides jobId dig k e \<longleftrightarrow> j_jobId e = jobId \<and> j_step e = k
     \<and> (j_state e = Rolled_back \<or> j_state e = Completed \<and> (\<forall>d. dig = Some d \<longrightarrow> j_inputDigest e = d k))"

definition last_decision :: "journal_entry list \<Rightarrow> journal_entry option" where
  "last_decision es = (if es = [] \<or> j_state (last es) = Rolled_back then None else Some (last es))"

lemma fold_completed_step:
  "fold (completed_step jobId dig) es Map.empty k = last_decision (filter (decides jobId dig k) es)"
proof (induction es rule: rev_induct)
  case Nil
  then show ?case by (simp add: last_decision_def)
next
  case (snoc e es)
  show ?case
    using snoc.IH
    by (auto simp: completed_step_def decides_def last_decision_def split: option.splits)
qed

lemma completedSteps_eq:
  "completedSteps parse jobId dig file k = last_decision (filter (decides jobId dig k) (replay parse file))"
  by (simp add: completedSteps_def fold_completed_step)

text \<open>A step counts as completed exactly when, among the job's entries for that step, the
  last one that is a rollback or a completion with the same input digest is a completion; that
  entry is the one reported.\<close>

theorem completedSteps_last_decision:
  "completedSteps parse jobId dig file k =
     (let ds = filter (decides jobId dig k) (replay parse file) in
      if ds = [] \<or> j_state (last ds) = Rolled_back then None else Some (last ds))"
  by (simp add: completedSteps_eq last_decision_def Let_def)

section \<open>Running a step\<close>

lemma truthy_digest_idem: "truthy_digest (truthy_digest d) = truthy_digest d"
  by (simp add: truthy_digest_def split: option.splits list.splits)

text \<open>What a call finds: the recorded result of the step, if its last decisive entry is a completion.\<close>

definition recorded ::
  "line_parser \<Rightarrow> (string \<Rightarrow> string) \<Rightarrow> step_input \<Rightarrow> journal_file \<Rightarrow> (string \<times> json) list option" where
  "recorded parse sha input file =
     (case last_decision (filter (decides (si_jobId input)
        (map_option (\<lambda>x. (\<lambda>k. if k = si_step input then Some x else None)) (truthy_digest (input_digest sha input))) (si_step input)) (replay parse file)) of
        None \<Rightarrow> None | Some e \<Rightarrow> j_result e)"

lemma run_recorded: "recorded parse sha input file = Some r \<Longrightarrow> runJournaledStep parse sha at1 at2 input fn (file, w) = (Inr r, file, w)"
  by (simp add: recorded_def runJournaledStep_def completedSteps_eq Let_def)

lemma run_unrecorded:
  "recorded parse sha input file = None \<Longrightarrow> fst (runJournaledStep parse sha at1 at2 input fn (file, w)) = fst (fn w)
     \<and> snd (snd (runJournaledStep parse sha at1 at2 input fn (file, w))) = snd (fn w)"
  by (simp add: recorded_def runJournaledStep_def completedSteps_eq Let_def split: prod.split sum.split)

lemma last_seq_of_nonneg: "0 \<le> last_seq_of jobId es"
  unfolding last_seq_of_def by (induction es rule: rev_induct) auto

text \<open>After a call that succeeded, the result is recorded.\<close>

lemma run_records:
  assumes lc: "line_codec parse" and "whole_lines file" and "js_data (Json_obj r)" and "lastSeq parse (si_jobId input) file + 2 < 2 ^ 53"
    and run: "runJournaledStep parse sha at1 at2 input fn (file, w) = (Inr r, file', w')"
  shows "recorded parse sha input file' = Some r \<and> whole_lines file'"
proof (cases "recorded parse sha input file")
  case None
  let ?d = "input_digest sha input" and ?s = "lastSeq parse (si_jobId input) file"
  let ?dig = "map_option (\<lambda>x. (\<lambda>k. if k = si_step input then Some x else None)) (truthy_digest ?d)"
  define s1 where "s1 = step_entry input ?d (?s + 1) Started None at1"
  define s2 where "s2 = step_entry input ?d (?s + 1 + 1) Completed (Some r) at2"
  have f': "file' = fold journal_append [s1, s2] file"
    using run None by (auto simp: recorded_def completedSteps_eq runJournaledStep_def Let_def s1_def s2_def split: prod.splits sum.splits)
  have "list_all proper [s1, s2]"
    using assms(3,4) last_seq_of_nonneg [of "si_jobId input" "replay parse file"]
    by (simp add: proper_def s1_def s2_def step_entry_def lastSeq_def)
  then have "replay parse file' = replay parse file @ [s1, s2]" unfolding f' by (rule line_codec.replay_fold [OF lc assms(2)])
  moreover have "decides (si_jobId input) ?dig (si_step input) s2" "\<not> decides (si_jobId input) ?dig (si_step input) s1"
    "j_state s2 = Completed" "j_result s2 = Some r"
    by (auto simp: decides_def s1_def s2_def step_entry_def)
  ultimately show ?thesis using whole_lines_fold [OF assms(2), of "[s1, s2]"] by (simp add: recorded_def last_decision_def f')
next
  case (Some a)
  from run_recorded [OF Some, of at1 at2 fn w] run Some assms(2) show ?thesis by simp
qed

text \<open>C20: after a call that succeeded, whatever was journaled since, a call with the same inputs returns the recorded
  result and touches neither the world nor the journal, whatever its function is, as long as nothing but starts
  of that step was journaled for the job; after a rollback of the step was journaled, the next call runs its function. The journal
  had no unfinished line, the result and the entries are data that \<open>JSON.parse\<close> reproduces, and their sequence numbers
  are safe integers.\<close>

theorem journaled_step_runs_once:
  assumes "\<forall>e. proper e \<longrightarrow> parse (journal_line e) = Some e" and "whole_lines file"
    and "js_data (Json_obj r)" and "lastSeq parse (si_jobId input) file + 2 < 2 ^ 53"
    and "runJournaledStep parse sha at1 at2 input fn (file, w) = (Inr r, file', w')"
    and "list_all proper es" and "now = fold journal_append es file'"
  shows "(list_all (\<lambda>e. j_jobId e = si_jobId input \<and> j_step e = si_step input \<longrightarrow> j_state e = Started) es
      \<longrightarrow> runJournaledStep parse sha at3 at4 input fn' (now, v) = (Inr r, now, v))
    \<and> (proper undo \<and> j_jobId undo = si_jobId input \<and> j_step undo = si_step input \<and> j_state undo = Rolled_back
      \<longrightarrow> fst (runJournaledStep parse sha at3 at4 input fn' (journal_append undo now, v)) = fst (fn' v)
        \<and> snd (snd (runJournaledStep parse sha at3 at4 input fn' (journal_append undo now, v))) = snd (fn' v))"
proof -
  from assms(1) have lc: "line_codec parse" by (simp add: line_codec_def)
  let ?dec = "decides (si_jobId input) (map_option (\<lambda>x. (\<lambda>k. if k = si_step input then Some x else None)) (truthy_digest (input_digest sha input))) (si_step input)"
  note rec = run_records [OF lc assms(2,3,4,5)]
  have now: "replay parse now = replay parse file' @ es" "whole_lines now"
    unfolding assms(7) using line_codec.replay_fold [OF lc _ assms(6)] whole_lines_fold rec by blast+
  have "recorded parse sha input now = Some r"
    if "list_all (\<lambda>e. j_jobId e = si_jobId input \<and> j_step e = si_step input \<longrightarrow> j_state e = Started) es"
  proof -
    have "filter ?dec es = []" using that by (fastforce simp: filter_empty_conv decides_def list_all_iff)
    then show ?thesis using rec by (simp add: recorded_def now(1))
  qed
  moreover have "recorded parse sha input (journal_append undo now) = None"
    if "proper undo" "j_jobId undo = si_jobId input" "j_step undo = si_step input" "j_state undo = Rolled_back"
    using line_codec.replay_journal_append [OF lc now(2) that(1)] that(2-4) by (simp add: recorded_def last_decision_def decides_def)
  ultimately show ?thesis using run_recorded [of parse sha input now r at3 at4 fn' v]
      run_unrecorded [of parse sha input "journal_append undo now" at3 at4 fn' v] by blast
qed

section \<open>Sequence numbers\<close>

definition job_seqs :: "string \<Rightarrow> journal_entry list \<Rightarrow> int list" where
  "job_seqs jobId es = map j_seq (filter (\<lambda>e. j_jobId e = jobId) es)"

lemma last_seq_of_bound: "x \<in> set (job_seqs jobId es) \<Longrightarrow> x \<le> last_seq_of jobId es"
proof (induction es rule: rev_induct)
  case Nil
  then show ?case by (simp add: job_seqs_def)
next
  case (snoc e es)
  then show ?case by (fastforce simp: job_seqs_def last_seq_of_def)
qed

text \<open>The sequence numbers of every job stay strictly increasing along the journal when a
  step runs, whether its function succeeds or throws.\<close>

theorem journaled_step_seqs_increase:
  assumes "\<forall>e. proper e \<longrightarrow> parse (journal_line e) = Some e" and "whole_lines file"
    and "lastSeq parse (si_jobId input) file + 2 < 2 ^ 53" and "\<forall>x. r = Inr x \<longrightarrow> js_data (Json_obj x)"
    and "sorted_wrt (<) (job_seqs job (replay parse file))"
    and "runJournaledStep parse sha at1 at2 input fn (file, w) = (r, file', w')"
  shows "sorted_wrt (<) (job_seqs job (replay parse file')) \<and> whole_lines file'"
proof -
  from assms(1) have lc: "line_codec parse" by (simp add: line_codec_def)
  let ?d = "input_digest sha input" and ?s = "lastSeq parse (si_jobId input) file"
  define s1 where "s1 = step_entry input ?d (?s + 1) Started None at1"
  define s2 where "s2 = (\<lambda>r. step_entry input ?d (?s + 1 + 1) Completed (Some r) at2)"
  have fields: "j_jobId s1 = si_jobId input" "j_seq s1 = ?s + 1"
    "\<And>r. j_jobId (s2 r) = si_jobId input" "\<And>r. j_seq (s2 r) = ?s + 2"
    by (simp_all add: s1_def s2_def step_entry_def)
  have "file' = file \<or> file' = journal_append s1 file
      \<or> (\<exists>x. r = Inr x \<and> file' = journal_append (s2 x) (journal_append s1 file))"
    using assms(6) by (auto simp: runJournaledStep_def Let_def s1_def s2_def split: prod.splits sum.splits option.splits)
  moreover have "proper s1" "js_data (Json_obj x) \<Longrightarrow> proper (s2 x)" for x
    using assms(3) last_seq_of_nonneg [of "si_jobId input" "replay parse file"]
    by (simp_all add: proper_def s1_def s2_def step_entry_def lastSeq_def)
  ultimately have "whole_lines file' \<and> (replay parse file' = replay parse file \<or> replay parse file' = replay parse file @ [s1]
      \<or> (\<exists>x. replay parse file' = replay parse file @ [s1, s2 x]))"
    using line_codec.replay_journal_append [OF lc] assms(2,4) by auto
  moreover have "sorted_wrt (<) (job_seqs job (replay parse file @ [s1]))
      \<and> (\<forall>x. sorted_wrt (<) (job_seqs job (replay parse file @ [s1, s2 x])))"
    using assms(5) last_seq_of_bound [of _ job "replay parse file"] fields
    by (fastforce simp: job_seqs_def sorted_wrt_append lastSeq_def)
  ultimately show ?thesis using assms(5) by auto
qed

section \<open>A torn line\<close>

text \<open>When a crash leaves an unfinished line, the next appended entry is joined to it and,
  since the joined line is not JSON, replay loses that entry as well. A rollback appended
  there is lost, so the step it undid still counts as completed: the source calls skipping a
  torn line the safe direction.\<close>

theorem torn_line_swallows_next_entry:
  assumes "whole_lines file" and "torn \<noteq> []" and "CHR 0x0A \<notin> set torn"
    and "parse (torn @ journal_line e) = None" and "parse torn = None"
  shows "replay parse (journal_append e (Some ((case file of None \<Rightarrow> [] | Some raw \<Rightarrow> raw) @ torn)))
     = replay parse file"
proof -
  have t: "split_lines ((torn @ journal_line e) @ [CHR 0x0A]) = [torn @ journal_line e, []]"
    using split_on_line [of "CHR 0x0A" "torn @ journal_line e" "[]"] assms(3) journal_line_no_newline by simp
  have nil: "parse_lines parse [[]] = []" and bad: "parse_lines parse [torn @ journal_line e, []] = []"
    using assms(4) by (simp_all add: parse_lines_def map_filter_def)
  from assms(1) show ?thesis
  proof (cases rule: whole_linesE)
    case no_text
    then show ?thesis using t nil bad by (auto simp: replay_def journal_append_def)
  next
    case (lines raw)
    then show ?thesis
      using split_on_append [of "CHR 0x0A" raw "(torn @ journal_line e) @ [CHR 0x0A]"] split_on_append [of "CHR 0x0A" raw "[]"] t nil bad
      by (simp add: replay_def journal_append_def parse_lines_append)
  qed
qed

subsection \<open>Concrete runs\<close>

definition sample_step :: step_input where
  "sample_step = \<lparr>si_jobId = ''j'', si_worktreeId = ''w'', si_step = ''quarantine'', si_stepInputs = None\<rparr>"

definition sample_done :: journal_entry where
  "sample_done = step_entry sample_step None 2 Completed (Some []) ''t''"

definition sample_rollback :: journal_entry where
  "sample_rollback = step_entry sample_step None 3 Rolled_back None ''t''"

lemma entries_read_back: "\<forall>e. proper e \<longrightarrow> parse_entry (journal_line e) = Some e"
  by (simp add: entries.read_back)

theorem journal_round_trip_witness:
  "replay parse_entry (fold journal_append [sample_done, sample_rollback] None) = [sample_done, sample_rollback]"
  by (rule journal_round_trip [OF entries_read_back]) (simp add: proper_def sample_done_def sample_rollback_def step_entry_def object_keys_def)

lemma sample_journal_run:
  "runJournaledStep parse_entry id ''t'' ''t'' sample_step (\<lambda>n. (Inr [], Suc n)) (None, 0)
     = (Inr [], journal_append sample_done
          (journal_append (step_entry sample_step None 1 Started None ''t'') None), 1)"
  by (simp add: runJournaledStep_def completedSteps_def replay_def lastSeq_def last_seq_of_def
      sample_done_def sample_step_def input_digest_def Let_def)

lemma whole_lines_None: "whole_lines None" by (simp add: whole_lines_def)

lemma no_seqs: "lastSeq parse job None + 2 < 2 ^ 53"
  by (simp add: lastSeq_def replay_def last_seq_of_def)

text \<open>The step ran; another job's entry follows; the second call counts nothing. After the rollback it does.\<close>

theorem journaled_step_runs_once_witness:
  "\<exists>file. runJournaledStep parse_entry id ''t'' ''t'' sample_step (\<lambda>n. (Inr [], Suc n)) (None, 0) = (Inr [], file, 1)
     \<and> (let file = journal_append (sample_done\<lparr>j_jobId := ''k''\<rparr>) file in
         runJournaledStep parse_entry id ''u'' ''u'' sample_step (\<lambda>n. (Inl (), n + 7)) (file, 1 :: nat) = (Inr [], file, 1)
       \<and> snd (snd (runJournaledStep parse_entry id ''u'' ''u'' sample_step (\<lambda>n. (Inl (), n + 7)) (journal_append sample_rollback file, 1 :: nat))) = 8)"
proof -
  have js: "js_data (Json_obj [])" by (simp add: object_keys_def)
  have es: "list_all proper [sample_done\<lparr>j_jobId := ''k''\<rparr>]" and undo: "proper sample_rollback"
    by (simp_all add: proper_def sample_done_def sample_rollback_def step_entry_def object_keys_def)
  note once = journaled_step_runs_once [OF entries_read_back whole_lines_None js no_seqs sample_journal_run es refl,
      of "''u''" "''u''" "\<lambda>n. (Inl (), n + 7)" "1 :: nat" sample_rollback]
  moreover have "j_jobId sample_rollback = si_jobId sample_step" "j_step sample_rollback = si_step sample_step" "j_state sample_rollback = Rolled_back"
    "si_jobId sample_step \<noteq> ''k''" by (simp_all add: sample_rollback_def step_entry_def sample_step_def)
  ultimately show ?thesis using undo sample_journal_run by (auto simp: Let_def)
qed

theorem journaled_step_seqs_increase_witness:
  "sorted_wrt (<) (job_seqs ''j'' (replay parse_entry (journal_append sample_done
     (journal_append (step_entry sample_step None 1 Started None ''t'') None))))"
proof -
  have "sorted_wrt (<) (job_seqs ''j'' (replay parse_entry None))" by (simp add: replay_def job_seqs_def)
  moreover have "\<forall>x. (Inr [] :: unit + (string \<times> json) list) = Inr x \<longrightarrow> js_data (Json_obj x)" by (simp add: object_keys_def)
  ultimately show ?thesis using journaled_step_seqs_increase [OF entries_read_back whole_lines_None no_seqs _ _ sample_journal_run] by blast
qed

lemma torn_entry: "parse_entry (''{'' @ journal_line sample_rollback) = None" "parse_entry ''{'' = None"
  by code_simp+

theorem torn_line_swallows_next_entry_witness:
  "completedSteps parse_entry ''j'' None
     (journal_append sample_rollback (Some (the (journal_append sample_done None) @ ''{''))) ''quarantine''
   = Some sample_done"
proof -
  let ?file = "journal_append sample_done None"
  have f: "?file = Some (the ?file)" by (simp add: journal_append_def)
  have "replay parse_entry (journal_append sample_rollback
      (Some ((case ?file of None \<Rightarrow> [] | Some raw \<Rightarrow> raw) @ ''{''))) = replay parse_entry ?file"
    by (rule torn_line_swallows_next_entry) (simp_all add: torn_entry [simplified])
  moreover have "replay parse_entry ?file = [sample_done]"
    using entries.replay_journal_append [OF whole_lines_None, of sample_done]
    by (simp add: replay_def proper_def sample_done_def step_entry_def object_keys_def)
  ultimately show ?thesis
    using f by (simp add: completedSteps_eq journal_append_def last_decision_def decides_def sample_done_def
        step_entry_def sample_step_def)
qed

end
