(* ===== verification/Input_Authority.thy ===== *)
theory Input_Authority
  imports Prelude
begin

text \<open>
  Terminal input ownership, \<^verbatim>\<open>terminal/input-authority.ts\<close>: \<open>createInputAuthority\<close> as a state
  machine over owner and epoch, and \<open>fencedWrite\<close>. A fence id is kept as the number that
  \<open>Number(fenceId)\<close> reads from it; an issued fence reads back its epoch. The \<open>write\<close> callback of
  \<open>fencedWrite\<close> may itself call the authority, so it acts on the authority's state as well as on
  the rest of the world.
\<close>

datatype input_source = Terminal_user | Chat_user | Prompt_delivery | Browser_takeover

datatype input_error = Stale_generation | Invalid_state

record input_fence =
  f_fenceId :: jsnum
  f_terminalId :: string
  f_source :: input_source
  f_generation :: int

record input_state =
  ia_terminalId :: string
  ia_owner :: "(input_source \<times> int) option"
  ia_epoch :: int

definition createInputAuthority :: "string \<Rightarrow> input_state" where
  "createInputAuthority terminalId = \<lparr>ia_terminalId = terminalId, ia_owner = None, ia_epoch = 0\<rparr>"

definition input_admit ::
  "input_source \<Rightarrow> int \<Rightarrow> input_state \<Rightarrow> (input_error + input_fence) \<times> input_state" where
  "input_admit source generation st =
     (if (case ia_owner st of None \<Rightarrow> False | Some (_, g) \<Rightarrow> g > generation)
      then (Inl Stale_generation, st)
      else let st1 = st\<lparr>ia_owner := Some (source, generation), ia_epoch := ia_epoch st + 1\<rparr> in
        (Inr \<lparr>f_fenceId = NInt (ia_epoch st1), f_terminalId = ia_terminalId st, f_source = source,
              f_generation = generation\<rparr>, st1))"

definition input_release ::
  "input_source \<Rightarrow> int \<Rightarrow> input_state \<Rightarrow> (input_error + unit) \<times> input_state" where
  "input_release source generation st =
     (case ia_owner st of
        None \<Rightarrow> (Inr (), st)
      | Some (s, g) \<Rightarrow>
          if s \<noteq> source \<or> g \<noteq> generation then (Inl Invalid_state, st)
          else (Inr (), st\<lparr>ia_owner := None, ia_epoch := ia_epoch st + 1\<rparr>))"

definition admitChunk :: "input_fence \<Rightarrow> input_state \<Rightarrow> input_error + unit" where
  "admitChunk fence st =
     (if f_terminalId fence \<noteq> ia_terminalId st then Inl Invalid_state
      else (case ia_owner st of
              None \<Rightarrow> Inl Invalid_state
            | Some (s, g) \<Rightarrow>
                if f_fenceId fence \<noteq> NInt (ia_epoch st) then Inl Invalid_state
                else if s \<noteq> f_source fence then Inl Invalid_state
                else if g \<noteq> f_generation fence then Inl Stale_generation
                else Inr ()))"

definition releaseFence :: "input_fence \<Rightarrow> input_state \<Rightarrow> (input_error + unit) \<times> input_state" where
  "releaseFence fence st =
     (case admitChunk fence st of
        Inl e \<Rightarrow> (Inl e, st)
      | Inr _ \<Rightarrow> input_release (f_source fence) (f_generation fence) st)"

fun fencedWrite ::
  "input_fence \<Rightarrow> 'c list \<Rightarrow> ('c \<Rightarrow> input_state \<times> 'w \<Rightarrow> input_state \<times> 'w) \<Rightarrow> nat \<Rightarrow> input_state \<times> 'w
     \<Rightarrow> (nat \<times> bool) \<times> input_state \<times> 'w" where
  "fencedWrite fence [] write written sw = ((written, False), sw)"
| "fencedWrite fence (chunk # chunks) write written sw =
     (if isl (admitChunk fence (fst sw)) then ((written, True), sw)
      else fencedWrite fence chunks write (written + 1) (write chunk sw))"

section \<open>Ownership changes\<close>

inductive input_step :: "input_state \<Rightarrow> input_state \<Rightarrow> bool" where
  step_admit: "input_step st (snd (input_admit source generation st))"
| step_release: "input_step st (snd (input_release source generation st))"
| step_releaseFence: "input_step st (snd (releaseFence fence st))"

inductive_simps input_step_iff: "input_step st st'"

lemma input_step_epoch:
  assumes "input_step st st'"
  shows "ia_terminalId st' = ia_terminalId st \<and> (st' = st \<or> ia_epoch st' = ia_epoch st + 1)"
  using assms
  by (induction rule: input_step.induct)
     (auto simp: input_admit_def input_release_def releaseFence_def Let_def split: option.splits sum.splits)

lemma input_steps_epoch:
  assumes "input_step\<^sup>*\<^sup>* st st'"
  shows "ia_terminalId st' = ia_terminalId st \<and> ia_epoch st \<le> ia_epoch st' \<and> (ia_epoch st' = ia_epoch st \<longrightarrow> st' = st)"
  using assms
proof (induction rule: rtranclp_induct)
  case base
  then show ?case by simp
next
  case (step y z)
  then show ?case using input_step_epoch [of y z] by auto
qed

lemma admitted_epoch:
  "admitChunk fence st = Inr u \<Longrightarrow> f_fenceId fence = NInt (ia_epoch st)
     \<and> ia_owner st = Some (f_source fence, f_generation fence)"
  by (auto simp: admitChunk_def split: if_splits option.splits)

lemma input_admit_current:
  assumes "input_admit source generation st = (Inr fence, st1)"
  shows "admitChunk fence st1 = Inr () \<and> f_fenceId fence = NInt (ia_epoch st1)"
  using assms by (auto simp: input_admit_def admitChunk_def Let_def split: if_splits option.splits)

text \<open>C10: a fence stays valid exactly as long as ownership has not changed. After any further
  calls the chunk check accepts the fence iff the epoch is still the one at which it was
  issued, and then the whole authority is unchanged, the owner included.\<close>

theorem fence_valid_until_change:
  assumes "input_admit source generation st = (Inr fence, st1)" and "input_step\<^sup>*\<^sup>* st1 st2"
  shows "(admitChunk fence st2 = Inr () \<longleftrightarrow> ia_epoch st2 = ia_epoch st1)
     \<and> (admitChunk fence st2 = Inr () \<longrightarrow> st2 = st1 \<and> ia_owner st2 = Some (source, generation))"
proof -
  from input_admit_current [OF assms(1)] have c: "admitChunk fence st1 = Inr ()"
    and f: "f_fenceId fence = NInt (ia_epoch st1)" by auto
  from input_steps_epoch [OF assms(2)] have same: "ia_epoch st2 = ia_epoch st1 \<longrightarrow> st2 = st1" by simp
  have "admitChunk fence st2 = Inr () \<Longrightarrow> ia_epoch st2 = ia_epoch st1"
    using admitted_epoch [of fence st2] f by auto
  moreover have "ia_owner st1 = Some (source, generation)"
    using assms(1) by (auto simp: input_admit_def Let_def split: if_splits option.splits)
  ultimately show ?thesis using c same by auto
qed

text \<open>Two fences handed out at different times are never both accepted, whatever happened in
  between, so one source writes at a time.\<close>

theorem fences_exclusive:
  assumes "input_admit s1 g1 a = (Inr f1, b)" and "input_step\<^sup>*\<^sup>* b c"
    and "input_admit s2 g2 c = (Inr f2, d)" and "input_step\<^sup>*\<^sup>* d e"
  shows "\<not> (admitChunk f1 e = Inr () \<and> admitChunk f2 e = Inr ())"
proof -
  have "f_fenceId f1 = NInt (ia_epoch b)" and "f_fenceId f2 = NInt (ia_epoch d)"
    using input_admit_current assms(1,3) by blast+
  moreover have "ia_epoch d = ia_epoch c + 1"
    using assms(3) by (auto simp: input_admit_def Let_def split: if_splits option.splits)
  moreover have "ia_epoch b \<le> ia_epoch c" using input_steps_epoch [OF assms(2)] by simp
  ultimately have "f_fenceId f1 \<noteq> f_fenceId f2" by simp
  then show ?thesis using admitted_epoch [of f1 e] admitted_epoch [of f2 e] by auto
qed

section \<open>Fenced writes\<close>

text \<open>\<open>fencedWrite\<close> writes exactly a prefix of the chunks, in order; before each written
  chunk the fence was current, and when it stops early the fence is no longer current, so no
  chunk is written after an ownership change that a previous write brought about.\<close>

theorem fencedWrite_prefix:
  "\<exists>n\<le>length chunks.
     fencedWrite fence chunks write k sw = ((k + n, n < length chunks), fold write (take n chunks) sw)
     \<and> (\<forall>i<n. admitChunk fence (fst (fold write (take i chunks) sw)) = Inr ())
     \<and> (n < length chunks \<longrightarrow> isl (admitChunk fence (fst (fold write (take n chunks) sw))))"
proof (induction chunks arbitrary: k sw)
  case Nil
  then show ?case by simp
next
  case (Cons c cs)
  show ?case
  proof (cases "isl (admitChunk fence (fst sw))")
    case True
    then show ?thesis by (intro exI [of _ 0]) simp
  next
    case False
    then have ok: "admitChunk fence (fst sw) = Inr ()" by (cases "admitChunk fence (fst sw)") auto
    from Cons.IH [of "k + 1" "write c sw"] obtain n where n: "n \<le> length cs"
      and run: "fencedWrite fence cs write (k + 1) (write c sw)
          = ((k + 1 + n, n < length cs), fold write (take n cs) (write c sw))"
      and pre: "\<forall>i<n. admitChunk fence (fst (fold write (take i cs) (write c sw))) = Inr ()"
      and stop: "n < length cs \<longrightarrow> isl (admitChunk fence (fst (fold write (take n cs) (write c sw))))" by blast
    have "\<forall>i<Suc n. admitChunk fence (fst (fold write (take i (c # cs)) sw)) = Inr ()"
      using ok pre by (auto simp: less_Suc_eq_0_disj)
    with False n run stop show ?thesis by (intro exI [of _ "Suc n"]) simp
  qed
qed

subsection \<open>Concrete runs\<close>

definition fence1 :: input_fence where
  "fence1 = \<lparr>f_fenceId = NInt 1, f_terminalId = ''t'', f_source = Terminal_user, f_generation = 4\<rparr>"

definition owned1 :: input_state where
  "owned1 = \<lparr>ia_terminalId = ''t'', ia_owner = Some (Terminal_user, 4), ia_epoch = 1\<rparr>"

definition owned2 :: input_state where
  "owned2 = \<lparr>ia_terminalId = ''t'', ia_owner = Some (Browser_takeover, 4), ia_epoch = 2\<rparr>"

lemma admit1: "input_admit Terminal_user 4 (createInputAuthority ''t'') = (Inr fence1, owned1)"
  by (simp add: input_admit_def createInputAuthority_def fence1_def owned1_def)

lemma admit2: "input_admit Browser_takeover 4 owned1 = (Inr (fence1\<lparr>f_fenceId := NInt 2, f_source := Browser_takeover\<rparr>), owned2)"
  by (simp add: input_admit_def fence1_def owned1_def owned2_def)

theorem fence_valid_until_change_witness:
  "admitChunk fence1 owned1 = Inr () \<and> admitChunk fence1 owned2 \<noteq> Inr ()"
proof -
  have "input_step owned1 owned2" using step_admit [of owned1 Browser_takeover 4] admit2 by simp
  then have "admitChunk fence1 owned2 = Inr () \<longleftrightarrow> ia_epoch owned2 = ia_epoch owned1"
    using fence_valid_until_change [OF admit1] by blast
  moreover have "admitChunk fence1 owned1 = Inr ()"
    using fence_valid_until_change [OF admit1, of owned1] by blast
  ultimately show ?thesis by (simp add: owned1_def owned2_def)
qed

theorem fences_exclusive_witness:
  "\<not> (admitChunk fence1 owned2 = Inr ()
      \<and> admitChunk (fence1\<lparr>f_fenceId := NInt 2, f_source := Browser_takeover\<rparr>) owned2 = Inr ())"
  using fences_exclusive [OF admit1 rtranclp.rtrancl_refl admit2 rtranclp.rtrancl_refl] .

text \<open>The second chunk hands the terminal to the browser; the third is not written.\<close>

definition takeover_write :: "nat \<Rightarrow> input_state \<times> nat list \<Rightarrow> input_state \<times> nat list" where
  "takeover_write c sw = (if c = 2 then owned2 else fst sw, snd sw @ [c])"

theorem fencedWrite_prefix_witness:
  "\<exists>n\<le>3. fencedWrite fence1 [1, 2, 3] takeover_write 0 (owned1, [])
      = ((n, n < 3), fold takeover_write (take n [1, 2, 3]) (owned1, []))
    \<and> fencedWrite fence1 [1, 2, 3] takeover_write 0 (owned1, []) = ((2, True), owned2, [1, 2])"
  using fencedWrite_prefix [of "[1, 2, 3]" fence1 takeover_write 0 "(owned1, [])"]
  by (auto simp: takeover_write_def admitChunk_def fence1_def owned1_def owned2_def)

end
