(* ===== verification/Checkpoint_Retention.thy ===== *)
theory Checkpoint_Retention
  imports Json "HOL-Library.Sublist" "HOL-Library.Multiset"
begin

text \<open>
  Checkpoint retention, \<^verbatim>\<open>terminal/retention.ts\<close>: the listing of sealed segments, atomic removal
  through a tombstone, the per-session and the per-scope eviction pass. A session directory is
  the list of its entries in \<open>readdir\<close> order. Which renames and unlinks succeed is decided by
  the environment record \<open>fs_env\<close>, so every failure branch of the source is a branch here; a
  fresh tombstone suffix comes from there too. Sequence numbers are big integers.
\<close>

record dir_node =
  n_isFile :: bool
  n_size :: int
  n_mtimeMs :: int

type_synonym session_dir = "(string \<times> dir_node) list"

record fs_env =
  can_rename :: "string \<Rightarrow> bool"
  can_unlink :: "string \<Rightarrow> bool"
  gc_suffix :: "string \<Rightarrow> string"

record sealed_segment =
  s_path :: string
  s_name :: string
  s_fromSeq :: int
  s_toSeq :: int
  s_size :: int
  s_modifiedMs :: int

definition DURABLE_MAX_BYTES_PER_SESSION :: int where "DURABLE_MAX_BYTES_PER_SESSION = 256 * 1024 * 1024"
definition DURABLE_MAX_BYTES_PER_WORKSPACE :: int where "DURABLE_MAX_BYTES_PER_WORKSPACE = 2 * 1024 * 1024 * 1024"
definition MAX_SEGMENTS_PER_SESSION :: int where "MAX_SEGMENTS_PER_SESSION = 4096"

definition TOMBSTONE_PREFIX :: string where "TOMBSTONE_PREFIX = ''.gc-''"

definition all_digits :: "string \<Rightarrow> bool" where
  "all_digits s \<longleftrightarrow> s \<noteq> [] \<and> list_all is_digit s"

text \<open>The pattern \<^verbatim>\<open>^seg-\d+-\d+-\d+\.adt$\<close>.\<close>

definition segment_name :: "string \<Rightarrow> bool" where
  "segment_name name =
     (case split_on (CHR ''-'') name of
        [a, b, c, d] \<Rightarrow> a = ''seg'' \<and> all_digits b \<and> all_digits c
          \<and> (case split_on (CHR ''.'') d of [e, f] \<Rightarrow> all_digits e \<and> f = ''adt'' | _ \<Rightarrow> False)
      | _ \<Rightarrow> False)"

definition join_path :: "string \<Rightarrow> string \<Rightarrow> string" where
  "join_path d name = d @ CHR ''/'' # name"

definition segment_of :: "string \<Rightarrow> string \<times> dir_node \<Rightarrow> sealed_segment" where
  "segment_of sessionDir e =
     (let parts = split_on (CHR ''-'') (fst e) in
      \<lparr>s_path = join_path sessionDir (fst e), s_name = fst e,
       s_fromSeq = int (digits_value 0 (parts ! 2)),
       s_toSeq = int (digits_value 0 (split_on (CHR ''.'') (parts ! 3) ! 0)),
       s_size = n_size (snd e), s_modifiedMs = n_mtimeMs (snd e)\<rparr>)"

text \<open>Segments of one session have distinct first sequence numbers; for equal ones the source's
  comparator leaves the order to the engine, here it is the directory order.\<close>

definition listSealedSegments :: "string \<Rightarrow> session_dir \<Rightarrow> sealed_segment list" where
  "listSealedSegments sessionDir dir =
     sort_key s_fromSeq (map (segment_of sessionDir)
       (filter (\<lambda>e. segment_name (fst e) \<and> n_isFile (snd e)) dir))"

definition totalBytes :: "sealed_segment list \<Rightarrow> int" where
  "totalBytes segments = fold (\<lambda>segment total. total + s_size segment) segments 0"

definition removeSegmentAtomically ::
  "fs_env \<Rightarrow> string \<Rightarrow> sealed_segment \<Rightarrow> session_dir \<Rightarrow> bool \<times> session_dir" where
  "removeSegmentAtomically env sessionDir segment dir =
     (if \<not> prefix (sessionDir @ ''/'') (s_path segment) then (False, dir)
      else let tombstone = TOMBSTONE_PREFIX @ gc_suffix env (s_name segment) in
      if s_name segment \<notin> set (map fst dir) \<or> \<not> can_rename env (s_name segment) then (False, dir)
      else if can_unlink env tombstone
      then (True, filter (\<lambda>e. fst e \<noteq> s_name segment) dir)
      else (True, map (\<lambda>e. if fst e = s_name segment then (tombstone, snd e) else e) dir))"

definition sweepTombstones :: "fs_env \<Rightarrow> session_dir \<Rightarrow> nat \<times> session_dir" where
  "sweepTombstones env dir =
     (let gone = (\<lambda>e. prefix TOMBSTONE_PREFIX (fst e) \<and> can_unlink env (fst e)) in
      (length (filter gone dir), filter (\<lambda>e. \<not> gone e) dir))"

record eviction_result =
  ev_evictedSegments :: nat
  ev_bytesFreed :: int
  ev_remaining :: "sealed_segment list"

fun evict_loop ::
  "fs_env \<Rightarrow> string \<Rightarrow> int \<Rightarrow> int \<Rightarrow> int option \<Rightarrow> nat \<Rightarrow> int \<Rightarrow> sealed_segment list \<Rightarrow> session_dir
     \<Rightarrow> eviction_result \<times> session_dir" where
  "evict_loop env sd maxBytes maxSegments flr k freed (oldest # younger # rest) dir =
     (if totalBytes (oldest # younger # rest) \<le> maxBytes \<and> int (length (oldest # younger # rest)) \<le> maxSegments
      then (\<lparr>ev_evictedSegments = k, ev_bytesFreed = freed, ev_remaining = oldest # younger # rest\<rparr>, dir)
      else if (case flr of None \<Rightarrow> False | Some f \<Rightarrow> s_toSeq oldest \<ge> f)
      then (\<lparr>ev_evictedSegments = k, ev_bytesFreed = freed, ev_remaining = oldest # younger # rest\<rparr>, dir)
      else (case removeSegmentAtomically env sd oldest dir of
              (False, dir1) \<Rightarrow>
                (\<lparr>ev_evictedSegments = k, ev_bytesFreed = freed, ev_remaining = oldest # younger # rest\<rparr>, dir1)
            | (True, dir1) \<Rightarrow>
                evict_loop env sd maxBytes maxSegments flr (k + 1) (freed + s_size oldest) (younger # rest) dir1))"
| "evict_loop env sd maxBytes maxSegments flr k freed segments dir =
     (\<lparr>ev_evictedSegments = k, ev_bytesFreed = freed, ev_remaining = segments\<rparr>, dir)"

definition evictOldestSealedSegments ::
  "fs_env \<Rightarrow> string \<Rightarrow> sealed_segment list \<Rightarrow> int \<Rightarrow> int \<Rightarrow> int option \<Rightarrow> session_dir
     \<Rightarrow> eviction_result \<times> session_dir" where
  "evictOldestSealedSegments env sd segments maxBytes maxSegments protectedFromSeq dir =
     (let (_, dir1) = sweepTombstones env dir in
      evict_loop env sd maxBytes maxSegments protectedFromSeq 0 0 segments dir1)"

section \<open>The scope pass\<close>

type_synonym runtime_root = "(string \<times> session_dir) list"

record scope_result =
  sc_evictedSessions :: "string list"
  sc_bytesFreed :: int
  sc_remainingBytes :: int

text \<open>The sessions with sealed segments, in listing order.\<close>

definition scope_sessions :: "string \<Rightarrow> runtime_root \<Rightarrow> (string \<times> sealed_segment list) list" where
  "scope_sessions rootPath root =
     filter (\<lambda>s. snd s \<noteq> [])
       (map (\<lambda>(name, dir). (name, listSealedSegments (join_path rootPath name) dir))
         (filter (\<lambda>e. is_uuid (fst e)) root))"

fun pick_oldest ::
  "string \<Rightarrow> (string \<Rightarrow> bool) \<Rightarrow> (string \<times> int) option \<Rightarrow> (string \<times> sealed_segment list) list \<Rightarrow> (string \<times> int) option" where
  "pick_oldest active prot best [] = best"
| "pick_oldest active prot best ((tid, segments) # rest) =
     (if tid = active \<or> prot tid then pick_oldest active prot best rest
      else let m = s_modifiedMs (hd segments) in
        (if best = None \<or> m < snd (the best) then pick_oldest active prot (Some (tid, m)) rest
         else pick_oldest active prot best rest))"

fun remove_chain ::
  "fs_env \<Rightarrow> string \<Rightarrow> sealed_segment list \<Rightarrow> int \<Rightarrow> session_dir \<Rightarrow> (bool \<times> int) \<times> session_dir" where
  "remove_chain env sd [] freed dir = ((True, freed), dir)"
| "remove_chain env sd (seg # segs) freed dir =
     (case removeSegmentAtomically env sd seg dir of
        (False, dir1) \<Rightarrow> ((False, freed), dir1)
      | (True, dir1) \<Rightarrow> remove_chain env sd segs (freed + s_size seg) dir1)"

lemma pick_oldest_mem:
  "pick_oldest active prot best ss = Some (t, m) \<Longrightarrow> best = Some (t, m) \<or> t \<in> fst ` set ss"
  by (induction active prot best ss rule: pick_oldest.induct) (auto simp: Let_def split: if_splits)

definition update_dir :: "string \<Rightarrow> session_dir \<Rightarrow> runtime_root \<Rightarrow> runtime_root" where
  "update_dir name dir root = map (\<lambda>e. if fst e = name then (name, dir) else e) root"

definition dir_of :: "string \<Rightarrow> runtime_root \<Rightarrow> session_dir" where
  "dir_of name root = (case map_of root name of None \<Rightarrow> [] | Some d \<Rightarrow> d)"

text \<open>The \<open>while\<close> loop: every turn takes one session out of the map, so it ends.\<close>

function scope_loop ::
  "fs_env \<Rightarrow> string \<Rightarrow> string \<Rightarrow> int \<Rightarrow> (string \<Rightarrow> bool) \<Rightarrow> (string \<times> sealed_segment list) list
     \<Rightarrow> scope_result \<Rightarrow> runtime_root \<Rightarrow> scope_result \<times> runtime_root" where
  "scope_loop env rp active maxBytes prot sessions acc root =
     (if sc_remainingBytes acc \<le> maxBytes then (acc, root)
      else (case pick_oldest active prot None sessions of
              None \<Rightarrow> (acc, root)
            | Some (tid, _) \<Rightarrow>
                (let segments = the (map_of sessions tid) in
                 case remove_chain env (join_path rp tid) segments 0 (dir_of tid root) of
                   ((allRemoved, freed), dir1) \<Rightarrow>
                     (let root1 = update_dir tid dir1 root;
                          sessions1 = filter (\<lambda>s. fst s \<noteq> tid) sessions in
                      if \<not> allRemoved \<or> freed = 0 then (acc, root1)
                      else scope_loop env rp active maxBytes prot sessions1
                        \<lparr>sc_evictedSessions = sc_evictedSessions acc @ [tid],
                         sc_bytesFreed = sc_bytesFreed acc + freed,
                         sc_remainingBytes = sc_remainingBytes acc - freed\<rparr> root1))))"
  by pat_completeness auto
termination
proof (relation "measure (\<lambda>(_, _, _, _, _, sessions, _, _). length sessions)", goal_cases)
  case 1
  then show ?case by simp
next
  case (2 env rp active maxBytes prot sessions acc root z tid m segs fr p)
  then have "tid \<in> fst ` set sessions" by (auto dest: pick_oldest_mem)
  then have "length (filter (\<lambda>s. fst s \<noteq> tid) sessions) < length sessions"
    by (auto intro!: length_filter_less)
  with 2 show ?case by simp
qed

definition enforceScopeRetention ::
  "fs_env \<Rightarrow> string \<Rightarrow> string \<Rightarrow> int \<Rightarrow> (string \<Rightarrow> bool) \<Rightarrow> runtime_root \<Rightarrow> scope_result \<times> runtime_root" where
  "enforceScopeRetention env rp active maxBytes prot root =
     (let sessions = scope_sessions rp root in
      scope_loop env rp active maxBytes prot sessions
        \<lparr>sc_evictedSessions = [], sc_bytesFreed = 0,
         sc_remainingBytes = sum_list (map (\<lambda>s. totalBytes (snd s)) sessions)\<rparr> root)"

section \<open>What one pass evicts\<close>

lemma totalBytes_sum: "totalBytes segs = sum_list (map s_size segs)"
proof -
  have "fold (\<lambda>g t. t + s_size g) segs a = a + sum_list (map s_size segs)" for a
    by (induction segs arbitrary: a) auto
  then show ?thesis by (simp add: totalBytes_def)
qed

lemma totalBytes_simps [simp]:
  "totalBytes [] = 0" "totalBytes (x # xs) = s_size x + totalBytes xs"
  by (simp_all add: totalBytes_sum)

definition within_caps :: "int \<Rightarrow> int \<Rightarrow> sealed_segment list \<Rightarrow> bool" where
  "within_caps maxBytes maxSegments segs \<longleftrightarrow> totalBytes segs \<le> maxBytes \<and> int (length segs) \<le> maxSegments"

definition covers_floor :: "int option \<Rightarrow> sealed_segment \<Rightarrow> bool" where
  "covers_floor flr seg \<longleftrightarrow> (\<exists>f. flr = Some f \<and> f \<le> s_toSeq seg)"

text \<open>Why a pass stops with the segments \<open>rest\<close> left in directory \<open>dir\<close>.\<close>

definition pass_done ::
  "fs_env \<Rightarrow> string \<Rightarrow> int \<Rightarrow> int \<Rightarrow> int option \<Rightarrow> sealed_segment list \<Rightarrow> session_dir \<Rightarrow> bool" where
  "pass_done env sd maxBytes maxSegments flr rest dir \<longleftrightarrow>
     length rest \<le> 1 \<or> within_caps maxBytes maxSegments rest \<or> covers_floor flr (hd rest)
     \<or> \<not> fst (removeSegmentAtomically env sd (hd rest) dir)"

text \<open>The first \<open>n\<close> segments go, each because a cap was exceeded and none covering the floor.\<close>

definition evicts ::
  "int \<Rightarrow> int \<Rightarrow> int option \<Rightarrow> sealed_segment list \<Rightarrow> nat \<Rightarrow> bool" where
  "evicts maxBytes maxSegments flr segs n \<longleftrightarrow>
     (n = 0 \<or> n < length segs) \<and>
     (\<forall>i<n. \<not> within_caps maxBytes maxSegments (drop i segs) \<and> \<not> covers_floor flr (segs ! i))"

lemma remove_False_same: "removeSegmentAtomically env sd seg dir = (False, dir1) \<Longrightarrow> dir1 = dir"
  by (auto simp: removeSegmentAtomically_def Let_def split: if_splits)

lemma evicts_Cons:
  assumes "evicts mb ms flr (y # rest) n" and "\<not> within_caps mb ms (x # y # rest)" and "\<not> covers_floor flr x"
  shows "evicts mb ms flr (x # y # rest) (Suc n)"
  using assms by (auto simp: evicts_def less_Suc_eq_0_disj)

lemma evict_loop_spec:
  "\<exists>n. fst (evict_loop env sd mb ms flr k freed segs dir)
        = \<lparr>ev_evictedSegments = k + n, ev_bytesFreed = freed + totalBytes (take n segs), ev_remaining = drop n segs\<rparr>
     \<and> evicts mb ms flr segs n
     \<and> pass_done env sd mb ms flr (drop n segs) (snd (evict_loop env sd mb ms flr k freed segs dir))"
proof (induction env sd mb ms flr k freed segs dir rule: evict_loop.induct)
  case (1 env sd mb ms flr k freed x y rest dir)
  let ?segs = "x # y # rest"
  consider (capped) "within_caps mb ms ?segs" | (prot) "\<not> within_caps mb ms ?segs" "covers_floor flr x"
    | (go) "\<not> within_caps mb ms ?segs" "\<not> covers_floor flr x" by blast
  then show ?case
  proof cases
    case capped
    then show ?thesis
      by (intro exI [of _ 0]) (simp add: evicts_def pass_done_def within_caps_def)
  next
    case prot
    then show ?thesis
      by (intro exI [of _ 0])
         (auto simp: evicts_def pass_done_def within_caps_def covers_floor_def)
  next
    case go
    have cond: "\<not> (totalBytes ?segs \<le> mb \<and> int (length ?segs) \<le> ms)"
      "\<not> (case flr of None \<Rightarrow> False | Some f \<Rightarrow> s_toSeq x \<ge> f)"
      using go by (auto simp: within_caps_def covers_floor_def split: option.splits)
    obtain b dir1 where rm: "removeSegmentAtomically env sd x dir = (b, dir1)"
      by (cases "removeSegmentAtomically env sd x dir")
    show ?thesis
    proof (cases b)
      case False
      then show ?thesis using rm cond remove_False_same [of env sd x dir dir1]
        by (intro exI [of _ 0]) (simp add: evicts_def pass_done_def)
    next
      case True
      have ev: "evict_loop env sd mb ms flr k freed ?segs dir
          = evict_loop env sd mb ms flr (k + 1) (freed + s_size x) (y # rest) dir1"
        using cond rm True by (simp only: evict_loop.simps) simp
      from 1 [OF cond rm [symmetric]] True obtain n where
        ih: "fst (evict_loop env sd mb ms flr (k + 1) (freed + s_size x) (y # rest) dir1)
          = \<lparr>ev_evictedSegments = k + 1 + n, ev_bytesFreed = freed + s_size x + totalBytes (take n (y # rest)),
             ev_remaining = drop n (y # rest)\<rparr>"
          "evicts mb ms flr (y # rest) n"
          "pass_done env sd mb ms flr (drop n (y # rest))
             (snd (evict_loop env sd mb ms flr (k + 1) (freed + s_size x) (y # rest) dir1))" by auto
      show ?thesis
        unfolding ev using ih evicts_Cons [OF ih(2) go] by (intro exI [of _ "Suc n"]) simp
    qed
  qed
qed (auto simp: evicts_def pass_done_def intro!: exI [of _ 0])

text \<open>A per-session pass removes exactly the oldest \<open>n\<close> segments: each was removed only because
  a cap was still exceeded, none of them reaches the protected replay floor, the newest segment
  survives, the freed bytes are theirs, and the pass ends only when the caps hold, one segment is
  left, the next one is protected, or its removal failed.\<close>

theorem eviction_oldest_first:
  "\<exists>n. fst (evictOldestSealedSegments env sd segs mb ms flr dir)
        = \<lparr>ev_evictedSegments = n, ev_bytesFreed = totalBytes (take n segs), ev_remaining = drop n segs\<rparr>
     \<and> evicts mb ms flr segs n
     \<and> pass_done env sd mb ms flr (drop n segs) (snd (evictOldestSealedSegments env sd segs mb ms flr dir))"
  using evict_loop_spec [of env sd mb ms flr 0 0 segs "snd (sweepTombstones env dir)"]
  by (simp add: evictOldestSealedSegments_def case_prod_beta)

section \<open>The directory agrees with the report\<close>

lemma tombstone_not_segment: "\<not> segment_name (TOMBSTONE_PREFIX @ x)"
  by (simp add: segment_name_def TOMBSTONE_PREFIX_def split: list.splits)

lemma segment_not_tombstone: "segment_name n \<Longrightarrow> \<not> prefix TOMBSTONE_PREFIX n"
  using tombstone_not_segment by (auto simp: prefix_def)

lemma s_name_segment_of [simp]: "s_name (segment_of sd e) = fst e"
  by (simp add: segment_of_def Let_def)

lemma filter_listing:
  "filter (\<lambda>g. s_name g \<noteq> n) (listSealedSegments sd dir)
     = sort_key s_fromSeq (map (segment_of sd)
         (filter (\<lambda>e. fst e \<noteq> n \<and> segment_name (fst e) \<and> n_isFile (snd e)) dir))"
  by (simp add: listSealedSegments_def filter_sort filter_map comp_def conj_commute)

lemma remove_listing:
  assumes "removeSegmentAtomically env sd seg dir = (True, dir1)"
  shows "listSealedSegments sd dir1 = filter (\<lambda>g. s_name g \<noteq> s_name seg) (listSealedSegments sd dir)"
proof -
  let ?P = "\<lambda>e :: string \<times> dir_node. segment_name (fst e) \<and> n_isFile (snd e)"
  have "filter ?P dir1 = filter (\<lambda>e. fst e \<noteq> s_name seg \<and> ?P e) dir"
  proof (cases "can_unlink env (TOMBSTONE_PREFIX @ gc_suffix env (s_name seg))")
    case True
    with assms have "dir1 = filter (\<lambda>e. fst e \<noteq> s_name seg) dir"
      by (auto simp: removeSegmentAtomically_def Let_def split: if_splits)
    then show ?thesis by (auto intro: filter_cong)
  next
    case False
    with assms have "dir1 = map (\<lambda>e. if fst e = s_name seg
        then (TOMBSTONE_PREFIX @ gc_suffix env (s_name seg), snd e) else e) dir"
      by (auto simp: removeSegmentAtomically_def Let_def split: if_splits)
    moreover have "filter ?P (map (\<lambda>e. if fst e = n then (TOMBSTONE_PREFIX @ x, snd e) else e) d)
        = filter (\<lambda>e. fst e \<noteq> n \<and> ?P e) d" for n x d
      by (induction d) (auto simp: tombstone_not_segment)
    ultimately show ?thesis by simp
  qed
  then show ?thesis unfolding filter_listing by (simp add: listSealedSegments_def)
qed

lemma sweep_listing: "listSealedSegments sd (snd (sweepTombstones env dir)) = listSealedSegments sd dir"
proof -
  have "filter (\<lambda>e. segment_name (fst e) \<and> n_isFile (snd e)) (snd (sweepTombstones env dir))
      = filter (\<lambda>e. segment_name (fst e) \<and> n_isFile (snd e)) dir"
    by (auto simp: sweepTombstones_def Let_def segment_not_tombstone intro: filter_cong)
  then show ?thesis by (simp add: listSealedSegments_def)
qed

lemma filter_other_keys: "f x \<notin> f ` set xs \<Longrightarrow> filter (\<lambda>g. f g \<noteq> f x) xs = xs"
  by (rule filter_True) (metis image_eqI)

lemma evict_loop_listing:
  "listSealedSegments sd dir = segs \<Longrightarrow> distinct (map s_name segs) \<Longrightarrow>
     listSealedSegments sd (snd (evict_loop env sd mb ms flr k freed segs dir))
       = ev_remaining (fst (evict_loop env sd mb ms flr k freed segs dir))"
proof (induction env sd mb ms flr k freed segs dir rule: evict_loop.induct)
  case (1 env sd mb ms flr k freed x y rest dir)
  obtain b dir1 where rm: "removeSegmentAtomically env sd x dir = (b, dir1)"
    by (cases "removeSegmentAtomically env sd x dir")
  have "b \<Longrightarrow> listSealedSegments sd dir1 = y # rest"
    using remove_listing [of env sd x dir dir1] rm 1(2,3) filter_other_keys [of s_name x "y # rest"] by simp
  with 1 rm remove_False_same [of env sd x dir dir1] show ?case
    by (cases b) (simp_all split: option.splits)
qed simp_all

lemma listing_distinct:
  assumes "distinct (map fst dir)"
  shows "distinct (map s_name (listSealedSegments sd dir))"
proof -
  have "mset (map s_name (listSealedSegments sd dir))
      = mset (map fst (filter (\<lambda>e. segment_name (fst e) \<and> n_isFile (snd e)) dir))"
    by (simp add: listSealedSegments_def multiset.map_comp comp_def)
  moreover have "distinct (map fst (filter (\<lambda>e. segment_name (fst e) \<and> n_isFile (snd e)) dir))"
    using assms by (simp add: distinct_map_filter)
  ultimately show ?thesis by (metis mset_eq_imp_distinct_iff)
qed

text \<open>C35: after a pass over the listed segments the directory lists exactly the segments the pass
  reports as remaining, tombstones that could not be unlinked included among the invisible
  files. The names in the directory are distinct.\<close>

theorem eviction_matches_directory:
  assumes "distinct (map fst dir)"
    and "evictOldestSealedSegments env sd (listSealedSegments sd dir) mb ms flr dir = (r, dir')"
  shows "listSealedSegments sd dir' = ev_remaining r"
proof -
  note dist = listing_distinct [OF assms(1), of sd]
  have "listSealedSegments sd (snd (evict_loop env sd mb ms flr 0 0 (listSealedSegments sd dir) (snd (sweepTombstones env dir))))
      = ev_remaining (fst (evict_loop env sd mb ms flr 0 0 (listSealedSegments sd dir) (snd (sweepTombstones env dir))))"
    by (rule evict_loop_listing [OF sweep_listing dist])
  with assms(2) show ?thesis by (simp add: evictOldestSealedSegments_def case_prod_beta)
qed

section \<open>Scope eviction\<close>

lemma pick_oldest_eligible:
  "pick_oldest active prot best ss = Some (t, m) \<Longrightarrow> best = Some (t, m) \<or> (t \<noteq> active \<and> \<not> prot t)"
  by (induction active prot best ss rule: pick_oldest.induct) (auto simp: Let_def split: if_splits)

lemma pick_oldest_None:
  "pick_oldest active prot best ss = None \<longleftrightarrow> best = None \<and> (\<forall>s\<in>set ss. fst s = active \<or> prot (fst s))"
  by (induction active prot best ss rule: pick_oldest.induct) (auto simp: Let_def)

lemma dir_of_update:
  "dir_of t (update_dir n d root) = (if t = n \<and> n \<in> fst ` set root then d else dir_of t root)"
  by (induction root) (auto simp: dir_of_def update_dir_def split: option.splits if_splits)

definition scope_inv ::
  "string \<Rightarrow> (string \<Rightarrow> bool) \<Rightarrow> (string \<times> sealed_segment list) list \<Rightarrow> scope_result \<Rightarrow> runtime_root
     \<Rightarrow> scope_result \<Rightarrow> runtime_root \<Rightarrow> bool" where
  "scope_inv active prot sessions acc root r root' \<longleftrightarrow>
     (\<exists>ev. sc_evictedSessions r = sc_evictedSessions acc @ ev \<and> distinct ev
        \<and> set ev \<subseteq> {t \<in> fst ` set sessions. t \<noteq> active \<and> \<not> prot t})
     \<and> sc_bytesFreed r + sc_remainingBytes r = sc_bytesFreed acc + sc_remainingBytes acc
     \<and> (\<forall>t. t = active \<or> prot t \<longrightarrow> dir_of t root' = dir_of t root)"

lemma scope_inv_step:
  assumes "t \<in> fst ` set sessions" and "t \<noteq> active" and "\<not> prot t"
    and "scope_inv active prot (filter (\<lambda>s. fst s \<noteq> t) sessions)
       \<lparr>sc_evictedSessions = sc_evictedSessions acc @ [t], sc_bytesFreed = sc_bytesFreed acc + f,
        sc_remainingBytes = sc_remainingBytes acc - f\<rparr> (update_dir t d root) r root'"
  shows "scope_inv active prot sessions acc root r root'"
proof -
  from assms(4) obtain ev where ev: "sc_evictedSessions r = sc_evictedSessions acc @ t # ev" "distinct ev"
      "set ev \<subseteq> {x \<in> fst ` set (filter (\<lambda>s. fst s \<noteq> t) sessions). x \<noteq> active \<and> \<not> prot x}"
    and rest: "sc_bytesFreed r + sc_remainingBytes r = sc_bytesFreed acc + sc_remainingBytes acc"
      "\<forall>x. x = active \<or> prot x \<longrightarrow> dir_of x root' = dir_of x (update_dir t d root)"
    by (auto simp: scope_inv_def)
  have "distinct (t # ev)" and "set (t # ev) \<subseteq> {x \<in> fst ` set sessions. x \<noteq> active \<and> \<not> prot x}"
    using ev(2,3) assms(1-3) by auto
  moreover have "\<forall>x. x = active \<or> prot x \<longrightarrow> dir_of x root' = dir_of x root"
    using rest(2) assms(2,3) by (auto simp: dir_of_update)
  ultimately show ?thesis using ev(1) rest(1) unfolding scope_inv_def by blast
qed

lemma scope_loop_inv:
  "scope_inv active prot sessions acc root
     (fst (scope_loop env rp active mb prot sessions acc root)) (snd (scope_loop env rp active mb prot sessions acc root))"
proof (induction env rp active mb prot sessions acc root rule: scope_loop.induct)
  case (1 env rp active mb prot sessions acc root)
  show ?case
  proof (cases "sc_remainingBytes acc \<le> mb \<or> pick_oldest active prot None sessions = None")
    case True
    then show ?thesis by (subst (1 2) scope_loop.simps) (auto simp: scope_inv_def)
  next
    case False
    then obtain t m where rem: "\<not> sc_remainingBytes acc \<le> mb"
      and pick: "pick_oldest active prot None sessions = Some (t, m)" by auto
    obtain b f d where rc: "remove_chain env (join_path rp t) (the (map_of sessions t)) 0 (dir_of t root) = ((b, f), d)"
      by (metis prod.exhaust)
    have t: "t \<in> fst ` set sessions" "t \<noteq> active" "\<not> prot t"
      using pick pick_oldest_mem pick_oldest_eligible by fastforce+
    show ?thesis
    proof (cases "\<not> b \<or> f = 0")
      case True
      with rem pick rc t show ?thesis
        by (subst (1 2) scope_loop.simps) (auto simp: scope_inv_def Let_def dir_of_update)
    next
      case False
      note ih = 1 [OF rem pick refl refl rc [symmetric] refl refl refl False]
      from rem pick rc False have eq: "scope_loop env rp active mb prot sessions acc root
          = scope_loop env rp active mb prot (filter (\<lambda>s. fst s \<noteq> t) sessions)
              \<lparr>sc_evictedSessions = sc_evictedSessions acc @ [t], sc_bytesFreed = sc_bytesFreed acc + f,
               sc_remainingBytes = sc_remainingBytes acc - f\<rparr> (update_dir t d root)"
        by (subst scope_loop.simps) (simp add: Let_def)
      show ?thesis unfolding eq by (rule scope_inv_step [OF t ih])
    qed
  qed
qed

text \<open>C26: a scope pass never touches the directory of the session that just wrote or of a
  protected session; it evicts each session at most once, only eligible ones with sealed
  segments, and its byte accounts add up to the scope's total.\<close>

theorem scope_retention_respects_protection:
  assumes "enforceScopeRetention env rp active mb prot root = (r, root')"
  shows "distinct (sc_evictedSessions r)
     \<and> set (sc_evictedSessions r) \<subseteq> {t \<in> fst ` set (scope_sessions rp root). t \<noteq> active \<and> \<not> prot t}
     \<and> sc_bytesFreed r + sc_remainingBytes r = sum_list (map (\<lambda>s. totalBytes (snd s)) (scope_sessions rp root))
     \<and> (\<forall>t. t = active \<or> prot t \<longrightarrow> dir_of t root' = dir_of t root)"
  using scope_loop_inv [of active prot "scope_sessions rp root"
      "\<lparr>sc_evictedSessions = [], sc_bytesFreed = 0,
        sc_remainingBytes = sum_list (map (\<lambda>s. totalBytes (snd s)) (scope_sessions rp root))\<rparr>" root env rp mb] assms
  by (auto simp: enforceScopeRetention_def scope_inv_def Let_def)

section \<open>Progress\<close>

text \<open>A file system on which every rename succeeds.\<close>

definition renames_work :: "fs_env \<Rightarrow> bool" where
  "renames_work env \<longleftrightarrow> (\<forall>n. can_rename env n)"

lemma remove_succeeds:
  assumes "renames_work env" and "s_name g \<in> fst ` set dir" and "s_path g = join_path sd (s_name g)"
  shows "fst (removeSegmentAtomically env sd g dir)
     \<and> (\<forall>n \<in> fst ` set dir. n \<noteq> s_name g \<longrightarrow> n \<in> fst ` set (snd (removeSegmentAtomically env sd g dir)))"
  using assms
  by (auto simp: removeSegmentAtomically_def renames_work_def Let_def join_path_def prefix_def)

lemma remove_chain_succeeds:
  "renames_work env \<Longrightarrow> distinct (map s_name gs) \<Longrightarrow> s_name ` set gs \<subseteq> fst ` set dir \<Longrightarrow>
     (\<forall>g\<in>set gs. s_path g = join_path sd (s_name g)) \<Longrightarrow>
     fst (remove_chain env sd gs a dir) = (True, a + totalBytes gs)"
proof (induction gs arbitrary: a dir)
  case Nil
  then show ?case by simp
next
  case (Cons g gs)
  obtain b dir1 where rm: "removeSegmentAtomically env sd g dir = (b, dir1)"
    by (cases "removeSegmentAtomically env sd g dir")
  from remove_succeeds [OF Cons.prems(1), of g dir sd] Cons.prems(3,4) rm
  have b: b and keep: "\<forall>n\<in>fst ` set dir. n \<noteq> s_name g \<longrightarrow> n \<in> fst ` set dir1" by auto
  have "s_name ` set gs \<subseteq> fst ` set dir1"
  proof
    fix n
    assume n: "n \<in> s_name ` set gs"
    moreover from Cons.prems(2) have "s_name g \<notin> s_name ` set gs" by simp
    ultimately have "n \<noteq> s_name g" by blast
    moreover have "s_name ` set gs \<subseteq> fst ` set dir" using Cons.prems(3) by simp
    ultimately show "n \<in> fst ` set dir1" using n keep by blast
  qed
  with Cons.IH [of dir1 "a + s_size g"] Cons.prems(1,2,4) rm b show ?case by simp
qed

definition session_ready :: "string \<Rightarrow> session_dir \<Rightarrow> sealed_segment list \<Rightarrow> bool" where
  "session_ready sd dir gs \<longleftrightarrow> distinct (map s_name gs) \<and> s_name ` set gs \<subseteq> fst ` set dir
     \<and> (\<forall>g\<in>set gs. s_path g = join_path sd (s_name g))"

definition ready :: "string \<Rightarrow> (string \<times> sealed_segment list) list \<Rightarrow> runtime_root \<Rightarrow> bool" where
  "ready rp sessions root \<longleftrightarrow> distinct (map fst sessions) \<and>
     (\<forall>t gs. (t, gs) \<in> set sessions \<longrightarrow> session_ready (join_path rp t) (dir_of t root) gs)"

lemma ready_step:
  assumes "ready rp sessions root"
  shows "ready rp (filter (\<lambda>s. fst s \<noteq> t) sessions) (update_dir t d root)"
proof -
  have "dir_of u (update_dir t d root) = dir_of u root" if "u \<noteq> t" for u
    using that by (simp add: dir_of_update)
  with assms show ?thesis by (auto simp: ready_def distinct_map_filter)
qed

text \<open>A session the pass may take whose segments are all empty.\<close>

definition empty_session :: "string \<Rightarrow> (string \<Rightarrow> bool) \<Rightarrow> scope_result \<Rightarrow> (string \<times> sealed_segment list) \<Rightarrow> bool" where
  "empty_session active prot r s \<longleftrightarrow> fst s \<noteq> active \<and> \<not> prot (fst s) \<and> fst s \<notin> set (sc_evictedSessions r) \<and> totalBytes (snd s) = 0"

lemma scope_loop_progress:
  "renames_work env \<Longrightarrow> ready rp sessions root \<Longrightarrow> set (sc_evictedSessions acc) \<inter> fst ` set sessions = {} \<Longrightarrow>
     sc_remainingBytes (fst (scope_loop env rp active mb prot sessions acc root)) \<le> mb
     \<or> (\<forall>t \<in> fst ` set sessions.
          t \<in> set (sc_evictedSessions (fst (scope_loop env rp active mb prot sessions acc root))) \<or> t = active \<or> prot t)
     \<or> (\<exists>s \<in> set sessions. empty_session active prot (fst (scope_loop env rp active mb prot sessions acc root)) s)"
proof (induction env rp active mb prot sessions acc root rule: scope_loop.induct)
  case (1 env rp active mb prot sessions acc root)
  show ?case
  proof (cases "sc_remainingBytes acc \<le> mb \<or> pick_oldest active prot None sessions = None")
    case True
    then show ?thesis
    proof
      assume "sc_remainingBytes acc \<le> mb"
      then show ?thesis by (subst scope_loop.simps) simp
    next
      assume "pick_oldest active prot None sessions = None"
      then show ?thesis using pick_oldest_None [of active prot None sessions] by auto
    qed
  next
    case False
    then obtain t m where rem: "\<not> sc_remainingBytes acc \<le> mb"
      and pick: "pick_oldest active prot None sessions = Some (t, m)" by auto
    have t: "t \<in> fst ` set sessions" "t \<noteq> active" "\<not> prot t" using pick pick_oldest_mem pick_oldest_eligible by fastforce+
    then obtain gs where gs: "(t, gs) \<in> set sessions" "map_of sessions t = Some gs"
      using "1.prems"(2) by (auto simp: ready_def)
    then have chain: "fst (remove_chain env (join_path rp t) gs 0 (dir_of t root)) = (True, totalBytes gs)"
      using remove_chain_succeeds [OF "1.prems"(1)] "1.prems"(2) by (auto simp: ready_def session_ready_def)
    then obtain d where rc: "remove_chain env (join_path rp t) (the (map_of sessions t)) 0 (dir_of t root)
        = ((True, totalBytes gs), d)" using gs by (metis option.sel prod.collapse)
    show ?thesis
    proof (cases "totalBytes gs = 0")
      case True
      with rem pick rc have "fst (scope_loop env rp active mb prot sessions acc root) = acc"
        by (subst scope_loop.simps) (simp add: Let_def)
      moreover have "empty_session active prot acc (t, gs)" using True t "1.prems"(3) by (auto simp: empty_session_def)
      ultimately show ?thesis using gs(1) by metis
    next
      case nz: False
      then have go: "\<not> (\<not> True \<or> totalBytes gs = 0)" by simp
      let ?s1 = "filter (\<lambda>s. fst s \<noteq> t) sessions"
      let ?acc1 = "\<lparr>sc_evictedSessions = sc_evictedSessions acc @ [t], sc_bytesFreed = sc_bytesFreed acc + totalBytes gs,
                 sc_remainingBytes = sc_remainingBytes acc - totalBytes gs\<rparr>"
      from rem pick rc go have eq: "scope_loop env rp active mb prot sessions acc root
          = scope_loop env rp active mb prot ?s1 ?acc1 (update_dir t d root)"
        by (subst scope_loop.simps) (simp add: Let_def)
      have apart: "set (sc_evictedSessions ?acc1) \<inter> fst ` set ?s1 = {}" using "1.prems"(3) by auto
      note ih = 1(1) [OF rem pick refl refl rc [symmetric] refl refl refl go "1.prems"(1) ready_step [OF "1.prems"(2)] apart]
      have "t \<in> set (sc_evictedSessions (fst (scope_loop env rp active mb prot ?s1 ?acc1 (update_dir t d root))))"
        using scope_loop_inv [of active prot ?s1 ?acc1 "update_dir t d root" env rp mb] by (auto simp: scope_inv_def)
      with ih show ?thesis unfolding eq by auto
    qed
  qed
qed

lemma scope_sessions_ready:
  assumes "distinct (map fst root)" and "\<forall>(t, dir) \<in> set root. distinct (map fst dir)"
  shows "ready rp (scope_sessions rp root) root"
proof -
  have one: "session_ready sd dir (listSealedSegments sd dir)" if d: "distinct (map fst dir)" for sd dir
    using listing_distinct [OF d, of sd]
    by (auto simp: session_ready_def listSealedSegments_def segment_of_def Let_def intro: rev_image_eqI)
  have dir: "dir_of t root = dir" if "(t, dir) \<in> set root" for t dir
    using that assms(1) by (simp add: dir_of_def)
  have "distinct (map fst (scope_sessions rp root))"
  proof -
    let ?f = "\<lambda>(name, dir). (name, listSealedSegments (join_path rp name) dir)"
    have "map fst (map ?f (filter (\<lambda>e. is_uuid (fst e)) root)) = map fst (filter (\<lambda>e. is_uuid (fst e)) root)"
      by (induction root) auto
    then have "distinct (map fst (map ?f (filter (\<lambda>e. is_uuid (fst e)) root)))"
      by (simp only: distinct_map_filter [OF assms(1)])
    then show ?thesis unfolding scope_sessions_def by (rule distinct_map_filter)
  qed
  with one dir assms(2) show ?thesis by (fastforce simp: ready_def scope_sessions_def)
qed

text \<open>C38: where renames work, a scope pass ends with the scope within its cap, or with every session that has
  sealed segments evicted, active or protected, or it stopped at a session it may take whose sealed segments
  are all empty: freeing no byte ends the pass.\<close>

theorem scope_retention_reaches_cap:
  assumes "renames_work env" and "distinct (map fst root)" and "\<forall>(t, dir) \<in> set root. distinct (map fst dir)"
    and "enforceScopeRetention env rp active mb prot root = (r, root')"
  shows "sc_remainingBytes r \<le> mb
     \<or> (\<forall>t \<in> fst ` set (scope_sessions rp root). t \<in> set (sc_evictedSessions r) \<or> t = active \<or> prot t)
     \<or> (\<exists>(t, gs) \<in> set (scope_sessions rp root). t \<noteq> active \<and> \<not> prot t \<and> t \<notin> set (sc_evictedSessions r) \<and> totalBytes gs = 0)"
  using scope_loop_progress [OF assms(1) scope_sessions_ready [OF assms(2,3)], of
      "\<lparr>sc_evictedSessions = [], sc_bytesFreed = 0,
        sc_remainingBytes = sum_list (map (\<lambda>s. totalBytes (snd s)) (scope_sessions rp root))\<rparr>" rp active mb prot] assms(4)
  by (simp add: enforceScopeRetention_def empty_session_def case_prod_beta Let_def)

subsection \<open>Concrete runs\<close>

definition sample_fs :: fs_env where
  "sample_fs = \<lparr>can_rename = \<lambda>_. True, can_unlink = \<lambda>n. False, gc_suffix = \<lambda>n. ''x''\<rparr>"

definition sample_dir :: session_dir where
  "sample_dir = [(''seg-1-5-9.adt'', \<lparr>n_isFile = True, n_size = 10, n_mtimeMs = 2\<rparr>),
     (''seg-0-0-4.adt'', \<lparr>n_isFile = True, n_size = 7, n_mtimeMs = 1\<rparr>),
     (''notes'', \<lparr>n_isFile = True, n_size = 3, n_mtimeMs = 1\<rparr>)]"

lemma sample_listing:
  "map s_name (listSealedSegments ''/r'' sample_dir) = [''seg-0-0-4.adt'', ''seg-1-5-9.adt'']"
  by code_simp

theorem eviction_matches_directory_witness:
  "listSealedSegments ''/r'' (snd (evictOldestSealedSegments sample_fs ''/r''
      (listSealedSegments ''/r'' sample_dir) 12 10 None sample_dir))
   = ev_remaining (fst (evictOldestSealedSegments sample_fs ''/r''
      (listSealedSegments ''/r'' sample_dir) 12 10 None sample_dir))
   \<and> map s_name (ev_remaining (fst (evictOldestSealedSegments sample_fs ''/r''
      (listSealedSegments ''/r'' sample_dir) 12 10 None sample_dir))) = [''seg-1-5-9.adt'']"
proof -
  have "distinct (map fst sample_dir)" by code_simp
  from eviction_matches_directory [OF this, of sample_fs "''/r''" 12 10 None]
  have "listSealedSegments ''/r'' (snd (evictOldestSealedSegments sample_fs ''/r''
      (listSealedSegments ''/r'' sample_dir) 12 10 None sample_dir))
   = ev_remaining (fst (evictOldestSealedSegments sample_fs ''/r''
      (listSealedSegments ''/r'' sample_dir) 12 10 None sample_dir))" by simp
  moreover have "map s_name (ev_remaining (fst (evictOldestSealedSegments sample_fs ''/r''
      (listSealedSegments ''/r'' sample_dir) 12 10 None sample_dir))) = [''seg-1-5-9.adt'']" by code_simp
  ultimately show ?thesis ..
qed

definition uuid_a :: string where "uuid_a = ''00000000-0000-4000-8000-00000000000a''"
definition uuid_b :: string where "uuid_b = ''00000000-0000-4000-8000-00000000000b''"

definition sample_root :: runtime_root where
  "sample_root = [(uuid_a, sample_dir), (uuid_b, sample_dir)]"

theorem scope_retention_respects_protection_witness:
  "distinct (sc_evictedSessions (fst (enforceScopeRetention sample_fs ''/t'' uuid_a 20 (\<lambda>_. False) sample_root)))
   \<and> dir_of uuid_a (snd (enforceScopeRetention sample_fs ''/t'' uuid_a 20 (\<lambda>_. False) sample_root))
     = dir_of uuid_a sample_root
   \<and> sc_evictedSessions (fst (enforceScopeRetention sample_fs ''/t'' uuid_a 20 (\<lambda>_. False) sample_root)) = [uuid_b]"
proof -
  obtain r root' where run: "enforceScopeRetention sample_fs ''/t'' uuid_a 20 (\<lambda>_. False) sample_root = (r, root')"
    by (cases "enforceScopeRetention sample_fs ''/t'' uuid_a 20 (\<lambda>_. False) sample_root")
  have "sc_evictedSessions (fst (enforceScopeRetention sample_fs ''/t'' uuid_a 20 (\<lambda>_. False) sample_root)) = [uuid_b]"
    by code_simp
  with scope_retention_respects_protection [OF run] run show ?thesis by auto
qed

text \<open>The pass on two sessions, the one that may be taken with bytes and without.\<close>

definition empty_root :: runtime_root where
  "empty_root = [(uuid_a, sample_dir), (uuid_b, [(''seg-0-0-4.adt'', \<lparr>n_isFile = True, n_size = 0, n_mtimeMs = 1\<rparr>)])]"

theorem scope_retention_reaches_cap_witness:
  "sc_remainingBytes (fst (enforceScopeRetention sample_fs ''/t'' uuid_a 20 (\<lambda>_. False) sample_root)) \<le> 20
   \<and> \<not> sc_remainingBytes (fst (enforceScopeRetention sample_fs ''/t'' uuid_a 5 (\<lambda>_. False) empty_root)) \<le> 5
   \<and> (\<exists>(t, gs) \<in> set (scope_sessions ''/t'' empty_root). t \<noteq> uuid_a \<and> totalBytes gs = 0)"
proof -
  let ?run = "\<lambda>mb root. enforceScopeRetention sample_fs ''/t'' uuid_a mb (\<lambda>_. False) root"
  have work: "renames_work sample_fs" by (simp add: renames_work_def sample_fs_def)
  have roots: "distinct (map fst empty_root)" "\<forall>(t, dir) \<in> set empty_root. distinct (map fst dir)" by code_simp+
  have full: "sc_remainingBytes (fst (?run 20 sample_root)) \<le> 20" by code_simp
  have stuck: "\<not> sc_remainingBytes (fst (?run 5 empty_root)) \<le> 5" "uuid_b \<in> fst ` set (scope_sessions ''/t'' empty_root)"
    "uuid_b \<notin> set (sc_evictedSessions (fst (?run 5 empty_root)))" "uuid_b \<noteq> uuid_a" by code_simp+
  from scope_retention_reaches_cap [OF work roots surjective_pairing, of "''/t''" uuid_a 5 "\<lambda>_. False"] stuck
  have "\<exists>(t, gs) \<in> set (scope_sessions ''/t'' empty_root). t \<noteq> uuid_a \<and> totalBytes gs = 0" by blast
  with full stuck show ?thesis by blast
qed

end
