(* ===== verification/Janitor.thy ===== *)
theory Janitor
  imports Json "HOL-Library.List_Lexorder" "HOL-Library.Char_ord" "HOL-Library.Sublist" "HOL-Library.Multiset"
begin

text \<open>
  The pure half of the machine-wide janitor, \<^verbatim>\<open>resources/janitor-model.ts\<close>: section roots, ids
  and labels, the porcelain parser and the worktree candidates, the bounded size walk over the
  injected file system, the plan digest, trash naming and the identity re-proof. SHA-256 is the
  argument \<open>sha\<close>; \<open>clock i\<close> is the reading of \<open>now()\<close> taken for the \<open>i\<close>-th visited entry.
\<close>

section \<open>Data\<close>

type_synonym identity = "string \<times> string"  \<comment> \<open>device and inode\<close>

record fs_entry =
  e_isDirectory :: bool
  e_isFile :: bool
  e_isSymbolicLink :: bool
  e_identity :: identity
  e_bytes :: int
  e_mtimeMs :: jsnum

record janitor_fs =
  jf_lstat :: "string \<Rightarrow> fs_entry option"
  jf_readdir :: "string \<Rightarrow> string list option"  \<comment> \<open>\<open>None\<close> when it throws\<close>

datatype disposal = Trash | Trash_empty | Prune

fun disposal_name :: "disposal \<Rightarrow> string" where
  "disposal_name Trash = ''trash''"
| "disposal_name Trash_empty = ''trash_empty''"
| "disposal_name Prune = ''prune''"

section \<open>Roots, ids and labels\<close>

definition janitorSectionRoots :: "string \<Rightarrow> (string \<times> string) list" where
  "janitorSectionRoots home =
     [(''derived_data'', home @ ''/Library/Developer/Xcode/DerivedData''),
      (''cache'', home @ ''/Library/Caches''),
      (''logs'', home @ ''/Library/Logs''),
      (''trash'', home @ ''/.Trash'')]"

definition janitorItemId :: "(string \<Rightarrow> string) \<Rightarrow> string \<Rightarrow> string" where
  "janitorItemId sha canonicalPath = ''jn-'' @ take 32 (sha canonicalPath)"

definition janitorPathLabel :: "string \<Rightarrow> string \<Rightarrow> string" where
  "janitorPathLabel home absolutePath =
     (if absolutePath = home then ''~''
      else if prefix (home @ ''/'') absolutePath then CHR ''~'' # drop (length home) absolutePath
      else absolutePath)"

section \<open>Worktree candidates\<close>

record worktree_input =
  w_path :: string
  w_branchRef :: "string option"
  w_detached :: bool
  w_bare :: bool
  w_locked :: bool
  w_prunable :: "string option"

record worktree_candidate =
  c_canonicalPath :: string
  c_label :: string
  c_pathLabel :: string
  c_disposal :: disposal
  c_branchLabel :: "string option"
  c_prunableReason :: "string option"

definition branchLabelOf :: "worktree_input \<Rightarrow> string option" where
  "branchLabelOf entry =
     (case w_branchRef entry of
        Some (c # r) \<Rightarrow> Some (if prefix ''refs/heads/'' (c # r) then drop 11 (c # r) else c # r)
      | _ \<Rightarrow> if w_detached entry then Some ''detached'' else None)"

text \<open>\<open>lastIndexOf('/')\<close> and the text after it.\<close>

definition basenameOf :: "string \<Rightarrow> string" where
  "basenameOf path = last (split_on (CHR ''/'') path)"

definition candidate_of :: "string \<Rightarrow> worktree_input \<Rightarrow> worktree_candidate" where
  "candidate_of home entry =
     (let branchLabel = branchLabelOf entry in
      \<lparr>c_canonicalPath = w_path entry,
       c_label = (case branchLabel of None \<Rightarrow> basenameOf (w_path entry) | Some l \<Rightarrow> l),
       c_pathLabel = janitorPathLabel home (w_path entry),
       c_disposal = (if w_prunable entry = None then Trash else Prune),
       c_branchLabel = branchLabel, c_prunableReason = w_prunable entry\<rparr>)"

fun candidates_from ::
  "string list \<Rightarrow> string \<Rightarrow> nat \<Rightarrow> worktree_input list \<Rightarrow> worktree_candidate list" where
  "candidates_from registered home index [] = []"
| "candidates_from registered home index (entry # rest) =
     (if w_bare entry \<or> w_locked entry then candidates_from registered home (index + 1) rest
      else if index = 0 \<or> w_path entry \<in> set registered then candidates_from registered home (index + 1) rest
      else candidate_of home entry # candidates_from registered home (index + 1) rest)"

definition janitorWorktreeCandidates ::
  "worktree_input list \<Rightarrow> string list \<Rightarrow> string \<Rightarrow> worktree_candidate list" where
  "janitorWorktreeCandidates entries registeredRoots home = candidates_from registeredRoots home 0 entries"

section \<open>Porcelain parser\<close>

definition fresh_entry :: "string \<Rightarrow> worktree_input" where
  "fresh_entry path = \<lparr>w_path = path, w_branchRef = None, w_detached = False, w_bare = False,
     w_locked = False, w_prunable = None\<rparr>"

definition attribute_line :: "string \<Rightarrow> worktree_input \<Rightarrow> worktree_input" where
  "attribute_line line current =
     (if prefix ''branch '' line then current\<lparr>w_branchRef := Some (drop 7 line)\<rparr>
      else if line = ''detached'' then current\<lparr>w_detached := True\<rparr>
      else if line = ''bare'' then current\<lparr>w_bare := True\<rparr>
      else if line = ''locked'' then current\<lparr>w_locked := True\<rparr>
      else if prefix ''prunable '' line then current\<lparr>w_prunable := Some (drop 9 line)\<rparr>
      else current)"

definition flush :: "worktree_input option \<Rightarrow> worktree_input list" where
  "flush current = (case current of None \<Rightarrow> [] | Some e \<Rightarrow> [e])"

fun porcelain_lines :: "worktree_input option \<Rightarrow> string list \<Rightarrow> worktree_input list" where
  "porcelain_lines current [] = flush current"
| "porcelain_lines current (line # rest) =
     (if length line = 0 then flush current @ porcelain_lines None rest
      else if prefix ''worktree '' line
      then flush current @ porcelain_lines (Some (fresh_entry (drop 9 line))) rest
      else porcelain_lines (map_option (attribute_line line) current) rest)"

definition parseWorktreePorcelain :: "string \<Rightarrow> worktree_input list" where
  "parseWorktreePorcelain stdout = porcelain_lines None (split_on (CHR 0x0A) stdout)"

section \<open>Bounded size walk\<close>

record walk_budget =
  b_deadlineMs :: int
  b_maxEntries :: int
  b_maxDepth :: int

datatype measurement = Measured int | Stale | Unreadable

text \<open>One directory's names: running out of budget is \<open>None\<close>; the stack's top is its head.\<close>

fun walk_names ::
  "janitor_fs \<Rightarrow> walk_budget \<Rightarrow> (int \<Rightarrow> int) \<Rightarrow> string \<times> int \<Rightarrow> string list \<Rightarrow> int \<times> int \<times> (string \<times> int) list
     \<Rightarrow> (int \<times> int \<times> (string \<times> int) list) option" where
  "walk_names fs b clock current [] st = Some st"
| "walk_names fs b clock current (name # names) (acc, entries, stack) =
     (let entries1 = entries + 1 in
      if entries1 > b_maxEntries b \<or> clock entries1 > b_deadlineMs b then None
      else let path = fst current @ CHR ''/'' # name in
      (case jf_lstat fs path of
         None \<Rightarrow> walk_names fs b clock current names (acc, entries1, stack)
       | Some child \<Rightarrow>
           if e_isSymbolicLink child then walk_names fs b clock current names (acc, entries1, stack)
           else if e_isDirectory child \<and> snd current < b_maxDepth b
           then walk_names fs b clock current names
                  (acc + e_bytes child, entries1, (path, snd current + 1) # stack)
           else walk_names fs b clock current names (acc + e_bytes child, entries1, stack)))"

lemma walk_names_budget:
  "walk_names fs b clock current names (acc, entries, stack) = Some (acc1, entries1, stack1) \<Longrightarrow>
     2 * nat (b_maxEntries b - entries1) + length stack1 \<le> 2 * nat (b_maxEntries b - entries) + length stack"
proof (induction names arbitrary: acc entries stack)
  case Nil
  then show ?case by simp
next
  case (Cons name names)
  then obtain acc2 stack2 where le: "entries + 1 \<le> b_maxEntries b"
    and step: "walk_names fs b clock current names (acc2, entries + 1, stack2) = Some (acc1, entries1, stack1)"
    and grow: "length stack2 \<le> Suc (length stack)"
    by (auto simp: Let_def split: if_splits option.splits)
  from Cons.IH [OF step] le grow show ?case by linarith
qed

function walk_stack ::
  "janitor_fs \<Rightarrow> walk_budget \<Rightarrow> (int \<Rightarrow> int) \<Rightarrow> int \<Rightarrow> int \<Rightarrow> (string \<times> int) list \<Rightarrow> measurement" where
  "walk_stack fs b clock acc entries [] = Measured acc"
| "walk_stack fs b clock acc entries (current # stack) =
     (case jf_readdir fs (fst current) of
        None \<Rightarrow> walk_stack fs b clock acc entries stack
      | Some names \<Rightarrow>
          (case walk_names fs b clock current names (acc, entries, stack) of
             None \<Rightarrow> Stale
           | Some (acc1, entries1, stack1) \<Rightarrow> walk_stack fs b clock acc1 entries1 stack1))"
  by pat_completeness auto
termination
proof (relation "measure (\<lambda>(_, b, _, _, entries, stack). 2 * nat (b_maxEntries b - entries) + length stack)", goal_cases)
  case 1
  then show ?case by simp
next
  case (2 fs b clock acc entries current stack)
  then show ?case by simp
next
  case (3 fs b clock acc entries current stack names st a x e s1)
  then show ?case using walk_names_budget [of fs b clock current names acc entries stack a e s1] by auto
qed

definition measureBytes :: "janitor_fs \<Rightarrow> string \<Rightarrow> walk_budget \<Rightarrow> (int \<Rightarrow> int) \<Rightarrow> measurement" where
  "measureBytes fs root b clock =
     (case jf_lstat fs root of
        None \<Rightarrow> Unreadable
      | Some presented \<Rightarrow>
          if e_isSymbolicLink presented then Unreadable
          else if \<not> e_isDirectory presented then Measured (e_bytes presented)
          else walk_stack fs b clock 0 0 [(root, 0)])"

section \<open>Plan digest, trash names, identity\<close>

record plan_fact =
  pl_id :: string
  pl_disposal :: disposal
  pl_identity :: identity

definition plan_text :: "plan_fact list \<Rightarrow> int \<Rightarrow> string" where
  "plan_text facts generation =
     stringify (Json_obj [(''generation'', Json_int generation),
       (''items'', Json_arr (map (\<lambda>fact. Json_obj
          [(''disposal'', Json_str (disposal_name (pl_disposal fact))), (''id'', Json_str (pl_id fact)),
           (''identity'', Json_obj [(''device'', Json_str (fst (pl_identity fact))),
                                   (''inode'', Json_str (snd (pl_identity fact)))])])
          (sort_key pl_id facts)))])"

definition janitorPlanDigest :: "(string \<Rightarrow> string) \<Rightarrow> plan_fact list \<Rightarrow> int \<Rightarrow> string" where
  "janitorPlanDigest sha facts generation = sha (plan_text facts generation)"

definition trash_candidate :: "string \<Rightarrow> nat \<Rightarrow> string" where
  "trash_candidate base index = base @ CHR ''-'' # show_nat index"

text \<open>The unbounded \<open>for\<close> loop; \<open>None\<close> would mean that it never returns.\<close>

partial_function (option) trash_loop :: "string list \<Rightarrow> string \<Rightarrow> nat \<Rightarrow> string option" where
  "trash_loop existing base index =
     (if trash_candidate base index \<notin> set existing then Some (trash_candidate base index)
      else trash_loop existing base (index + 1))"

definition trashDestinationName :: "string list \<Rightarrow> string \<Rightarrow> string option" where
  "trashDestinationName existing base =
     (if base \<notin> set existing then Some base else trash_loop existing base 2)"

definition identityMatches :: "fs_entry option \<Rightarrow> identity \<Rightarrow> bool \<Rightarrow> bool" where
  "identityMatches presented expected requireDirectory =
     (case presented of
        None \<Rightarrow> False
      | Some e \<Rightarrow>
          if e_isSymbolicLink e then False
          else if requireDirectory \<and> \<not> e_isDirectory e then False
          else fst (e_identity e) = fst expected \<and> snd (e_identity e) = snd expected)"

text \<open>\<open>to_iso\<close> renders a time; a time that is not finite, not positive or in the future stays absent.\<close>

definition modifiedAtOf :: "(jsnum \<Rightarrow> string) \<Rightarrow> jsnum \<Rightarrow> int \<Rightarrow> string option" where
  "modifiedAtOf to_iso mtimeMs at =
     (case mtimeMs of
        NInt i \<Rightarrow> if i \<le> 0 \<or> i > at then None else Some (to_iso mtimeMs)
      | NFrac a b \<Rightarrow> if (a \<le> 0) \<or> a > at * b then None else Some (to_iso mtimeMs)
      | _ \<Rightarrow> None)"

section \<open>Trash names\<close>

lemma show_nat_inj: "show_nat m = show_nat n \<longleftrightarrow> m = n"
  by (metis digit_chars_value show_nat_def)

lemma trash_candidate_inj: "inj (trash_candidate base)"
  by (rule injI) (simp add: trash_candidate_def show_nat_inj)

lemma trash_loop_returns:
  assumes "k \<ge> i" and "trash_candidate base k \<notin> set existing"
    and "\<forall>j. i \<le> j \<and> j < k \<longrightarrow> trash_candidate base j \<in> set existing"
  shows "trash_loop existing base i = Some (trash_candidate base k)"
  using assms
proof (induction "k - i" arbitrary: i)
  case 0
  then show ?case by (subst trash_loop.simps) simp
next
  case (Suc n)
  then have "trash_candidate base i \<in> set existing" by auto
  moreover have "trash_loop existing base (i + 1) = Some (trash_candidate base k)"
    using Suc.hyps(1) [of "i + 1"] Suc.hyps(2) Suc.prems by auto
  ultimately show ?case by (subst trash_loop.simps) simp
qed

lemma free_candidate: "\<exists>k\<ge>2. k \<le> length existing + 2 \<and> trash_candidate base k \<notin> set existing"
proof (rule ccontr)
  assume "\<not> ?thesis"
  then have "trash_candidate base ` {2..length existing + 2} \<subseteq> set existing" by auto
  then have "card (trash_candidate base ` {2..length existing + 2}) \<le> length existing"
    by (meson card_length card_mono finite_set le_trans)
  moreover have "card (trash_candidate base ` {2..length existing + 2}) = length existing + 1"
    using card_image [OF inj_on_subset [OF trash_candidate_inj], of "{2..length existing + 2}" base] by simp
  ultimately show False by simp
qed

text \<open>The search for a trash name always returns, within one try more than there are entries
  in the trash; the name is not taken, and it is the base name when that is free and otherwise
  the base with the least free number from two on.\<close>

theorem trash_name_found:
  "\<exists>name. trashDestinationName existing base = Some name \<and> name \<notin> set existing
     \<and> (name = base \<or> (base \<in> set existing \<and> (\<exists>k\<ge>2. k \<le> length existing + 2 \<and> name = trash_candidate base k
          \<and> (\<forall>j. 2 \<le> j \<and> j < k \<longrightarrow> trash_candidate base j \<in> set existing))))"
proof (cases "base \<in> set existing")
  case False
  then show ?thesis by (simp add: trashDestinationName_def)
next
  case True
  define k where "k = (LEAST k. k \<ge> 2 \<and> trash_candidate base k \<notin> set existing)"
  from free_candidate obtain m where m: "m \<ge> 2" "m \<le> length existing + 2" "trash_candidate base m \<notin> set existing"
    by blast
  have k: "k \<ge> 2 \<and> trash_candidate base k \<notin> set existing"
    unfolding k_def by (rule LeastI) (use m in blast)
  have "k \<le> m" unfolding k_def by (rule Least_le) (use m in blast)
  moreover have below: "\<forall>j. 2 \<le> j \<and> j < k \<longrightarrow> trash_candidate base j \<in> set existing"
    unfolding k_def using not_less_Least by blast
  moreover have "trash_loop existing base 2 = Some (trash_candidate base k)"
    using trash_loop_returns [of 2 k base existing] k below by blast
  ultimately show ?thesis using True k m(2) by (auto simp: trashDestinationName_def)
qed

theorem trash_name_found_witness:
  "trashDestinationName [''a'', ''a-2''] ''a'' = Some ''a-3''"
proof -
  have free: "trash_candidate ''a'' 3 = ''a-3''" "trash_candidate ''a'' 2 = ''a-2''" by code_simp+
  from trash_name_found [of "[''a'', ''a-2'']" "''a''"] obtain name k where
    n: "trashDestinationName [''a'', ''a-2''] ''a'' = Some name" "name \<notin> set [''a'', ''a-2'']"
      "name = trash_candidate ''a'' k" "k \<ge> 2"
      "\<forall>j. 2 \<le> j \<and> j < k \<longrightarrow> trash_candidate ''a'' j \<in> set [''a'', ''a-2'']" by auto
  have "k \<noteq> 2" using n(2,3) free(2) by auto
  moreover have "\<not> 3 < k" using spec [OF n(5), of 3] free(1) by auto
  ultimately have "k = 3" using n(4) by simp
  with n free show ?thesis by simp
qed

section \<open>Plan digest\<close>

lemma disposal_name_inj [simp]: "disposal_name a = disposal_name b \<longleftrightarrow> a = b"
  by (cases a; cases b) simp_all

text \<open>The text a janitor plan is digested from does not depend on the order of its facts, and
  two plans with distinct ids have the same text only if they agree on the generation and on
  every id, disposal and on-disk identity.\<close>

theorem plan_digest_binds_facts:
  assumes "distinct (map pl_id facts)"
  shows "plan_text facts g = plan_text facts' g' \<longleftrightarrow> g = g' \<and> mset facts = mset facts'"
proof -
  have inj: "inj (\<lambda>fact :: plan_fact. Json_obj
          [(''disposal'', Json_str (disposal_name (pl_disposal fact))), (''id'', Json_str (pl_id fact)),
           (''identity'', Json_obj [(''device'', Json_str (fst (pl_identity fact))),
                                   (''inode'', Json_str (snd (pl_identity fact)))])])"
    by (rule injI) (simp add: prod_eq_iff)
  have "plan_text facts g = plan_text facts' g' \<longleftrightarrow> g = g' \<and> sort_key pl_id facts = sort_key pl_id facts'"
    unfolding plan_text_def stringify_inj by (simp add: inj_map_eq_map [OF inj])
  moreover have "sort_key pl_id facts = sort_key pl_id facts' \<longleftrightarrow> mset facts = mset facts'"
    using sort_key_perm [of facts facts' pl_id] assms by (metis mset_sort)
  ultimately show ?thesis by simp
qed

section \<open>The size walk measures the tree\<close>

text \<open>A file tree and the bytes a walk of bounded depth should count: every entry that is not a
  symbolic link, and the contents of directories down to depth \<open>md\<close>.\<close>

datatype ftree = FFile int | FLink | FDir int "(string \<times> ftree) list"

fun node_bytes :: "int \<Rightarrow> int \<Rightarrow> ftree \<Rightarrow> int" where
  "node_bytes md d (FFile b) = b"
| "node_bytes md d FLink = 0"
| "node_bytes md d (FDir b cs) = b + (if d \<le> md then sum_list (map (\<lambda>c. node_bytes md (d + 1) (snd c)) cs) else 0)"

fun node_count :: "int \<Rightarrow> int \<Rightarrow> ftree \<Rightarrow> int" where
  "node_count md d (FFile b) = 1"
| "node_count md d FLink = 1"
| "node_count md d (FDir b cs) = 1 + (if d \<le> md then sum_list (map (\<lambda>c. node_count md (d + 1) (snd c)) cs) else 0)"

fun repr :: "janitor_fs \<Rightarrow> string \<Rightarrow> ftree \<Rightarrow> bool" where
  "repr fs p (FFile b) \<longleftrightarrow> (\<exists>e. jf_lstat fs p = Some e \<and> \<not> e_isSymbolicLink e \<and> \<not> e_isDirectory e \<and> e_bytes e = b)"
| "repr fs p FLink \<longleftrightarrow> (\<exists>e. jf_lstat fs p = Some e \<and> e_isSymbolicLink e)"
| "repr fs p (FDir b cs) \<longleftrightarrow>
     (\<exists>e. jf_lstat fs p = Some e \<and> \<not> e_isSymbolicLink e \<and> e_isDirectory e \<and> e_bytes e = b)
     \<and> jf_readdir fs p = Some (map fst cs) \<and> (\<forall>c\<in>set cs. repr fs (p @ CHR ''/'' # fst c) (snd c))"

lemma node_count_pos: "node_count md d t \<ge> 1"
proof (induction md d t rule: node_count.induct)
  case (3 md d b cs)
  then have "sum_list (map (\<lambda>c. node_count md (d + 1) (snd c)) cs) \<ge> 0" if "d \<le> md"
    using that by (intro sum_list_nonneg) fastforce
  then show ?case by simp
qed simp_all

type_synonym pending = "string \<times> int \<times> (string \<times> ftree) list"

definition pending_ok :: "janitor_fs \<Rightarrow> pending \<Rightarrow> bool" where
  "pending_ok fs = (\<lambda>(p, d, cs). jf_readdir fs p = Some (map fst cs)
     \<and> (\<forall>c\<in>set cs. repr fs (p @ CHR ''/'' # fst c) (snd c)))"

definition pending_bytes :: "int \<Rightarrow> pending list \<Rightarrow> int" where
  "pending_bytes md ps = sum_list (map (\<lambda>(p, d, cs). sum_list (map (\<lambda>c. node_bytes md (d + 1) (snd c)) cs)) ps)"

definition pending_count :: "int \<Rightarrow> pending list \<Rightarrow> int" where
  "pending_count md ps = sum_list (map (\<lambda>(p, d, cs). sum_list (map (\<lambda>c. node_count md (d + 1) (snd c)) cs)) ps)"

abbreviation stack_of :: "pending list \<Rightarrow> (string \<times> int) list" where
  "stack_of ps \<equiv> map (\<lambda>(p, d, cs). (p, d)) ps"

lemma pending_count_nonneg: "pending_count md ps \<ge> 0"
proof -
  have "sum_list (map (\<lambda>c. node_count md d (snd c)) cs) \<ge> 0" for d and cs :: "(string \<times> ftree) list"
    using node_count_pos by (intro sum_list_nonneg) (auto intro: order_trans [OF zero_le_one])
  then show ?thesis unfolding pending_count_def by (intro sum_list_nonneg) auto
qed

text \<open>The outcome of a walk leaves work on the stack whose bytes and entries, with those already
  counted, add up to \<open>B\<close> and \<open>N\<close>.\<close>

definition accounts ::
  "janitor_fs \<Rightarrow> int \<Rightarrow> (int \<times> int \<times> (string \<times> int) list) option \<Rightarrow> int \<Rightarrow> int \<Rightarrow> bool" where
  "accounts fs md res B N \<longleftrightarrow> (\<exists>acc1 entries1 ps1. res = Some (acc1, entries1, stack_of ps1)
     \<and> (\<forall>x\<in>set ps1. pending_ok fs x)
     \<and> acc1 + pending_bytes md ps1 = B \<and> entries1 + pending_count md ps1 = N)"

definition children_bytes :: "int \<Rightarrow> int \<Rightarrow> (string \<times> ftree) list \<Rightarrow> int" where
  "children_bytes md d cs = sum_list (map (\<lambda>c. node_bytes md (d + 1) (snd c)) cs)"

definition children_count :: "int \<Rightarrow> int \<Rightarrow> (string \<times> ftree) list \<Rightarrow> int" where
  "children_count md d cs = sum_list (map (\<lambda>c. node_count md (d + 1) (snd c)) cs)"

lemma children_simps [simp]:
  "children_bytes md d [] = 0" "children_bytes md d (c # cs) = node_bytes md (d + 1) (snd c) + children_bytes md d cs"
  "children_count md d [] = 0" "children_count md d (c # cs) = node_count md (d + 1) (snd c) + children_count md d cs"
  by (simp_all add: children_bytes_def children_count_def)

lemma pending_simps [simp]:
  "pending_bytes md [] = 0" "pending_bytes md ((p, d, cs) # ps) = children_bytes md d cs + pending_bytes md ps"
  "pending_count md [] = 0" "pending_count md ((p, d, cs) # ps) = children_count md d cs + pending_count md ps"
  by (simp_all add: pending_bytes_def pending_count_def children_bytes_def children_count_def)

lemma node_dir_simps:
  "node_bytes md d (FDir n cs) = n + (if d \<le> md then children_bytes md d cs else 0)"
  "node_count md d (FDir n cs) = 1 + (if d \<le> md then children_count md d cs else 0)"
  by (simp_all add: children_bytes_def children_count_def)

lemma children_count_nonneg: "children_count md d cs \<ge> 0"
proof (induction cs)
  case (Cons c cs)
  then show ?case using node_count_pos [of md "d + 1" "snd c"] by simp
qed simp

lemma walk_names_tree:
  assumes clk: "\<forall>i. clock i \<le> b_deadlineMs b" and md: "md = b_maxDepth b"
  shows "\<forall>c\<in>set cs. repr fs (p @ CHR ''/'' # fst c) (snd c) \<Longrightarrow> \<forall>x\<in>set ps. pending_ok fs x \<Longrightarrow>
     entries + children_count md d cs + pending_count md ps \<le> b_maxEntries b \<Longrightarrow>
     accounts fs md (walk_names fs b clock (p, d) (map fst cs) (acc, entries, stack_of ps))
       (acc + children_bytes md d cs + pending_bytes md ps) (entries + children_count md d cs + pending_count md ps)"
proof (induction cs arbitrary: acc entries ps)
  case Nil
  then show ?case by (auto simp: accounts_def)
next
  case (Cons c cs)
  let ?path = "p @ CHR ''/'' # fst c"
  have lim: "entries + 1 \<le> b_maxEntries b" "clock (entries + 1) \<le> b_deadlineMs b"
    using Cons.prems(3) clk pending_count_nonneg [of md ps] node_count_pos [of md "d + 1" "snd c"]
      children_count_nonneg [of md d cs] by auto
  have IH: "\<And>acc entries ps. \<forall>x\<in>set ps. pending_ok fs x \<Longrightarrow>
     entries + children_count md d cs + pending_count md ps \<le> b_maxEntries b \<Longrightarrow>
     accounts fs md (walk_names fs b clock (p, d) (map fst cs) (acc, entries, stack_of ps))
       (acc + children_bytes md d cs + pending_bytes md ps) (entries + children_count md d cs + pending_count md ps)"
    using Cons.IH Cons.prems(1) by simp
  show ?case
  proof (cases "snd c")
    case (FFile n)
    with Cons.prems(1) obtain e where e: "jf_lstat fs ?path = Some e" "\<not> e_isSymbolicLink e" "\<not> e_isDirectory e" "e_bytes e = n"
      by auto
    from IH [OF Cons.prems(2), of "entries + 1" "acc + n"] Cons.prems(3) FFile lim e show ?thesis
      by (simp add: Let_def add_ac)
  next
    case FLink
    with Cons.prems(1) obtain e where e: "jf_lstat fs ?path = Some e" "e_isSymbolicLink e" by auto
    from IH [OF Cons.prems(2), of "entries + 1" acc] Cons.prems(3) FLink lim e show ?thesis
      by (simp add: Let_def add_ac)
  next
    case (FDir n ds)
    with Cons.prems(1) obtain e where e: "jf_lstat fs ?path = Some e" "\<not> e_isSymbolicLink e" "e_isDirectory e" "e_bytes e = n"
      and ds: "pending_ok fs (?path, d + 1, ds)" by (auto simp: pending_ok_def)
    show ?thesis
    proof (cases "d < md")
      case True
      have "\<forall>x\<in>set ((?path, d + 1, ds) # ps). pending_ok fs x" using ds Cons.prems(2) by auto
      from IH [OF this, of "entries + 1" "acc + n"] Cons.prems(3) FDir lim e True md show ?thesis
        by (simp add: Let_def add_ac node_dir_simps del: node_bytes.simps node_count.simps)
    next
      case False
      from IH [OF Cons.prems(2), of "entries + 1" "acc + n"] Cons.prems(3) FDir lim e False md show ?thesis
        by (simp add: Let_def add_ac node_dir_simps del: node_bytes.simps node_count.simps)
    qed
  qed
qed

lemma walk_stack_tree:
  assumes clk: "\<forall>i. clock i \<le> b_deadlineMs b" and md: "md = b_maxDepth b"
  shows "\<forall>x\<in>set ps. pending_ok fs x \<Longrightarrow> entries + pending_count md ps \<le> b_maxEntries b \<Longrightarrow>
     walk_stack fs b clock acc entries (stack_of ps) = Measured (acc + pending_bytes md ps)"
proof (induction "2 * nat (b_maxEntries b - entries) + length ps" arbitrary: acc entries ps rule: less_induct)
  case less
  show ?case
  proof (cases ps)
    case Nil
    then show ?thesis by simp
  next
    case (Cons x rest)
    obtain p d cs where x: "x = (p, d, cs)" by (cases x)
    with Cons less.prems have rd: "jf_readdir fs p = Some (map fst cs)"
      and cs: "\<forall>c\<in>set cs. repr fs (p @ CHR ''/'' # fst c) (snd c)" and rest: "\<forall>y\<in>set rest. pending_ok fs y"
      and bud: "entries + children_count md d cs + pending_count md rest \<le> b_maxEntries b"
      by (auto simp: pending_ok_def)
    from walk_names_tree [OF clk md cs rest bud, of acc] obtain acc1 entries1 ps1 where
      w: "walk_names fs b clock (p, d) (map fst cs) (acc, entries, stack_of rest) = Some (acc1, entries1, stack_of ps1)"
      and ok1: "\<forall>y\<in>set ps1. pending_ok fs y"
      and b1: "acc1 + pending_bytes md ps1 = acc + children_bytes md d cs + pending_bytes md rest"
      and n1: "entries1 + pending_count md ps1 = entries + children_count md d cs + pending_count md rest"
      by (auto simp: accounts_def)
    have "2 * nat (b_maxEntries b - entries1) + length ps1 < 2 * nat (b_maxEntries b - entries) + length ps"
      using walk_names_budget [OF w] Cons by simp
    from less.hyps [OF this ok1, of acc1] n1 bud
    have "walk_stack fs b clock acc1 entries1 (stack_of ps1) = Measured (acc1 + pending_bytes md ps1)" by simp
    with Cons x rd w b1 show ?thesis by (simp add: add_ac)
  qed
qed

text \<open>On a directory tree whose entries fit the budget, and before the deadline, the size walk
  returns exactly the bytes of all entries below the root, symbolic links excluded and never
  followed, directories opened down to the depth limit.\<close>

theorem measureBytes_exact:
  assumes "repr fs root (FDir n cs)" and "\<forall>i. clock i \<le> b_deadlineMs b"
    and "sum_list (map (\<lambda>c. node_count (b_maxDepth b) 1 (snd c)) cs) \<le> b_maxEntries b"
  shows "measureBytes fs root b clock = Measured (sum_list (map (\<lambda>c. node_bytes (b_maxDepth b) 1 (snd c)) cs))"
proof -
  from assms(1) obtain e where e: "jf_lstat fs root = Some e" "\<not> e_isSymbolicLink e" "e_isDirectory e"
    and ok: "pending_ok fs (root, 0, cs)" by (auto simp: pending_ok_def)
  have "walk_stack fs b clock 0 0 (stack_of [(root, 0, cs)]) = Measured (0 + pending_bytes (b_maxDepth b) [(root, 0, cs)])"
    using ok assms(3) by (intro walk_stack_tree [OF assms(2) refl]) (simp_all add: children_count_def)
  with e show ?thesis by (simp add: measureBytes_def children_bytes_def)
qed

definition small_fs :: janitor_fs where
  "small_fs = \<lparr>jf_lstat = \<lambda>p.
       if p = ''/r'' \<or> p = ''/r/d'' then Some \<lparr>e_isDirectory = True, e_isFile = False, e_isSymbolicLink = False,
          e_identity = (''1'', p), e_bytes = 4, e_mtimeMs = NInt 1\<rparr>
       else if p = ''/r/l'' then Some \<lparr>e_isDirectory = False, e_isFile = False, e_isSymbolicLink = True,
          e_identity = (''1'', p), e_bytes = 9, e_mtimeMs = NInt 1\<rparr>
       else if p = ''/r/d/f'' then Some \<lparr>e_isDirectory = False, e_isFile = True, e_isSymbolicLink = False,
          e_identity = (''1'', p), e_bytes = 100, e_mtimeMs = NInt 1\<rparr>
       else None,
     jf_readdir = \<lambda>p. if p = ''/r'' then Some [''d'', ''l''] else if p = ''/r/d'' then Some [''f''] else None\<rparr>"

theorem measureBytes_exact_witness:
  "measureBytes small_fs ''/r'' \<lparr>b_deadlineMs = 10, b_maxEntries = 3, b_maxDepth = 5\<rparr> (\<lambda>_. 0) = Measured 104"
proof -
  have "repr small_fs ''/r'' (FDir 4 [(''d'', FDir 4 [(''f'', FFile 100)]), (''l'', FLink)])"
    by (simp add: small_fs_def)
  from measureBytes_exact [OF this, of "\<lambda>_. 0" "\<lparr>b_deadlineMs = 10, b_maxEntries = 3, b_maxDepth = 5\<rparr>"]
  show ?thesis by simp
qed

section \<open>Porcelain text\<close>

text \<open>The lines of one entry as git prints them, a lock without a reason.\<close>

definition entry_lines :: "worktree_input \<Rightarrow> string list" where
  "entry_lines e =
     [''worktree '' @ w_path e]
     @ (case w_branchRef e of None \<Rightarrow> [] | Some r \<Rightarrow> [''branch '' @ r])
     @ (if w_detached e then [''detached''] else []) @ (if w_bare e then [''bare''] else [])
     @ (if w_locked e then [''locked''] else [])
     @ (case w_prunable e of None \<Rightarrow> [] | Some r \<Rightarrow> [''prunable '' @ r]) @ [[]]"

definition unlines :: "string list \<Rightarrow> string" where
  "unlines ls = concat (map (\<lambda>l. l @ [CHR 0x0A]) ls)"

definition one_line :: "string \<Rightarrow> bool" where
  "one_line s \<longleftrightarrow> CHR 0x0A \<notin> set s"

definition printable :: "worktree_input \<Rightarrow> bool" where
  "printable e \<longleftrightarrow> one_line (w_path e) \<and> (\<forall>r. w_branchRef e = Some r \<longrightarrow> one_line r)
     \<and> (\<forall>r. w_prunable e = Some r \<longrightarrow> one_line r)"

lemma split_unlines: "\<forall>l\<in>set ls. one_line l \<Longrightarrow> split_on (CHR 0x0A) (unlines ls) = ls @ [[]]"
  by (induction ls) (auto simp: unlines_def one_line_def split_on_line)

lemma unlines_append: "unlines (a @ b) = unlines a @ unlines b"
  by (simp add: unlines_def)

lemma entry_lines_one_line: "printable e \<Longrightarrow> \<forall>l\<in>set (entry_lines e). one_line l"
  by (auto simp: entry_lines_def printable_def one_line_def split: option.splits if_splits)

lemma porcelain_entry: "porcelain_lines None (entry_lines e @ rest) = e # porcelain_lines None rest"
  by (cases e)
     (auto simp: entry_lines_def flush_def fresh_entry_def attribute_line_def split: option.splits)

lemma porcelain_entries: "porcelain_lines None (concat (map entry_lines es) @ rest) = es @ porcelain_lines None rest"
  by (induction es) (simp_all add: porcelain_entry)

text \<open>Parsing the porcelain text of a list of worktrees gives the list back, whatever the
  paths, branch names and reasons contain short of a line break, so text inside a path never
  becomes an attribute.\<close>

theorem porcelain_round_trip:
  assumes "list_all printable es"
  shows "parseWorktreePorcelain (unlines (concat (map entry_lines es))) = es"
proof -
  have "\<forall>l\<in>set (concat (map entry_lines es)). one_line l"
    using assms entry_lines_one_line by (auto simp: list_all_iff)
  then show ?thesis
    using porcelain_entries [of es "[[]]"] by (simp add: parseWorktreePorcelain_def split_unlines flush_def)
qed

text \<open>A worktree locked with a reason is offered for disposal. Git prints the reason on the
  same line, the parser only recognises the bare word, so the entry counts as unlocked and is
  a move-to-Trash candidate, although locked worktrees are documented never to be.\<close>

theorem locked_with_reason_is_offered:
  assumes "printable main" and "one_line path" and "one_line branch" and "one_line reason"
    and "path \<notin> set registered"
  shows "janitorWorktreeCandidates
      (parseWorktreePorcelain (unlines (entry_lines main @ [''worktree '' @ path, ''branch '' @ branch, ''locked '' @ reason, []])))
      registered home
    = [candidate_of home ((fresh_entry path)\<lparr>w_branchRef := Some branch\<rparr>)]
    \<and> c_disposal (candidate_of home ((fresh_entry path)\<lparr>w_branchRef := Some branch\<rparr>)) = Trash"
proof -
  let ?ls = "entry_lines main @ [''worktree '' @ path, ''branch '' @ branch, ''locked '' @ reason, []]"
  have "\<forall>l\<in>set ?ls. one_line l"
    using assms entry_lines_one_line [OF assms(1)] by (auto simp: one_line_def)
  then have "parseWorktreePorcelain (unlines ?ls) = main # porcelain_lines None
      ([''worktree '' @ path, ''branch '' @ branch, ''locked '' @ reason, []] @ [[]])"
    using porcelain_entry [of main] by (simp add: parseWorktreePorcelain_def split_unlines)
  also have "porcelain_lines None ([''worktree '' @ path, ''branch '' @ branch, ''locked '' @ reason, []] @ [[]])
      = [(fresh_entry path)\<lparr>w_branchRef := Some branch\<rparr>]"
    by (simp add: flush_def fresh_entry_def attribute_line_def)
  finally show ?thesis
    using assms(5) by (simp add: janitorWorktreeCandidates_def fresh_entry_def candidate_of_def Let_def)
qed

text \<open>Candidates are exactly the entries after the first that are not bare, not marked locked
  and not registered, in order; a prunable entry is pruned, any other moved to the Trash.\<close>

theorem candidates_exact:
  "janitorWorktreeCandidates (primary # entries) registered home =
     map (candidate_of home) (filter (\<lambda>e. \<not> w_bare e \<and> \<not> w_locked e \<and> w_path e \<notin> set registered) entries)"
proof -
  have "candidates_from registered home (Suc i) es =
      map (candidate_of home) (filter (\<lambda>e. \<not> w_bare e \<and> \<not> w_locked e \<and> w_path e \<notin> set registered) es)" for i es
    by (induction es arbitrary: i) auto
  then show ?thesis by (simp add: janitorWorktreeCandidates_def)
qed

definition wt_main :: worktree_input where "wt_main = fresh_entry ''/m''"

theorem porcelain_round_trip_witness:
  "parseWorktreePorcelain (unlines (concat (map entry_lines [wt_main, (fresh_entry ''locked'')\<lparr>w_locked := True\<rparr>])))
     = [wt_main, (fresh_entry ''locked'')\<lparr>w_locked := True\<rparr>]"
  by (rule porcelain_round_trip) (simp add: wt_main_def fresh_entry_def printable_def one_line_def)

theorem locked_with_reason_is_offered_witness:
  "janitorWorktreeCandidates
      (parseWorktreePorcelain (unlines (entry_lines wt_main @ [''worktree /w'', ''branch refs/heads/b'', ''locked busy'', []])))
      [] ''/home'' \<noteq> []"
  using locked_with_reason_is_offered [of wt_main "''/w''" "''refs/heads/b''" "''busy''" "[]" "''/home''"]
  by (simp add: wt_main_def fresh_entry_def printable_def one_line_def)

definition sample_plan_fact :: "string \<Rightarrow> plan_fact" where
  "sample_plan_fact i = \<lparr>pl_id = i, pl_disposal = Trash, pl_identity = (''d'', i)\<rparr>"

theorem plan_digest_binds_facts_witness:
  "plan_text [sample_plan_fact ''b'', sample_plan_fact ''a''] 1 = plan_text [sample_plan_fact ''a'', sample_plan_fact ''b''] 1"
  using plan_digest_binds_facts [of "[sample_plan_fact ''b'', sample_plan_fact ''a'']" 1
      "[sample_plan_fact ''a'', sample_plan_fact ''b'']" 1]
  by (simp add: sample_plan_fact_def add_mset_commute)

end
