(* ===== verification/Utf8.thy ===== *)
theory Utf8
  imports Prelude
begin

text \<open>
  Text as the wire codec sees it (\<^verbatim>\<open>packages/types/src/dev-runtime-unicode.ts\<close>, and the
  \<open>TextEncoder\<close> and fatal \<open>TextDecoder\<close> of \<^verbatim>\<open>dev-runtime-cbor.ts\<close>): a string is a list of 16-bit
  code units, UTF-8 is a list of bytes. The decoder rejects overlong forms, surrogates and
  values above 10FFFF, and drops one leading byte-order mark, as the default \<open>TextDecoder\<close> does.
\<close>

type_synonym units = "nat list"
type_synonym bytes = "nat list"

definition is_high :: "nat \<Rightarrow> bool" where "is_high u \<longleftrightarrow> 0xD800 \<le> u \<and> u \<le> 0xDBFF"
definition is_low :: "nat \<Rightarrow> bool" where "is_low u \<longleftrightarrow> 0xDC00 \<le> u \<and> u \<le> 0xDFFF"

text \<open>The pattern \<open>illFormed\<close>: a high surrogate not followed by a low one, or a low surrogate not
  preceded by a high one.\<close>

definition bad_at :: "units \<Rightarrow> nat \<Rightarrow> bool" where
  "bad_at s i \<longleftrightarrow> is_high (s ! i) \<and> \<not> (i + 1 < length s \<and> is_low (s ! (i + 1)))
    \<or> is_low (s ! i) \<and> \<not> (i > 0 \<and> is_high (s ! (i - 1)))"

definition ill_formed :: "units \<Rightarrow> bool" where
  "ill_formed s \<longleftrightarrow> list_ex (bad_at s) [0..<length s]"

fun paired :: "units \<Rightarrow> bool" where
  "paired [] = True"
| "paired [u] = (\<not> is_high u \<and> \<not> is_low u)"
| "paired (u # v # us) =
     (if is_high u then is_low v \<and> paired us else \<not> is_low u \<and> paired (v # us))"

fun code_points :: "units \<Rightarrow> nat list" where
  "code_points [] = []"
| "code_points [u] = [u]"
| "code_points (u # v # us) =
     (if is_high u then (0x10000 + (u - 0xD800) * 1024 + (v - 0xDC00)) # code_points us
      else u # code_points (v # us))"

definition units_of_cp :: "nat \<Rightarrow> units" where
  "units_of_cp c = (if c < 0x10000 then [c]
     else [0xD800 + (c - 0x10000) div 1024, 0xDC00 + (c - 0x10000) mod 1024])"

definition valid_cp :: "nat \<Rightarrow> bool" where
  "valid_cp c \<longleftrightarrow> c < 0x110000 \<and> \<not> (0xD800 \<le> c \<and> c \<le> 0xDFFF)"

definition utf8_cp :: "nat \<Rightarrow> bytes" where
  "utf8_cp c =
     (if c < 0x80 then [c]
      else if c < 0x800 then [0xC0 + c div 64, 0x80 + c mod 64]
      else if c < 0x10000 then [0xE0 + c div 4096, 0x80 + c div 64 mod 64, 0x80 + c mod 64]
      else [0xF0 + c div 262144, 0x80 + c div 4096 mod 64, 0x80 + c div 64 mod 64, 0x80 + c mod 64])"

definition text_encode :: "units \<Rightarrow> bytes" where
  "text_encode s = concat (map utf8_cp (code_points s))"

definition is_cont :: "nat \<Rightarrow> bool" where "is_cont b \<longleftrightarrow> 0x80 \<le> b \<and> b < 0xC0"

fun utf8_decode :: "bytes \<Rightarrow> nat list option" where
  "utf8_decode [] = Some []"
| "utf8_decode (b # bs) =
     (if b < 0x80 then map_option ((#) b) (utf8_decode bs)
      else if 0xC2 \<le> b \<and> b < 0xE0 then
        (case bs of
           c # r \<Rightarrow> if is_cont c then map_option ((#) ((b - 0xC0) * 64 + (c - 0x80))) (utf8_decode r) else None
         | _ \<Rightarrow> None)
      else if 0xE0 \<le> b \<and> b < 0xF0 then
        (case bs of
           c # d # r \<Rightarrow>
             let cp = (b - 0xE0) * 4096 + (c - 0x80) * 64 + (d - 0x80) in
             if is_cont c \<and> is_cont d \<and> 0x800 \<le> cp \<and> valid_cp cp then map_option ((#) cp) (utf8_decode r) else None
         | _ \<Rightarrow> None)
      else if 0xF0 \<le> b \<and> b < 0xF5 then
        (case bs of
           c # d # e # r \<Rightarrow>
             let cp = (b - 0xF0) * 262144 + (c - 0x80) * 4096 + (d - 0x80) * 64 + (e - 0x80) in
             if is_cont c \<and> is_cont d \<and> is_cont e \<and> 0x10000 \<le> cp \<and> valid_cp cp
             then map_option ((#) cp) (utf8_decode r) else None
         | _ \<Rightarrow> None)
      else None)"

definition strip_bom :: "bytes \<Rightarrow> bytes" where
  "strip_bom bs = (case bs of (b # c # d # r) \<Rightarrow> if b = 0xEF \<and> c = 0xBB \<and> d = 0xBF then r else bs | _ \<Rightarrow> bs)"

definition text_decode :: "bytes \<Rightarrow> units option" where
  "text_decode bs = map_option (\<lambda>cps. concat (map units_of_cp cps)) (utf8_decode (strip_bom bs))"

section \<open>Well-formedness\<close>

lemma high_not_low: "is_high u \<Longrightarrow> \<not> is_low u"
  by (simp add: is_high_def is_low_def)

lemma ill_formed_bad: "ill_formed s \<longleftrightarrow> (\<exists>i<length s. bad_at s i)"
  by (auto simp: ill_formed_def list_ex_iff)

lemma bad_at_shift1:
  assumes "\<not> is_high u" shows "bad_at (u # us) (Suc i) = bad_at us i"
  using assms by (cases i) (auto simp: bad_at_def)

lemma bad_at_shift2:
  assumes "is_high u" "is_low v" shows "bad_at (u # v # us) (Suc (Suc i)) = bad_at us i"
  using assms high_not_low [of v] by (cases i) (auto simp: bad_at_def is_high_def is_low_def)

lemma paired_iff: "paired s \<longleftrightarrow> \<not> ill_formed s"
proof (induction s rule: paired.induct)
  case 1
  then show ?case by (simp add: ill_formed_bad)
next
  case (2 u)
  then show ?case by (auto simp: ill_formed_bad bad_at_def)
next
  case (3 u v us)
  show ?case
  proof (cases "is_high u")
    case True
    show ?thesis
    proof (cases "is_low v")
      case low: True
      have "(\<exists>i<length (u # v # us). bad_at (u # v # us) i) \<longleftrightarrow>
          bad_at (u # v # us) 0 \<or> bad_at (u # v # us) 1 \<or> (\<exists>i<length us. bad_at (u # v # us) (Suc (Suc i)))"
        by (auto simp: less_Suc_eq_0_disj)
      moreover have "\<not> bad_at (u # v # us) 0" "\<not> bad_at (u # v # us) 1"
        using True low high_not_low by (auto simp: bad_at_def is_high_def is_low_def)
      ultimately show ?thesis
        using 3(1) [OF True] True low bad_at_shift2 [OF True low] by (simp add: ill_formed_bad)
    next
      case False
      then have "bad_at (u # v # us) 0" using True by (auto simp: bad_at_def)
      with False True show ?thesis by (auto simp: ill_formed_bad)
    qed
  next
    case False
    have "(\<exists>i<length (u # v # us). bad_at (u # v # us) i) \<longleftrightarrow>
        bad_at (u # v # us) 0 \<or> (\<exists>i<length (v # us). bad_at (u # v # us) (Suc i))"
      by (auto simp: less_Suc_eq_0_disj)
    moreover have "bad_at (u # v # us) 0 \<longleftrightarrow> is_low u" using False by (auto simp: bad_at_def)
    ultimately show ?thesis
      using 3(2) [OF False] False bad_at_shift1 [OF False] by (simp add: ill_formed_bad)
  qed
qed

section \<open>Code points\<close>

definition unit_ok :: "nat \<Rightarrow> bool" where "unit_ok u \<longleftrightarrow> u < 0x10000"

definition well_formed :: "units \<Rightarrow> bool" where
  "well_formed s \<longleftrightarrow> list_all unit_ok s \<and> \<not> ill_formed s"

lemma code_points_valid: "list_all unit_ok s \<Longrightarrow> paired s \<Longrightarrow> list_all valid_cp (code_points s)"
proof (induction s rule: code_points.induct)
  case (3 u v us)
  show ?case
  proof (cases "is_high u")
    case True
    with 3 have "is_low v" "paired us" by auto
    with True have "valid_cp (0x10000 + (u - 0xD800) * 1024 + (v - 0xDC00))"
      by (auto simp: valid_cp_def is_high_def is_low_def)
    with True 3 \<open>paired us\<close> show ?thesis by simp
  next
    case False
    with 3 show ?thesis by (auto simp: valid_cp_def unit_ok_def is_high_def is_low_def)
  qed
qed (auto simp: valid_cp_def unit_ok_def is_high_def is_low_def)

lemma units_of_pair:
  assumes "is_high u" and "is_low v"
  shows "units_of_cp (0x10000 + (u - 0xD800) * 1024 + (v - 0xDC00)) = [u, v]"
proof -
  from assms obtain h l where "u = 0xD800 + h" "v = 0xDC00 + l" "h < 1024" "l < 1024"
    by (auto simp: is_high_def is_low_def dest!: le_Suc_ex)
  then show ?thesis by (simp add: units_of_cp_def)
qed

lemma units_of_code_points:
  "list_all unit_ok s \<Longrightarrow> paired s \<Longrightarrow> concat (map units_of_cp (code_points s)) = s"
proof (induction s rule: code_points.induct)
  case (3 u v us)
  then show ?case
    using units_of_pair [of u v] by (cases "is_high u") (auto simp: units_of_cp_def [of u] unit_ok_def)
qed (auto simp: units_of_cp_def unit_ok_def)

section \<open>UTF-8\<close>

lemma utf8_decode_cp3:
  assumes "0x800 \<le> c" "c < 0x10000" "valid_cp c"
  shows "utf8_decode (utf8_cp c @ bs) = map_option ((#) c) (utf8_decode bs)"
proof -
  have d: "c div 4096 < 16" using assms(2) by (simp add: less_mult_imp_div_less)
  have "c div 64 mod 64 < 64" "c mod 64 < 64" by simp_all
  moreover have "c div 4096 * 4096 + c div 64 mod 64 * 64 + c mod 64 = c"
  proof -
    have "c div 4096 = c div 64 div 64" by (simp add: div_mult2_eq [symmetric])
    then have "c div 4096 * 64 + c div 64 mod 64 = c div 64" by simp
    then have "(c div 4096 * 64 + c div 64 mod 64) * 64 + c mod 64 = c" by simp
    then show ?thesis by (simp add: algebra_simps)
  qed
  ultimately show ?thesis using assms d by (simp add: utf8_cp_def is_cont_def Let_def)
qed

lemma utf8_decode_cp4:
  assumes "0x10000 \<le> c" "valid_cp c"
  shows "utf8_decode (utf8_cp c @ bs) = map_option ((#) c) (utf8_decode bs)"
proof -
  have d: "c div 262144 < 5" using assms(2) by (simp add: valid_cp_def less_mult_imp_div_less)
  have "c div 262144 = c div 64 div 64 div 64" "c div 4096 = c div 64 div 64" by (simp_all add: div_mult2_eq [symmetric])
  then have "c div 262144 * 64 + c div 4096 mod 64 = c div 4096" "c div 4096 * 64 + c div 64 mod 64 = c div 64"
    by simp_all
  then have "((c div 262144 * 64 + c div 4096 mod 64) * 64 + c div 64 mod 64) * 64 + c mod 64 = c" by simp
  then have "c div 262144 * 262144 + c div 4096 mod 64 * 4096 + c div 64 mod 64 * 64 + c mod 64 = c"
    by (simp add: algebra_simps)
  moreover have "c div 4096 mod 64 < 64" "c div 64 mod 64 < 64" "c mod 64 < 64" by simp_all
  ultimately show ?thesis using assms d by (simp add: utf8_cp_def is_cont_def Let_def)
qed

lemma utf8_decode_cp:
  assumes "valid_cp c"
  shows "utf8_decode (utf8_cp c @ bs) = map_option ((#) c) (utf8_decode bs)"
proof -
  consider "c < 0x80" | "0x80 \<le> c" "c < 0x800" | "0x800 \<le> c" "c < 0x10000" | "0x10000 \<le> c" by linarith
  then show ?thesis
  proof cases
    case 2
    define q r where "q = c div 64" and "r = c mod 64"
    then have c: "c = q * 64 + r" and r: "r < 64" by simp_all
    with 2 have "2 \<le> q" "q < 32" by linarith+
    with 2 r show ?thesis by (simp add: c utf8_cp_def is_cont_def)
  next
    case 3
    with assms show ?thesis by (intro utf8_decode_cp3)
  next
    case 4
    with assms show ?thesis by (intro utf8_decode_cp4)
  qed (simp add: utf8_cp_def)
qed

lemma utf8_decode_all: "list_all valid_cp cps \<Longrightarrow> utf8_decode (concat (map utf8_cp cps)) = Some cps"
  by (induction cps) (auto simp: utf8_decode_cp)

lemma strip_bom_cp:
  assumes "valid_cp c" and "c \<noteq> 0xFEFF"
  shows "strip_bom (utf8_cp c @ bs) = utf8_cp c @ bs"
proof -
  have "c = 0xFEFF" if "c div 4096 = 15" "c div 64 mod 64 = 59" "c mod 64 = 63"
  proof -
    have "c div 4096 = c div 64 div 64" by (simp add: div_mult2_eq [symmetric])
    then have "c div 64 = 15 * 64 + 59" using that div_mult_mod_eq [of "c div 64" 64] by simp
    then show ?thesis using that(3) div_mult_mod_eq [of c 64] by simp
  qed
  then show ?thesis using assms(2)
    by (cases bs) (auto simp: strip_bom_def utf8_cp_def split: list.splits)
qed

lemma code_points_hd: "well_formed s \<Longrightarrow> s \<noteq> [] \<Longrightarrow> hd s \<noteq> 0xFEFF \<Longrightarrow> hd (code_points s) \<noteq> 0xFEFF"
  by (cases s rule: code_points.cases) auto

lemma text_round_trip:
  assumes "well_formed s" and "s = [] \<or> hd s \<noteq> 0xFEFF"
  shows "text_decode (text_encode s) = Some s"
proof -
  from assms(1) have ok: "list_all unit_ok s" "paired s" by (auto simp: well_formed_def paired_iff)
  have v: "list_all valid_cp (code_points s)" by (rule code_points_valid [OF ok])
  have "strip_bom (text_encode s) = text_encode s"
  proof (cases "code_points s")
    case Nil
    then show ?thesis by (simp add: text_encode_def strip_bom_def)
  next
    case (Cons c cs)
    then have "s \<noteq> []" by auto
    with assms Cons have "c \<noteq> 0xFEFF" using code_points_hd by fastforce
    with v Cons strip_bom_cp [of c "concat (map utf8_cp cs)"] show ?thesis by (simp add: text_encode_def)
  qed
  then show ?thesis
    using utf8_decode_all [OF v] units_of_code_points [OF ok] by (simp add: text_decode_def text_encode_def)
qed

text \<open>A leading byte-order mark is lost.\<close>

lemma text_bom_lost:
  assumes "well_formed (0xFEFF # s)"
  shows "text_decode (text_encode (0xFEFF # s)) = Some s"
proof -
  have "code_points (0xFEFF # s) = 0xFEFF # code_points s" by (cases s) (auto simp: is_high_def)
  then have "strip_bom (text_encode (0xFEFF # s)) = text_encode s"
    by (simp add: text_encode_def strip_bom_def utf8_cp_def)
  moreover from assms have "list_all unit_ok s" "paired s"
    by (auto simp: well_formed_def paired_iff [symmetric] is_high_def is_low_def split: list.splits)
       (cases s; auto simp: is_high_def is_low_def)
  ultimately show ?thesis
    using utf8_decode_all [OF code_points_valid, of s] units_of_code_points [of s]
    by (simp add: text_decode_def text_encode_def)
qed

lemma utf8_cp_bytes: "valid_cp c \<Longrightarrow> list_all (\<lambda>b. b < 256) (utf8_cp c)"
  by (auto simp: utf8_cp_def valid_cp_def less_mult_imp_div_less intro: order_less_le_trans [of _ 64] )

end
