(* ===== verification/Cbor.thy ===== *)
theory Cbor
  imports Utf8 "HOL-Library.List_Lexorder" "HOL-Library.Multiset"
begin

text \<open>
  The canonical CBOR subset of the bulk stream, \<^verbatim>\<open>packages/types/src/dev-runtime-cbor.ts\<close>, and the
  length-only twin of the encoder, \<^verbatim>\<open>dev-runtime-cbor-length.ts\<close>. Numbers are split the way the
  code treats them: safe integers, big integers, and the 64 bits of any other double; the
  half- and single-precision conversions of \<open>DataView\<close> are the arguments in \<open>float_conv\<close>, of which
  nothing is assumed. A thrown error is \<open>None\<close>. The decoder's nesting is bounded by fuel; the
  number of input bytes is enough.
\<close>

section \<open>Values\<close>

datatype cval =
    CNull
  | CBool bool
  | CInt int              \<comment> \<open>a number that is a safe integer\<close>
  | CBig int              \<comment> \<open>a bigint\<close>
  | CFloat nat            \<comment> \<open>the bits of any other double\<close>
  | CText units
  | CBytes bytes
  | CArr "cval list"
  | CObj "(units \<times> cval) list"
  | COther                \<comment> \<open>undefined, functions, symbols, class instances\<close>

record float_conv =
  narrow16 :: "nat \<Rightarrow> nat"
  widen16 :: "nat \<Rightarrow> nat"
  narrow32 :: "nat \<Rightarrow> nat"
  widen32 :: "nat \<Rightarrow> nat"

definition finite_bits :: "nat \<Rightarrow> bool" where
  "finite_bits w \<longleftrightarrow> w div 2 ^ 52 mod 2048 \<noteq> 2047"

text \<open>The integer a double stands for, when it is integral.\<close>

definition integral_bits :: "nat \<Rightarrow> int option" where
  "integral_bits w =
     (let s = (if w div 2 ^ 63 mod 2 = 1 then -1 else 1); e = w div 2 ^ 52 mod 2048; m = w mod 2 ^ 52 in
      if e = 0 \<and> m = 0 then Some 0
      else if 1075 \<le> e then Some (s * (2 ^ 52 + int m) * 2 ^ (e - 1075))
      else if 1023 \<le> e \<and> (2 ^ 52 + m) mod 2 ^ (1075 - e) = 0
      then Some (s * ((2 ^ 52 + int m) div 2 ^ (1075 - e)))
      else None)"

definition number_of_bits :: "nat \<Rightarrow> cval" where
  "number_of_bits w =
     (case integral_bits w of
        Some i \<Rightarrow> if is_safe_int i then CInt i else CFloat w
      | None \<Rightarrow> CFloat w)"

section \<open>Encoder\<close>

fun be_bytes :: "nat \<Rightarrow> nat \<Rightarrow> bytes" where
  "be_bytes 0 v = []"
| "be_bytes (Suc k) v = v div 256 ^ k mod 256 # be_bytes k v"

definition cborHead :: "nat \<Rightarrow> nat \<Rightarrow> bytes" where
  "cborHead major v =
     (if v < 24 then [major * 32 + v]
      else if v \<le> 0xff then (major * 32 + 24) # be_bytes 1 v
      else if v \<le> 0xffff then (major * 32 + 25) # be_bytes 2 v
      else if v \<le> 0xffffffff then (major * 32 + 26) # be_bytes 4 v
      else (major * 32 + 27) # be_bytes 8 v)"

definition shortestFloat :: "float_conv \<Rightarrow> nat \<Rightarrow> bytes" where
  "shortestFloat fc w =
     (if widen16 fc (narrow16 fc w mod 2 ^ 16) = w then 0xf9 # be_bytes 2 (narrow16 fc w mod 2 ^ 16)
      else if widen32 fc (narrow32 fc w mod 2 ^ 32) = w then 0xfa # be_bytes 4 (narrow32 fc w mod 2 ^ 32)
      else 0xfb # be_bytes 8 w)"

definition encode_int :: "int \<Rightarrow> bytes" where
  "encode_int i = (if i \<ge> 0 then cborHead 0 (nat i) else cborHead 1 (nat (-1 - i)))"

definition encode_text :: "units \<Rightarrow> bytes" where
  "encode_text s = cborHead 3 (length (text_encode s)) @ text_encode s"

text \<open>Which values the encoder accepts, and the bytes it then produces.\<close>

fun encodable :: "cval \<Rightarrow> bool" where
  "encodable (CFloat w) = finite_bits w"
| "encodable (CText s) = (\<not> ill_formed s)"
| "encodable (CArr vs) = (\<forall>v\<in>set vs. encodable v)"
| "encodable (CObj fs) = (\<forall>f\<in>set fs. \<not> ill_formed (fst f) \<and> encodable (snd f))"
| "encodable COther = False"
| "encodable _ = True"

fun encode :: "float_conv \<Rightarrow> cval \<Rightarrow> bytes" where
  "encode fc CNull = [0xf6]"
| "encode fc (CBool b) = [if b then 0xf5 else 0xf4]"
| "encode fc (CInt i) = encode_int i"
| "encode fc (CBig i) = encode_int i"
| "encode fc (CFloat w) = shortestFloat fc w"
| "encode fc (CText s) = encode_text s"
| "encode fc (CBytes bs) = cborHead 2 (length bs) @ bs"
| "encode fc (CArr vs) = cborHead 4 (length vs) @ concat (map (encode fc) vs)"
| "encode fc (CObj fs) = cborHead 5 (length fs)
     @ concat (map (\<lambda>kv. fst kv @ snd kv)
         (sort_key fst (map (\<lambda>f. (encode_text (fst f), encode fc (snd f))) fs)))"
| "encode fc COther = []"

definition encodeCbor :: "float_conv \<Rightarrow> cval \<Rightarrow> bytes option" where
  "encodeCbor fc v = (if encodable v then Some (encode fc v) else None)"

section \<open>Decoder\<close>

definition be_value :: "bytes \<Rightarrow> nat" where
  "be_value bs = fold (\<lambda>b acc. acc * 256 + b) bs 0"

definition read_be :: "nat \<Rightarrow> bytes \<Rightarrow> (nat \<times> bytes) option" where
  "read_be n bs = (if n > length bs then None else Some (be_value (take n bs), drop n bs))"

definition shortest_floor :: "nat \<Rightarrow> nat" where
  "shortest_floor info = [24, 256, 65536, 4294967296] ! (info - 24)"

fun dec_head :: "bytes \<Rightarrow> (nat \<times> nat \<times> bytes) option" where
  "dec_head [] = None"
| "dec_head (first # rest) =
     (let major = first div 32; info = first mod 32 in
      if info < 24 then Some (major, info, rest)
      else if info > 27 then None
      else (case read_be (2 ^ (info - 24)) rest of
              None \<Rightarrow> None
            | Some (v, rest') \<Rightarrow> if v < shortest_floor info then None else Some (major, v, rest')))"

fun compareBytes :: "bytes \<Rightarrow> bytes \<Rightarrow> int" where
  "compareBytes (a # as) (b # bs) = (if a \<noteq> b then int a - int b else compareBytes as bs)"
| "compareBytes as bs = int (length as) - int (length bs)"

definition dec_simple :: "float_conv \<Rightarrow> nat \<Rightarrow> bytes \<Rightarrow> (cval \<times> bytes) option" where
  "dec_simple fc info rest =
     (if info = 20 then Some (CBool False, rest)
      else if info = 21 then Some (CBool True, rest)
      else if info = 22 then Some (CNull, rest)
      else if info = 25 \<or> info = 26 \<or> info = 27 then
        (case read_be (2 ^ (info - 24)) rest of
           None \<Rightarrow> None
         | Some (raw, rest') \<Rightarrow>
             (let w = (if info = 25 then widen16 fc raw else if info = 26 then widen32 fc raw else raw) in
              if \<not> finite_bits w then None else Some (number_of_bits w, rest')))
      else None)"

fun dec_many :: "(bytes \<Rightarrow> (cval \<times> bytes) option) \<Rightarrow> nat \<Rightarrow> bytes \<Rightarrow> (cval list \<times> bytes) option" where
  "dec_many d 0 bs = Some ([], bs)"
| "dec_many d (Suc k) bs =
     (case d bs of
        None \<Rightarrow> None
      | Some (v, r) \<Rightarrow>
          (case dec_many d k r of None \<Rightarrow> None | Some (vs, r') \<Rightarrow> Some (v # vs, r')))"

fun dec_fields ::
  "(bytes \<Rightarrow> (cval \<times> bytes) option) \<Rightarrow> nat \<Rightarrow> bytes option \<Rightarrow> (units \<times> cval) list \<Rightarrow> bytes
     \<Rightarrow> ((units \<times> cval) list \<times> bytes) option" where
  "dec_fields d 0 prev out bs = Some (out, bs)"
| "dec_fields d (Suc k) prev out bs =
     (case d bs of
        Some (CText key, r) \<Rightarrow>
          (let keyBytes = take (length bs - length r) bs in
           if (case prev of None \<Rightarrow> False | Some p \<Rightarrow> compareBytes p keyBytes \<ge> 0) then None
           else if key \<in> set (map fst out) then None
           else (case d r of
                   None \<Rightarrow> None
                 | Some (v, r') \<Rightarrow> dec_fields d k (Some keyBytes) (out @ [(key, v)]) r'))
      | _ \<Rightarrow> None)"

definition dec_major ::
  "(bytes \<Rightarrow> (cval \<times> bytes) option) \<Rightarrow> nat \<Rightarrow> nat \<Rightarrow> bytes \<Rightarrow> (cval \<times> bytes) option" where
  "dec_major d major v rest =
     (if major = 0 then Some (if int v > MAX_SAFE_INTEGER then CBig (int v) else CInt (int v), rest)
      else if major = 1 then
        Some (if is_safe_int (-1 - int v) then CInt (-1 - int v) else CBig (-1 - int v), rest)
      else if major = 2 then (if v > length rest then None else Some (CBytes (take v rest), drop v rest))
      else if major = 3 then
        (if v > length rest then None
         else map_option (\<lambda>s. (CText s, drop v rest)) (text_decode (take v rest)))
      else if major = 4 then map_option (\<lambda>(vs, r). (CArr vs, r)) (dec_many d v rest)
      else if major = 5 then map_option (\<lambda>(fs, r). (CObj fs, r)) (dec_fields d v None [] rest)
      else None)"

fun decode :: "float_conv \<Rightarrow> nat \<Rightarrow> bytes \<Rightarrow> (cval \<times> bytes) option" where
  "decode fc 0 bs = None"
| "decode fc (Suc n) bs =
     (case bs of
        [] \<Rightarrow> None
      | first # rest \<Rightarrow>
          if first div 32 = 7 then dec_simple fc (first mod 32) rest
          else (case dec_head bs of
                  None \<Rightarrow> None
                | Some (major, v, rest') \<Rightarrow> dec_major (decode fc n) major v rest'))"

definition decodeCbor :: "float_conv \<Rightarrow> bytes \<Rightarrow> (cval \<times> nat) option" where
  "decodeCbor fc bs = map_option (\<lambda>(v, r). (v, length bs - length r)) (decode fc (length bs) bs)"

section \<open>Length without bytes\<close>

definition head_length :: "nat \<Rightarrow> nat" where
  "head_length v = (if v < 24 then 1 else if v < 256 then 2 else if v < 65536 then 3
     else if v < 4294967296 then 5 else 9)"

definition floatLength :: "float_conv \<Rightarrow> nat \<Rightarrow> nat" where
  "floatLength fc w =
     (if widen16 fc (narrow16 fc w mod 2 ^ 16) = w then 3
      else if widen32 fc (narrow32 fc w mod 2 ^ 32) = w then 5 else 9)"

fun byte_length :: "float_conv \<Rightarrow> cval \<Rightarrow> nat" where
  "byte_length fc CNull = 1"
| "byte_length fc (CBool _) = 1"
| "byte_length fc (CInt i) = head_length (nat (if i < 0 then -1 - i else i))"
| "byte_length fc (CFloat w) = floatLength fc w"
| "byte_length fc (CText s) = head_length (length (text_encode s)) + length (text_encode s)"
| "byte_length fc (CArr vs) = head_length (length vs) + sum_list (map (byte_length fc) vs)"
| "byte_length fc (CObj fs) = head_length (length fs)
     + sum_list (map (\<lambda>f. head_length (length (text_encode (fst f))) + length (text_encode (fst f))
         + byte_length fc (snd f)) fs)"
| "byte_length fc _ = 0"

text \<open>The values the length computation accepts: plain JSON, finite numbers.\<close>

fun json_shaped :: "cval \<Rightarrow> bool" where
  "json_shaped (CFloat w) = finite_bits w"
| "json_shaped (CArr vs) = (\<forall>v\<in>set vs. json_shaped v)"
| "json_shaped (CObj fs) = (\<forall>f\<in>set fs. json_shaped (snd f))"
| "json_shaped (CBig _) = False"
| "json_shaped (CBytes _) = False"
| "json_shaped COther = False"
| "json_shaped _ = True"

definition cborByteLength :: "float_conv \<Rightarrow> cval \<Rightarrow> nat option" where
  "cborByteLength fc v = (if json_shaped v then Some (byte_length fc v) else None)"

section \<open>Heads\<close>

lemma length_be_bytes [simp]: "length (be_bytes k v) = k"
  by (induction k) auto

lemma fold_be: "fold (\<lambda>b acc. acc * 256 + b) ys a = a * 256 ^ length ys + be_value ys"
proof (induction ys arbitrary: a)
  case Nil
  then show ?case by (simp add: be_value_def)
next
  case (Cons y ys)
  have arith: "(a * 256 + y) * P + B = a * (256 * P) + (y * P + B)" for P B :: nat
    by (simp add: algebra_simps)
  have "be_value (y # ys) = fold (\<lambda>b acc. acc * 256 + b) ys y" by (simp add: be_value_def)
  also have "\<dots> = y * 256 ^ length ys + be_value ys" by (rule Cons)
  finally have b: "be_value (y # ys) = y * 256 ^ length ys + be_value ys" .
  have "fold (\<lambda>b acc. acc * 256 + b) (y # ys) a = fold (\<lambda>b acc. acc * 256 + b) ys (a * 256 + y)" by simp
  also have "\<dots> = (a * 256 + y) * 256 ^ length ys + be_value ys" by (rule Cons)
  finally show ?case unfolding b list.size power_Suc add_0_right add_Suc_right arith .
qed

lemma be_value_append: "be_value (xs @ ys) = be_value xs * 256 ^ length ys + be_value ys"
proof -
  have "be_value (xs @ ys) = fold (\<lambda>b acc. acc * 256 + b) ys (be_value xs)" by (simp add: be_value_def)
  then show ?thesis by (simp only: fold_be)
qed

lemma be_value_Cons: "be_value (b # bs) = b * 256 ^ length bs + be_value bs"
  using be_value_append [of "[b]" bs] by (simp add: be_value_def)

lemma be_value_be_bytes: "be_value (be_bytes k v) = v mod 256 ^ k"
proof (induction k)
  case 0
  then show ?case by (simp add: be_value_def)
next
  case (Suc k)
  have "v mod 256 ^ Suc k = 256 ^ k * (v div 256 ^ k mod 256) + v mod 256 ^ k"
    using mod_mult2_eq [of v "256 ^ k" 256] by (simp only: power_Suc2)
  with Suc show ?case by (simp add: be_value_Cons mult.commute)
qed

lemma read_be_bytes: "read_be k (be_bytes k v @ rest) = Some (v mod 256 ^ k, rest)"
  by (simp add: read_be_def be_value_be_bytes)

lemma dec_head_cborHead:
  assumes "v < 2 ^ 64"
  shows "dec_head (cborHead major v @ rest) = Some (major, v, rest)"
proof -
  consider "v < 24" | "24 \<le> v" "v \<le> 0xff" | "0xff < v" "v \<le> 0xffff" | "0xffff < v" "v \<le> 0xffffffff"
    | "0xffffffff < v" by linarith
  then show ?thesis
    using assms read_be_bytes [of 1 v rest] read_be_bytes [of 2 v rest] read_be_bytes [of 4 v rest]
      read_be_bytes [of 8 v rest]
    by cases (simp_all add: cborHead_def shortest_floor_def Let_def)
qed

lemma cborHead_ne: "cborHead major v \<noteq> []" "length (cborHead major v) = head_length v"
  by (auto simp: cborHead_def head_length_def)

lemma hd_cborHead: "\<exists>i<32. hd (cborHead major v) = major * 32 + i"
  by (simp add: cborHead_def)

lemma decode_head_step:
  assumes "v < 2 ^ 64" and "major < 7"
  shows "decode fc (Suc n) (cborHead major v @ rest) = dec_major (decode fc n) major v rest"
proof -
  obtain b bs where hb: "cborHead major v = b # bs" using cborHead_ne(1) by (metis list.exhaust)
  with hd_cborHead [of major v] assms(2) have "b div 32 \<noteq> 7" by auto
  with hb dec_head_cborHead [OF assms(1), of major rest] show ?thesis by simp
qed

section \<open>Round trip\<close>

definition text_ok :: "units \<Rightarrow> bool" where
  "text_ok s \<longleftrightarrow> well_formed s \<and> (s = [] \<or> hd s \<noteq> 0xFEFF) \<and> length (text_encode s) < 2 ^ 64"

text \<open>Values the wire carries unchanged: numbers in the form the decoder returns them, text that
  does not start with a byte-order mark, lengths below \<open>2 ^ 64\<close>, distinct keys.\<close>

fun wire_ok :: "cval \<Rightarrow> bool" where
  "wire_ok (CInt i) = is_safe_int i"
| "wire_ok (CBig i) = (\<not> is_safe_int i \<and> - (2 ^ 64) \<le> i \<and> i < 2 ^ 64)"
| "wire_ok (CFloat w) = (w < 2 ^ 64 \<and> finite_bits w \<and> number_of_bits w = CFloat w)"
| "wire_ok (CText s) = text_ok s"
| "wire_ok (CBytes bs) = (length bs < 2 ^ 64)"
| "wire_ok (CArr vs) = (length vs < 2 ^ 64 \<and> (\<forall>v\<in>set vs. wire_ok v))"
| "wire_ok (CObj fs) = (length fs < 2 ^ 64 \<and> distinct (map fst fs)
     \<and> (\<forall>f\<in>set fs. text_ok (fst f) \<and> wire_ok (snd f)))"
| "wire_ok COther = False"
| "wire_ok _ = True"

text \<open>The decoded form: entries of every object in the order of their encoded keys.\<close>

fun canon :: "cval \<Rightarrow> cval" where
  "canon (CArr vs) = CArr (map canon vs)"
| "canon (CObj fs) = CObj (sort_key (\<lambda>f. encode_text (fst f)) (map (\<lambda>f. (fst f, canon (snd f))) fs))"
| "canon v = v"

lemma sort_key_map: "sort_key f (map g xs) = map g (sort_key (\<lambda>x. f (g x)) xs)"
proof -
  have "insort_key f (g x) (map g ys) = map g (insort_key (\<lambda>x. f (g x)) x ys)" for x ys
    by (induction ys) auto
  then show ?thesis by (induction xs) simp_all
qed

lemma encode_obj:
  "encode fc (CObj fs) = cborHead 5 (length fs)
     @ concat (map (\<lambda>f. encode_text (fst f) @ encode fc (snd f)) (sort_key (\<lambda>f. encode_text (fst f)) fs))"
  by (simp add: sort_key_map comp_def)

lemma canon_obj:
  "canon (CObj fs) = CObj (map (\<lambda>f. (fst f, canon (snd f))) (sort_key (\<lambda>f. encode_text (fst f)) fs))"
  by (simp add: sort_key_map)

lemma Nil_less_iff: "[] < (bs :: nat list) \<longleftrightarrow> bs \<noteq> []"
  by (cases bs) auto

lemma compareBytes_neg: "compareBytes a b < 0 \<longleftrightarrow> a < b"
  by (induction a b rule: compareBytes.induct) (auto simp: Nil_less_iff)

lemma compareBytes_nonneg [simp]: "0 \<le> compareBytes a b \<longleftrightarrow> \<not> a < b"
  using compareBytes_neg [of a b] by linarith

lemma decode_text:
  assumes "text_ok s"
  shows "decode fc (Suc n) (encode_text s @ rest) = Some (CText s, rest)"
proof -
  have "text_decode (text_encode s) = Some s" using assms text_round_trip by (auto simp: text_ok_def)
  then show ?thesis
    using assms decode_head_step [of "length (text_encode s)" 3 fc n "text_encode s @ rest"]
    by (simp add: encode_text_def text_ok_def dec_major_def)
qed

lemma encode_text_inj:
  assumes "text_ok s" and "text_ok t" and "encode_text s = encode_text t"
  shows "s = t"
  using decode_text [OF assms(1), of undefined 0 "[]"] decode_text [OF assms(2), of undefined 0 "[]"] assms(3)
  by simp

lemma dec_many_encode:
  "(\<And>v rest. v \<in> set vs \<Longrightarrow> d (g v @ rest) = Some (h v, rest)) \<Longrightarrow>
     dec_many d (length vs) (concat (map g vs) @ rest) = Some (map h vs, rest)"
  by (induction vs) simp_all

lemma dec_fields_step:
  assumes "d (kb @ r) = Some (CText key, r)"
  shows "dec_fields d (Suc k) prev out (kb @ r) =
     (if (case prev of None \<Rightarrow> False | Some p \<Rightarrow> compareBytes p kb \<ge> 0) then None
      else if key \<in> set (map fst out) then None
      else (case d r of None \<Rightarrow> None
            | Some (v, r') \<Rightarrow> dec_fields d k (Some kb) (out @ [(key, v)]) r'))"
proof -
  have "take (length (kb @ r) - length r) (kb @ r) = kb" by simp
  then show ?thesis by (simp only: dec_fields.simps assms Let_def option.case prod.case cval.case)
qed

lemma dec_fields_encode:
  "(\<And>f rest. f \<in> set gs \<Longrightarrow> d (encode_text (fst f) @ rest) = Some (CText (fst f), rest)) \<Longrightarrow>
   (\<And>f rest. f \<in> set gs \<Longrightarrow> d (g (snd f) @ rest) = Some (h (snd f), rest)) \<Longrightarrow>
   sorted_wrt (\<lambda>a b. encode_text (fst a) < encode_text (fst b)) gs \<Longrightarrow>
   (\<forall>p. prev = Some p \<longrightarrow> (\<forall>f\<in>set gs. p < encode_text (fst f))) \<Longrightarrow>
   distinct (map fst out @ map fst gs) \<Longrightarrow>
     dec_fields d (length gs) prev out (concat (map (\<lambda>f. encode_text (fst f) @ g (snd f)) gs) @ rest)
       = Some (out @ map (\<lambda>f. (fst f, h (snd f))) gs, rest)"
proof (induction gs arbitrary: prev out)
  case Nil
  then show ?case by simp
next
  case (Cons f gs)
  have ok: "\<not> (case prev of None \<Rightarrow> False | Some p \<Rightarrow> compareBytes p (encode_text (fst f)) \<ge> 0)"
    using Cons.prems(4) by (simp split: option.splits)
  have "dec_fields d (length gs) (Some (encode_text (fst f))) (out @ [(fst f, h (snd f))])
      (concat (map (\<lambda>f. encode_text (fst f) @ g (snd f)) gs) @ rest)
    = Some ((out @ [(fst f, h (snd f))]) @ map (\<lambda>f. (fst f, h (snd f))) gs, rest)"
    using Cons.prems by (intro Cons.IH) auto
  moreover have "d (encode_text (fst f) @ (g (snd f) @ concat (map (\<lambda>f. encode_text (fst f) @ g (snd f)) gs) @ rest))
      = Some (CText (fst f), g (snd f) @ concat (map (\<lambda>f. encode_text (fst f) @ g (snd f)) gs) @ rest)"
    using Cons.prems(1) by simp
  ultimately show ?case
    using Cons.prems(2,5) ok dec_fields_step [of d "encode_text (fst f)"
        "g (snd f) @ concat (map (\<lambda>f. encode_text (fst f) @ g (snd f)) gs) @ rest" "fst f" "length gs" prev out]
    by (simp del: dec_fields.simps)
qed

lemma decode_int:
  assumes "- (2 ^ 64) \<le> i" and "i < 2 ^ 64"
  shows "decode fc (Suc n) (encode_int i @ rest) = Some (if is_safe_int i then CInt i else CBig i, rest)"
proof (cases "i \<ge> 0")
  case True
  then show ?thesis
    using assms decode_head_step [of "nat i" 0 fc n rest]
    by (simp add: encode_int_def dec_major_def nat_less_iff is_safe_int_def MAX_SAFE_INTEGER_def)
next
  case False
  then show ?thesis
    using assms decode_head_step [of "nat (-1 - i)" 1 fc n rest]
    by (simp add: encode_int_def dec_major_def nat_less_iff)
qed

lemma decode_float:
  assumes "w < 2 ^ 64" and "finite_bits w" and "number_of_bits w = CFloat w"
  shows "decode fc (Suc n) (shortestFloat fc w @ rest) = Some (CFloat w, rest)"
  using assms read_be_bytes [of 2 "narrow16 fc w mod 2 ^ 16" rest] read_be_bytes [of 4 "narrow32 fc w mod 2 ^ 32" rest]
    read_be_bytes [of 8 w rest]
  by (simp add: shortestFloat_def dec_simple_def Let_def)

lemma encode_ne: "v \<noteq> COther \<Longrightarrow> encode fc v \<noteq> []"
  by (cases v) (auto simp: encode_int_def encode_text_def shortestFloat_def cborHead_ne)

lemma length_member_concat: "x \<in> set xs \<Longrightarrow> length (g x) \<le> length (concat (map g xs))"
  by (induction xs) auto

lemma sorted_keys:
  assumes "distinct (map fst fs)" and "\<forall>f\<in>set fs. text_ok (fst f)"
  shows "sorted_wrt (\<lambda>a b. encode_text (fst a) < encode_text (fst b)) (sort_key (\<lambda>f. encode_text (fst f)) fs)"
    and "distinct (map fst (sort_key (\<lambda>f. encode_text (fst f)) fs))"
proof -
  let ?k = "\<lambda>f. encode_text (fst f)" and ?gs = "sort_key (\<lambda>f. encode_text (fst f)) fs"
  have d: "distinct (map fst ?gs)" using assms(1) by (simp add: distinct_map)
  have "distinct (map ?k ?gs)"
  proof -
    have "inj_on encode_text (fst ` set fs)" using assms(2) encode_text_inj by (auto intro!: inj_onI)
    with d have "distinct (map encode_text (map fst ?gs))" by (auto simp: distinct_map simp del: map_map)
    then show ?thesis by (simp add: comp_def)
  qed
  moreover have "sorted (map ?k ?gs)" by simp
  ultimately have "sorted_wrt (<) (map ?k ?gs)" by (simp add: strict_sorted_iff)
  then show "sorted_wrt (\<lambda>a b. ?k a < ?k b) ?gs" by (simp add: sorted_wrt_map)
  show "distinct (map fst ?gs)" by (rule d)
qed

lemma decode_encode:
  "wire_ok v \<Longrightarrow> length (encode fc v) \<le> n \<Longrightarrow> decode fc n (encode fc v @ rest) = Some (canon v, rest)"
proof (induction v arbitrary: n rest)
  case (CArr vs)
  obtain m where n: "n = Suc m" using CArr.prems(2) cborHead_ne(1) [of 4 "length vs"] by (cases n) auto
  have "dec_many (decode fc m) (length vs) (concat (map (encode fc) vs) @ rest) = Some (map canon vs, rest)"
  proof (rule dec_many_encode)
    fix v rest assume v: "v \<in> set vs"
    have "length (encode fc v) \<le> m"
      using length_member_concat [OF v, of "encode fc"] CArr.prems(2) n cborHead_ne(1) [of 4 "length vs"]
      by (cases "cborHead 4 (length vs)") auto
    with CArr.IH [OF v] CArr.prems(1) v show "decode fc m (encode fc v @ rest) = Some (canon v, rest)" by simp
  qed
  with CArr.prems(1) n decode_head_step [of "length vs" 4 fc m "concat (map (encode fc) vs) @ rest"] show ?case
    by (simp add: dec_major_def)
next
  case (CObj fs)
  let ?gs = "sort_key (\<lambda>f. encode_text (fst f)) fs"
  let ?body = "concat (map (\<lambda>f. encode_text (fst f) @ encode fc (snd f)) ?gs)"
  note enc = encode_obj [of fc fs]
  obtain m where n: "n = Suc m" using CObj.prems(2) cborHead_ne(1) [of 5 "length fs"] enc by (cases n) auto
  have len: "length ?body \<le> m" using CObj.prems(2) n cborHead_ne(1) [of 5 "length fs"] enc
    by (cases "cborHead 5 (length fs)") auto
  have "dec_fields (decode fc m) (length ?gs) None [] (?body @ rest)
      = Some ([] @ map (\<lambda>f. (fst f, canon (snd f))) ?gs, rest)"
  proof (rule dec_fields_encode)
    fix f rest assume f: "f \<in> set ?gs"
    then have mem: "f \<in> set fs" by simp
    have lf: "length (encode_text (fst f) @ encode fc (snd f)) \<le> m"
      using length_member_concat [OF f, of "\<lambda>f. encode_text (fst f) @ encode fc (snd f)"] len by simp
    then have "length (encode fc (snd f)) \<le> m" by simp
    with CObj.IH [OF mem, of "snd f"] CObj.prems(1) mem
    show "decode fc m (encode fc (snd f) @ rest) = Some (canon (snd f), rest)" by (auto simp: snds.intros)
    obtain k where "m = Suc k" using lf cborHead_ne(1) by (cases m) (auto simp: encode_text_def)
    with decode_text [of "fst f" fc k rest] CObj.prems(1) mem
    show "decode fc m (encode_text (fst f) @ rest) = Some (CText (fst f), rest)" by simp
  next
    show "sorted_wrt (\<lambda>a b. encode_text (fst a) < encode_text (fst b)) ?gs" "distinct (map fst [] @ map fst ?gs)"
      using sorted_keys [of fs] CObj.prems(1) by simp_all
  qed simp
  then show ?case
    using CObj.prems(1) n enc decode_head_step [of "length fs" 5 fc m "?body @ rest"] canon_obj [of fs]
    by (simp add: dec_major_def del: encode.simps canon.simps)
next
  case (CInt i)
  then show ?case using encode_ne [of "CInt i" fc] decode_int [of i fc "n - 1" rest]
    by (cases n) (auto simp: is_safe_int_def MAX_SAFE_INTEGER_def)
next
  case (CBig i)
  then show ?case using encode_ne [of "CBig i" fc] decode_int [of i fc "n - 1" rest] by (cases n) auto
next
  case (CFloat w)
  then show ?case using encode_ne [of "CFloat w" fc] decode_float [of w fc "n - 1" rest] by (cases n) auto
next
  case (CText s)
  then show ?case using encode_ne [of "CText s" fc] decode_text [of s fc "n - 1" rest] by (cases n) auto
next
  case (CBytes bs)
  then show ?case
    using encode_ne [of "CBytes bs" fc] decode_head_step [of "length bs" 2 fc "n - 1" "bs @ rest"]
    by (cases n) (auto simp: dec_major_def)
next
  case CNull
  then show ?case by (cases n) (simp_all add: dec_simple_def)
next
  case (CBool b)
  then show ?case by (cases n) (simp_all add: dec_simple_def)
qed simp_all

lemma wire_ok_encodable: "wire_ok v \<Longrightarrow> encodable v"
  by (induction v) (auto simp: text_ok_def well_formed_def snds.simps)

lemma cbor_decodes:
  assumes "wire_ok v" and "encodeCbor fc v = Some bs"
  shows "decodeCbor fc (bs @ rest) = Some (canon v, length bs)"
proof -
  from assms have bs: "bs = encode fc v" by (auto simp: encodeCbor_def split: if_splits)
  have "decode fc (length (encode fc v @ rest)) (encode fc v @ rest) = Some (canon v, rest)"
    by (rule decode_encode [OF assms(1)]) simp
  then show ?thesis by (simp add: bs decodeCbor_def)
qed

text \<open>C5: what the encoder writes, the decoder reads: for every value the wire carries the encoder
  succeeds, and decoding its bytes followed by anything returns the value, object entries in
  canonical key order, and consumes exactly the bytes written.\<close>

theorem cbor_round_trip:
  assumes "wire_ok v"
  shows "\<exists>bs. encodeCbor fc v = Some bs \<and> decodeCbor fc (bs @ rest) = Some (canon v, length bs)"
proof -
  have "encodeCbor fc v = Some (encode fc v)" using wire_ok_encodable [OF assms] by (simp add: encodeCbor_def)
  with cbor_decodes [OF assms] show ?thesis by blast
qed

section \<open>Length, order, limits\<close>

lemma sum_list_sort_key: "sum_list (map f (sort_key k xs)) = (sum_list (map f xs) :: nat)"
  by (metis mset_map mset_sort sum_mset_sum_list)

lemma byte_length_encode: "json_shaped v \<Longrightarrow> byte_length fc v = length (encode fc v)"
proof (induction v)
  case (CArr vs)
  then show ?case by (simp add: cborHead_ne length_concat comp_def cong: map_cong)
next
  case (CObj fs)
  have "byte_length fc (snd f) = length (encode fc (snd f))" if "f \<in> set fs" for f
    using CObj that by (auto simp: snds.simps)
  then have "sum_list (map (\<lambda>f. head_length (length (text_encode (fst f))) + length (text_encode (fst f)) + byte_length fc (snd f)) fs)
      = sum_list (map (\<lambda>f. length (encode_text (fst f)) + length (encode fc (snd f))) fs)"
    by (intro arg_cong [where f = sum_list] map_cong) (simp_all add: encode_text_def cborHead_ne)
  then show ?case
    unfolding encode_obj by (simp add: cborHead_ne length_concat comp_def sum_list_sort_key)
qed (auto simp: encode_int_def encode_text_def cborHead_ne shortestFloat_def floatLength_def)

text \<open>The length computed without building the bytes is the length of the bytes, for every
  JSON-shaped value the encoder accepts.\<close>

theorem cbor_length_exact:
  assumes "json_shaped v" and "encodable v"
  shows "cborByteLength fc v = map_option length (encodeCbor fc v)"
  using assms byte_length_encode [OF assms(1), of fc] by (simp add: cborByteLength_def encodeCbor_def)

text \<open>The encoding is canonical: it does not depend on the order in which an object's entries
  were added, provided its keys are distinct wire texts.\<close>

theorem cbor_encoding_order_free:
  assumes "mset fs = mset gs" and "distinct (map fst fs)" and "\<forall>f\<in>set fs. text_ok (fst f)"
  shows "encodeCbor fc (CObj fs) = encodeCbor fc (CObj gs)"
proof -
  have "inj_on encode_text (fst ` set fs)" using assms(3) encode_text_inj by (auto intro!: inj_onI)
  with assms(2) have "distinct (map encode_text (map fst fs))" by (auto simp: distinct_map simp del: map_map)
  then have "distinct (map (\<lambda>f. encode_text (fst f)) fs)" by (simp add: comp_def)
  from sort_key_perm [OF assms(1) this]
  have "sort_key (\<lambda>f. encode_text (fst f)) fs = sort_key (\<lambda>f. encode_text (fst f)) gs" .
  moreover have "length fs = length gs" "set fs = set gs" using assms(1) by (metis size_mset, metis set_mset_mset)
  ultimately show ?thesis unfolding encodeCbor_def encode_obj by simp
qed

lemma be_bytes_add: "n \<le> k \<Longrightarrow> be_bytes n (v + 256 ^ k * q) = be_bytes n v"
proof (induction n)
  case (Suc n)
  then obtain j where "k = n + Suc j" by (metis Suc_le_lessD add_Suc_right less_imp_Suc_add)
  then have e: "v + 256 ^ k * q = v + 256 ^ n * (256 * (256 ^ j * q))" by (simp add: power_add)
  have "(v + 256 ^ n * (256 * (256 ^ j * q))) div 256 ^ n = 256 * (256 ^ j * q) + v div 256 ^ n"
    by (rule div_mult_self2) simp
  then have "(v + 256 ^ k * q) div 256 ^ n mod 256 = v div 256 ^ n mod 256"
    unfolding e by (simp only: mod_mult_self4)
  with Suc show ?case by simp
qed simp

text \<open>A bigint of 64 bits or more is not refused but truncated: it gets the bytes of its low 64
  bits, so two different values share one encoding.\<close>

theorem cbor_bigint_truncated:
  assumes "2 ^ 32 \<le> k" and "k < 2 ^ 64"
  shows "encodeCbor fc (CBig (k + 2 ^ 64)) = encodeCbor fc (CBig k)"
proof -
  define m where "m = nat k"
  have m: "k = int m" "2 ^ 32 \<le> m" using assms by (simp_all add: m_def le_nat_iff)
  have "be_bytes 8 (m + 256 ^ 8 * 1) = be_bytes 8 m" by (rule be_bytes_add) simp
  moreover have "nat (k + 2 ^ 64) = m + 256 ^ 8 * 1" by (simp add: m)
  ultimately show ?thesis using m by (simp add: encodeCbor_def encode_int_def cborHead_def)
qed

text \<open>A text that starts with a byte-order mark does not survive the wire: the encoder accepts
  it and the decoder returns it without the mark.\<close>

theorem cbor_loses_byte_order_mark:
  assumes "well_formed (0xFEFF # s)" and "length (text_encode (0xFEFF # s)) < 2 ^ 64"
  shows "\<exists>bs. encodeCbor fc (CText (0xFEFF # s)) = Some bs \<and> decodeCbor fc bs = Some (CText s, length bs)"
proof -
  let ?t = "0xFEFF # s"
  have e: "encode fc (CText ?t) = cborHead 3 (length (text_encode ?t)) @ text_encode ?t" by (simp add: encode_text_def)
  obtain m where m: "length (encode fc (CText ?t)) = Suc m"
    using encode_ne [of "CText ?t" fc] by (cases "encode fc (CText ?t)") auto
  have "decode fc (Suc m) (encode fc (CText ?t)) = Some (CText s, [])"
    unfolding e using decode_head_step [OF assms(2), of 3 fc m "text_encode ?t"] text_bom_lost [OF assms(1)]
    by (simp add: dec_major_def)
  then show ?thesis using assms(1) m by (simp add: encodeCbor_def decodeCbor_def well_formed_def)
qed

section \<open>Enough fuel\<close>

text \<open>Every decoded value takes at least one byte, so nesting never exceeds the number of bytes and
  more fuel than \<open>decodeCbor\<close> uses changes nothing.\<close>

lemma read_be_shrinks: "read_be n bs = Some (v, r) \<Longrightarrow> length r \<le> length bs"
  by (auto simp: read_be_def split: if_splits)

lemma dec_head_shrinks: "dec_head bs = Some (m, v, r) \<Longrightarrow> length r < length bs"
  by (cases bs) (auto simp: Let_def split: if_splits option.splits dest!: read_be_shrinks)

lemma dec_simple_shrinks: "dec_simple fc info bs = Some (v, r) \<Longrightarrow> length r \<le> length bs"
  by (auto simp: dec_simple_def Let_def split: if_splits option.splits dest!: read_be_shrinks)

definition shrinks :: "(bytes \<Rightarrow> (cval \<times> bytes) option) \<Rightarrow> bool" where
  "shrinks d \<longleftrightarrow> (\<forall>bs v r. d bs = Some (v, r) \<longrightarrow> length r \<le> length bs)"

lemma dec_many_shrinks: "shrinks d \<Longrightarrow> dec_many d k bs = Some (vs, r) \<Longrightarrow> length r \<le> length bs"
  by (induction k arbitrary: bs vs) (fastforce simp: shrinks_def split: option.splits)+

lemma dec_fields_shrinks: "shrinks d \<Longrightarrow> dec_fields d k prev out bs = Some (fs, r) \<Longrightarrow> length r \<le> length bs"
proof (induction k arbitrary: bs prev out)
  case (Suc k)
  from Suc.prems(2) obtain key r1 v r2 prev1 out1 where d: "d bs = Some (CText key, r1)" "d r1 = Some (v, r2)"
    and rest: "dec_fields d k prev1 out1 r2 = Some (fs, r)"
    by (auto simp: Let_def split: option.splits cval.splits if_splits)
  from Suc.IH [OF Suc.prems(1) rest] d Suc.prems(1) show ?case by (meson order_trans shrinks_def)
qed simp

lemma dec_major_shrinks: "shrinks d \<Longrightarrow> dec_major d m v bs = Some (x, r) \<Longrightarrow> length r \<le> length bs"
  by (auto simp: dec_major_def split: if_splits dest: dec_many_shrinks dec_fields_shrinks)

lemma decode_shrinks: "decode fc n bs = Some (v, r) \<Longrightarrow> length r < length bs"
proof (induction n arbitrary: bs v r)
  case (Suc n)
  have "shrinks (decode fc n)" unfolding shrinks_def using Suc.IH by (meson less_imp_le)
  with Suc.prems show ?case
    by (auto split: list.splits if_splits option.splits dest!: dec_simple_shrinks dec_major_shrinks dec_head_shrinks
        simp del: dec_head.simps)
qed simp

lemma dec_many_cong:
  "(\<And>bs. length bs \<le> L \<Longrightarrow> d bs = d' bs) \<Longrightarrow> shrinks d \<Longrightarrow> length bs \<le> L \<Longrightarrow> dec_many d k bs = dec_many d' k bs"
proof (induction k arbitrary: bs)
  case (Suc k)
  show ?case
  proof (cases "d bs")
    case (Some vr)
    obtain v r where vr: "vr = (v, r)" by (cases vr)
    with Some Suc.prems(2,3) have "length r \<le> L" by (auto simp: shrinks_def dest: order_trans)
    with Suc Some vr show ?thesis by (metis (no_types, lifting) dec_many.simps(2) option.simps(5) prod.simps(2))
  qed (use Suc in simp)
qed simp

lemma dec_fields_cong:
  "(\<And>bs. length bs \<le> L \<Longrightarrow> d bs = d' bs) \<Longrightarrow> shrinks d \<Longrightarrow> length bs \<le> L \<Longrightarrow>
     dec_fields d k prev out bs = dec_fields d' k prev out bs"
proof (induction k arbitrary: bs prev out)
  case (Suc k)
  have IH: "\<And>bs prev out. length bs \<le> L \<Longrightarrow> dec_fields d k prev out bs = dec_fields d' k prev out bs"
    using Suc.IH [OF Suc.prems(1,2)] by blast
  have le: "\<And>bs v r. d bs = Some (v, r) \<Longrightarrow> length bs \<le> L \<Longrightarrow> length r \<le> L"
    using Suc.prems(2) by (meson order_trans shrinks_def)
  have eq: "d' bs = d bs" using Suc.prems(1,3) by simp
  show ?case
  proof (cases "d bs")
    case (Some kr)
    obtain key r where kr: "kr = (key, r)" by (cases kr)
    have r: "length r \<le> L" using le Some kr Suc.prems(3) by blast
    then have eq2: "d' r = d r" using Suc.prems(1) by simp
    have nxt: "\<And>v r'. d r = Some (v, r') \<Longrightarrow> length r' \<le> L" using le r by blast
    show ?thesis
    proof (cases "d r")
      case None
      with Some kr eq eq2 show ?thesis by (cases key) (simp_all add: Let_def)
    next
      case s2: (Some vr)
      obtain v r' where vr: "vr = (v, r')" by (cases vr)
      with nxt s2 IH [of r'] Some kr eq eq2 show ?thesis by (cases key) (simp_all add: Let_def)
    qed
  qed (use eq in simp)
qed simp

lemma decode_fuel:
  "length bs \<le> n \<Longrightarrow> length bs \<le> m \<Longrightarrow> decode fc n bs = decode fc m bs"
proof (induction "length bs" arbitrary: bs n m rule: less_induct)
  case less
  show ?case
  proof (cases bs)
    case Nil
    then show ?thesis by (cases n; cases m) simp_all
  next
    case (Cons first rest)
    obtain n' m' where nm: "n = Suc n'" "m = Suc m'" using less.prems Cons by (cases n; cases m) auto
    have eq: "decode fc n' cs = decode fc m' cs" if "length cs \<le> length rest" for cs
      using that less.prems Cons nm by (intro less.hyps) auto
    have sh: "shrinks (decode fc n')" unfolding shrinks_def using decode_shrinks by (meson less_imp_le)
    have "dec_major (decode fc n') major v r = dec_major (decode fc m') major v r"
      if "dec_head bs = Some (major, v, r)" for major v r
    proof -
      have "length r \<le> length rest" using dec_head_shrinks [OF that] Cons by simp
      from dec_many_cong [OF eq sh this, of v] dec_fields_cong [OF eq sh this, of v None "[]"]
      show ?thesis by (simp add: dec_major_def)
    qed
    then show ?thesis using Cons nm by (auto simp del: dec_head.simps split: option.splits)
  qed
qed

subsection \<open>Concrete runs\<close>

definition exact_conv :: float_conv where
  "exact_conv = \<lparr>narrow16 = \<lambda>w. 0, widen16 = \<lambda>h. 0, narrow32 = \<lambda>w. 0, widen32 = \<lambda>h. 0\<rparr>"

definition sample_cval :: cval where
  "sample_cval = CObj [([98], CArr [CInt (- 500), CNull]), ([97], CText [0x20AC, 0xD83D, 0xDE00])]"

lemma sample_wire_ok: "wire_ok sample_cval"
  by (simp add: sample_cval_def text_ok_def well_formed_def unit_ok_def ill_formed_def bad_at_def upt_rec
      is_high_def is_low_def text_encode_def utf8_cp_def is_safe_int_def MAX_SAFE_INTEGER_def)

theorem cbor_round_trip_witness:
  "\<exists>bs. encodeCbor exact_conv sample_cval = Some bs \<and> decodeCbor exact_conv (bs @ [1, 2]) = Some (canon sample_cval, length bs)"
  by (rule cbor_round_trip [OF sample_wire_ok])

theorem cbor_length_exact_witness:
  "cborByteLength exact_conv sample_cval = map_option length (encodeCbor exact_conv sample_cval)"
proof -
  have "json_shaped sample_cval" and "encodable sample_cval"
    by (simp_all add: sample_cval_def ill_formed_def bad_at_def upt_rec is_high_def is_low_def)
  then show ?thesis by (rule cbor_length_exact)
qed

theorem cbor_encoding_order_free_witness:
  "encodeCbor exact_conv (CObj [([98], CNull), ([97], CBool True)])
     = encodeCbor exact_conv (CObj [([97], CBool True), ([98], CNull)])"
  by (rule cbor_encoding_order_free)
     (simp_all add: text_ok_def well_formed_def unit_ok_def ill_formed_def bad_at_def upt_rec
      is_high_def is_low_def text_encode_def utf8_cp_def add_mset_commute)

theorem cbor_bigint_truncated_witness:
  "encodeCbor exact_conv (CBig (2 ^ 32 + 2 ^ 64)) = encodeCbor exact_conv (CBig (2 ^ 32))"
  by (rule cbor_bigint_truncated) simp_all

theorem cbor_loses_byte_order_mark_witness:
  "\<exists>bs. encodeCbor exact_conv (CText [0xFEFF, 97]) = Some bs \<and> decodeCbor exact_conv bs = Some (CText [97], length bs)"
  by (rule cbor_loses_byte_order_mark)
     (simp_all add: well_formed_def unit_ok_def ill_formed_def bad_at_def upt_rec is_high_def is_low_def
      text_encode_def utf8_cp_def)

end
