(* ===== verification/Wire.thy ===== *)
theory Wire
  imports Cbor Json
begin

text \<open>
  The bulk-stream envelope: the frame checks \<open>decodeDevStreamFrame\<close>
  (\<^verbatim>\<open>packages/types/src/dev-runtime.ts\<close>, \<open>decodeDevStreamControlFrame\<close> of \<^verbatim>\<open>dev-runtime-control.ts\<close>),
  the codec \<open>encodeStreamFrame\<close> / \<open>parseStreamFrame\<close> and the inbound validator
  \<open>createStreamInbound\<close> (\<^verbatim>\<open>apps/desktop/shell/src/dev-runtime/channel/wire.ts\<close>). A frame is an object,
  a list of fields. The checks of a protocol name, a timestamp, a device gesture, an error body
  and a video frame are the arguments in \<open>frame_checks\<close>.
\<close>

type_synonym fields = "(units \<times> cval) list"

record frame_checks =
  ok_protocol :: "cval \<Rightarrow> bool"
  ok_timestamp :: "cval \<Rightarrow> bool"
  ok_gesture :: "cval \<Rightarrow> bool"
  ok_error :: "cval \<Rightarrow> bool"
  ok_video :: "(units \<rightharpoonup> cval) \<Rightarrow> bool"

definition u :: "string \<Rightarrow> units" where "u s = map of_char s"

lemma u_eq_iff: "u s = u t \<longleftrightarrow> s = t"
  unfolding u_def by (rule inj_eq, rule inj_mapI, rule injI) (simp add: of_char_eq_iff)

section \<open>Frame checks\<close>

definition exactKeys :: "fields \<Rightarrow> units list \<Rightarrow> units list \<Rightarrow> bool" where
  "exactKeys fs required opt \<longleftrightarrow>
     (\<forall>k\<in>set (map fst fs). k \<in> set (required @ opt)) \<and> (\<forall>k\<in>set required. k \<in> set (map fst fs))"

definition digit_unit :: "nat \<Rightarrow> bool" where "digit_unit d \<longleftrightarrow> 48 \<le> d \<and> d \<le> 57"

definition units_value :: "units \<Rightarrow> nat" where
  "units_value s = fold (\<lambda>d acc. acc * 10 + (d - 48)) s 0"

text \<open>A canonical unsigned 64-bit decimal string.\<close>

definition uint64String :: "cval option \<Rightarrow> bool" where
  "uint64String v =
     (case v of
        Some (CText s) \<Rightarrow> 1 \<le> length s \<and> length s \<le> 64 \<and> list_all digit_unit s
          \<and> (s = u ''0'' \<or> hd s \<noteq> 48) \<and> units_value s \<le> 18446744073709551615
      | _ \<Rightarrow> False)"

definition integerValue :: "cval option \<Rightarrow> int \<Rightarrow> int \<Rightarrow> bool" where
  "integerValue v lo hi = (case v of Some (CInt i) \<Rightarrow> is_safe_int i \<and> lo \<le> i \<and> i \<le> hi | _ \<Rightarrow> False)"

definition bytesValue :: "cval option \<Rightarrow> bool" where
  "bytesValue v = (case v of Some (CBytes _) \<Rightarrow> True | _ \<Rightarrow> False)"

definition literal :: "cval option \<Rightarrow> string list \<Rightarrow> bool" where
  "literal v allowed = (case v of Some (CText s) \<Rightarrow> s \<in> set (map u allowed) | _ \<Rightarrow> False)"

definition shortText :: "cval option \<Rightarrow> nat \<Rightarrow> bool" where
  "shortText v n = (case v of None \<Rightarrow> True | Some (CText s) \<Rightarrow> length s \<le> n | _ \<Rightarrow> False)"

definition checked :: "(cval \<Rightarrow> bool) \<Rightarrow> cval option \<Rightarrow> bool" where
  "checked P v = (case v of None \<Rightarrow> False | Some x \<Rightarrow> P x)"

definition frame_type :: "fields \<Rightarrow> units option" where
  "frame_type fs = (case map_of fs (u ''type'') of Some (CText t) \<Rightarrow> Some t | _ \<Rightarrow> None)"

definition check_control :: "frame_checks \<Rightarrow> units \<Rightarrow> fields \<Rightarrow> bool" where
  "check_control V t fs =
     (let get = (\<lambda>k. map_of fs (u k)); keys = (\<lambda>req. exactKeys fs (map u req) []) in
      if t = u ''heartbeat'' then keys [''type'', ''observedAt'', ''throughSequence'']
        \<and> checked (ok_timestamp V) (get ''observedAt'') \<and> uint64String (get ''throughSequence'')
      else if t = u ''resync'' then keys [''type'', ''reason'', ''checkpointSequence'']
        \<and> literal (get ''reason'') [''sequence_gap'', ''checkpoint_required'']
        \<and> uint64String (get ''checkpointSequence'')
      else False)"

definition check_type :: "frame_checks \<Rightarrow> units \<Rightarrow> fields \<Rightarrow> bool" where
  "check_type V t fs =
     (let get = (\<lambda>k. map_of fs (u k)); keys = (\<lambda>req. exactKeys fs (map u req) []) in
      if t = u ''opened'' then keys [''type'', ''protocol'', ''generation'', ''nextSequence'']
        \<and> checked (ok_protocol V) (get ''protocol'')
        \<and> integerValue (get ''generation'') 0 MAX_SAFE_INTEGER \<and> uint64String (get ''nextSequence'')
      else if t = u ''data'' then keys [''type'', ''sequence'', ''bytes'']
        \<and> uint64String (get ''sequence'') \<and> bytesValue (get ''bytes'')
      else if t = u ''video'' then ok_video V (map_of fs)
      else if t = u ''input'' then keys [''type'', ''sequence'', ''generation'', ''bytes'']
        \<and> uint64String (get ''sequence'') \<and> integerValue (get ''generation'') 0 MAX_SAFE_INTEGER
        \<and> bytesValue (get ''bytes'')
      else if t = u ''gesture'' then keys [''type'', ''sequence'', ''generation'', ''gesture'']
        \<and> uint64String (get ''sequence'') \<and> integerValue (get ''generation'') 0 MAX_SAFE_INTEGER
        \<and> checked (ok_gesture V) (get ''gesture'')
      else if t = u ''resize'' then keys [''type'', ''sequence'', ''generation'', ''cols'', ''rows'']
        \<and> uint64String (get ''sequence'') \<and> integerValue (get ''generation'') 0 MAX_SAFE_INTEGER
        \<and> integerValue (get ''cols'') 1 1000 \<and> integerValue (get ''rows'') 1 1000
      else if t = u ''ack'' then keys [''type'', ''throughSequence'', ''availableCreditBytes'']
        \<and> uint64String (get ''throughSequence'')
        \<and> integerValue (get ''availableCreditBytes'') 0 MAX_SAFE_INTEGER
      else if t = u ''heartbeat'' \<or> t = u ''resync'' then check_control V t fs
      else if t = u ''error'' then keys [''type'', ''error'']
        \<and> checked (ok_error V) (get ''error'')
      else if t = u ''close'' then exactKeys fs (map u [''type'', ''code'']) [u ''reason'']
        \<and> literal (get ''code'') [''normal'', ''expired'', ''revoked'', ''stale_generation'', ''backpressure'', ''incompatible'']
        \<and> shortText (get ''reason'') 256
      else False)"

definition decodeDevStreamFrame :: "frame_checks \<Rightarrow> fields \<Rightarrow> fields option" where
  "decodeDevStreamFrame V fs =
     (case frame_type fs of None \<Rightarrow> None | Some t \<Rightarrow> if check_type V t fs then Some fs else None)"

section \<open>Codec\<close>

definition STREAM_CONTROL_MAX_BYTES :: nat where "STREAM_CONTROL_MAX_BYTES = 64 * 1024"

definition FRAME_TAGS :: "(units \<times> nat) list" where
  "FRAME_TAGS = [(u ''opened'', 1), (u ''data'', 2), (u ''video'', 3), (u ''input'', 4), (u ''gesture'', 5),
     (u ''resize'', 6), (u ''ack'', 7), (u ''heartbeat'', 8), (u ''resync'', 9), (u ''error'', 10), (u ''close'', 11)]"

definition TAG_FRAME_TYPES :: "(nat \<times> units) list" where
  "TAG_FRAME_TYPES = map (\<lambda>(t, n). (n, t)) FRAME_TAGS"

definition BYTE_FRAME_TYPES :: "units list" where
  "BYTE_FRAME_TYPES = map u [''data'', ''video'', ''input'', ''gesture'', ''resize'']"

text \<open>Object spread: a later property overwrites an earlier one of the same name.\<close>

definition obj_put :: "units \<times> cval \<Rightarrow> fields \<Rightarrow> fields" where
  "obj_put kv fs = (if fst kv \<in> set (map fst fs)
     then map (\<lambda>f. if fst f = fst kv then kv else f) fs else fs @ [kv])"

definition without :: "units list \<Rightarrow> fields \<Rightarrow> fields" where
  "without ks fs = filter (\<lambda>f. fst f \<notin> set ks) fs"

definition frame_bytes :: "fields \<Rightarrow> bytes" where
  "frame_bytes fs = (case map_of fs (u ''bytes'') of Some (CBytes bs) \<Rightarrow> bs | _ \<Rightarrow> [])"

definition encodeStreamFrame :: "float_conv \<Rightarrow> frame_checks \<Rightarrow> fields \<Rightarrow> bytes option" where
  "encodeStreamFrame fc V frame =
     (case decodeDevStreamFrame V frame of
        None \<Rightarrow> None
      | Some valid \<Rightarrow>
          (let t = the (frame_type valid); tag = the (map_of FRAME_TAGS t) in
           if t \<notin> set BYTE_FRAME_TYPES then
             (case encodeCbor fc (CObj (without [u ''type''] valid)) of
                None \<Rightarrow> None
              | Some encoded \<Rightarrow> if length encoded > STREAM_CONTROL_MAX_BYTES then None else Some (tag # encoded))
           else
             (let bs = frame_bytes valid;
                  metadata = without [u ''type'', u ''bytes''] valid in
              case encodeCbor fc (CObj (obj_put (u ''byteLength'', CInt (int (length bs))) metadata)) of
                None \<Rightarrow> None
              | Some encoded \<Rightarrow>
                  if length encoded > STREAM_CONTROL_MAX_BYTES then None else Some (tag # encoded @ bs))))"

definition parseStreamFrame :: "float_conv \<Rightarrow> frame_checks \<Rightarrow> bytes \<Rightarrow> fields option" where
  "parseStreamFrame fc V message =
     (case message of
        [] \<Rightarrow> None
      | tag # payload \<Rightarrow>
          (case map_of TAG_FRAME_TYPES tag of
             None \<Rightarrow> None
           | Some t \<Rightarrow>
               if t \<in> set BYTE_FRAME_TYPES then
                 (case decodeCbor fc payload of
                    Some (CObj metadata, n) \<Rightarrow>
                      (case map_of metadata (u ''byteLength'') of
                         Some (CInt k) \<Rightarrow>
                           if int (length payload) - int n \<noteq> k then None
                           else decodeDevStreamFrame V
                             (obj_put (u ''bytes'', CBytes (drop n payload))
                               (fold obj_put (without [u ''byteLength''] metadata) [(u ''type'', CText t)]))
                       | _ \<Rightarrow> None)
                  | _ \<Rightarrow> None)
               else if length payload > STREAM_CONTROL_MAX_BYTES then None
               else (case decodeCbor fc payload of
                       Some (CObj body, _) \<Rightarrow>
                         decodeDevStreamFrame V (fold obj_put body [(u ''type'', CText t)])
                     | _ \<Rightarrow> None)))"

section \<open>Round trip of frames\<close>

lemma exactKeys_cong: "map_of fs = map_of gs \<Longrightarrow> exactKeys fs r o1 = exactKeys gs r o1"
  by (metis dom_map_of_conv_image_fst exactKeys_def set_map)

lemma exactKeys_absent: "exactKeys fs r o1 \<Longrightarrow> k \<notin> set (r @ o1) \<Longrightarrow> k \<notin> set (map fst fs)"
  by (auto simp: exactKeys_def)

lemma check_type_cong: "map_of fs = map_of gs \<Longrightarrow> check_type V t fs = check_type V t gs"
  using exactKeys_cong [of fs gs] by (simp add: check_type_def check_control_def Let_def)

lemma decode_frame_cong:
  assumes "map_of fs = map_of gs" and "decodeDevStreamFrame V gs = Some gs"
  shows "decodeDevStreamFrame V fs = Some fs"
  using assms check_type_cong [OF assms(1)]
  by (auto simp: decodeDevStreamFrame_def frame_type_def split: option.splits cval.splits if_splits)

lemma fold_obj_put: "distinct (map fst (acc @ body)) \<Longrightarrow> fold obj_put body acc = acc @ body"
proof (induction body arbitrary: acc)
  case (Cons f body)
  then have "fst f \<notin> set (map fst acc)" by auto
  then show ?case using Cons.IH [of "acc @ [f]"] Cons.prems by (simp add: obj_put_def)
qed simp

definition frame_types :: "string list" where
  "frame_types = [''opened'', ''data'', ''video'', ''input'', ''gesture'', ''resize'', ''ack'', ''heartbeat'',
     ''resync'', ''error'', ''close'']"

lemma check_type_known: "check_type V t fs \<Longrightarrow> t \<in> set (map u frame_types)"
  by (auto simp: check_type_def check_control_def Let_def frame_types_def split: if_splits)

lemma tag_round_trip:
  assumes "t \<in> set (map u frame_types)"
  obtains n where "map_of FRAME_TAGS t = Some n" and "map_of TAG_FRAME_TYPES n = Some t"
  using assms by (auto simp: frame_types_def FRAME_TAGS_def TAG_FRAME_TYPES_def u_def)

text \<open>Fields that the wire format carries: distinct well-formed keys, values of the codec. \<open>flat_ok\<close> adds that no
  nested object would be reordered.\<close>

definition frame_ok :: "fields \<Rightarrow> bool" where
  "frame_ok fs \<longleftrightarrow> length fs < 2 ^ 63 \<and> distinct (map fst fs) \<and> (\<forall>f\<in>set fs. text_ok (fst f) \<and> wire_ok (snd f))"

definition flat_ok :: "fields \<Rightarrow> bool" where
  "flat_ok fs \<longleftrightarrow> frame_ok fs \<and> (\<forall>f\<in>set fs. canon (snd f) = snd f)"

definition canon_field :: "nat list \<times> cval \<Rightarrow> nat list \<times> cval" where
  "canon_field f = (fst f, canon (snd f))"

lemma frame_ok_without: "frame_ok fs \<Longrightarrow> frame_ok (without ks fs)"
  by (auto simp: frame_ok_def without_def distinct_map_filter intro: le_less_trans [OF length_filter_le])

lemma flat_canon:
  assumes "flat_ok fs"
  shows "canon_field ` {f \<in> set fs. P f} = {f \<in> set fs. P f}"
proof -
  have "canon_field f = f" if "f \<in> set fs" for f using assms that by (cases f) (auto simp: flat_ok_def canon_field_def)
  then show ?thesis by force
qed

lemma frame_decodes:
  assumes "frame_ok fs" and "encodeCbor fc (CObj fs) = Some bs"
  shows "\<exists>gs. decodeCbor fc (bs @ rest) = Some (CObj gs, length bs) \<and> distinct (map fst gs) \<and> set gs = canon_field ` set fs"
proof -
  have "wire_ok (CObj fs)" using assms(1) by (auto simp: frame_ok_def)
  from cbor_decodes [OF this assms(2), of rest]
  have d: "decodeCbor fc (bs @ rest) = Some (canon (CObj fs), length bs)" .
  let ?gs = "map canon_field (sort_key (\<lambda>f. encode_text (fst f)) fs)"
  have "canon (CObj fs) = CObj ?gs" by (simp only: canon_obj canon_field_def [abs_def])
  moreover have "map fst ?gs = map fst (sort_key (\<lambda>f. encode_text (fst f)) fs)" by (simp add: canon_field_def)
  moreover have "distinct (map fst (sort_key (\<lambda>f. encode_text (fst f)) fs))" using assms(1) by (simp add: frame_ok_def distinct_map)
  moreover have "set ?gs = canon_field ` set fs" by simp
  ultimately show ?thesis using d by (intro exI [of _ ?gs]) (simp only: simp_thms)
qed

lemma map_of_same:
  "distinct (map fst fs) \<Longrightarrow> distinct (map fst gs) \<Longrightarrow> set fs = set gs \<Longrightarrow> map_of fs = map_of gs"
  by (simp add: map_of_inject_set)

lemma frame_type_mem: "frame_type fs = Some t \<Longrightarrow> (u ''type'', CText t) \<in> set fs"
  by (auto simp: frame_type_def split: option.splits cval.splits dest: map_of_SomeD)

lemma set_without: "set (without ks fs) = {f \<in> set fs. fst f \<notin> set ks}"
  by (auto simp: without_def)

lemma encode_frame_valid:
  assumes "encodeStreamFrame fc V fs = Some msg"
  obtains t n where "decodeDevStreamFrame V fs = Some fs" and "frame_type fs = Some t"
    and "map_of FRAME_TAGS t = Some n" and "map_of TAG_FRAME_TYPES n = Some t" and "check_type V t fs"
proof -
  from assms obtain t where d: "decodeDevStreamFrame V fs = Some fs" "frame_type fs = Some t" and c: "check_type V t fs"
    by (auto simp: encodeStreamFrame_def decodeDevStreamFrame_def split: option.splits if_splits)
  from tag_round_trip [OF check_type_known [OF c]] that [OF d] c show ?thesis by blast
qed

text \<open>A control frame with flat fields that the encoder accepts is parsed back to a frame with
  exactly the same fields.\<close>

theorem control_frame_round_trip:
  assumes "encodeStreamFrame fc V fs = Some msg" and "flat_ok fs"
    and "frame_type fs = Some t" and "t \<notin> set BYTE_FRAME_TYPES"
  shows "\<exists>fs'. parseStreamFrame fc V msg = Some fs' \<and> map_of fs' = map_of fs"
proof -
  from assms(1) obtain t' n where valid: "decodeDevStreamFrame V fs = Some fs" and t': "frame_type fs = Some t'"
    and n: "map_of FRAME_TAGS t' = Some n" "map_of TAG_FRAME_TYPES n = Some t'" by (rule encode_frame_valid)
  from t' assms(3) have [simp]: "t' = t" by simp
  from assms valid n obtain bs where enc: "encodeCbor fc (CObj (without [u ''type''] fs)) = Some bs"
    and len: "length bs \<le> STREAM_CONTROL_MAX_BYTES" and msg: "msg = n # bs"
    by (auto simp: encodeStreamFrame_def Let_def split: option.splits if_splits)
  have ok: "frame_ok fs" using assms(2) by (simp add: flat_ok_def)
  from frame_decodes [OF frame_ok_without [OF ok] enc, of "[]"] obtain gs where
    dec: "decodeCbor fc bs = Some (CObj gs, length bs)" and gs: "distinct (map fst gs)"
      "set gs = canon_field ` {f \<in> set fs. fst f \<noteq> u ''type''}" by (auto simp: set_without)
  then have gs: "distinct (map fst gs)" "set gs = {f \<in> set fs. fst f \<noteq> u ''type''}"
    by (simp_all add: flat_canon [OF assms(2)])
  have dist: "distinct (map fst ([(u ''type'', CText t)] @ gs))" using gs by auto
  have "map_of ([(u ''type'', CText t)] @ gs) = map_of fs"
  proof (rule map_of_same [OF dist])
    show "distinct (map fst fs)" using assms(2) by (simp add: flat_ok_def frame_ok_def)
    then show "set ([(u ''type'', CText t)] @ gs) = set fs"
      using gs(2) frame_type_mem [OF assms(3)] by (auto dest: eq_key_imp_eq_value)
  qed
  moreover from decode_frame_cong [OF this valid] dec n msg len assms(4) fold_obj_put [OF dist]
  have "parseStreamFrame fc V msg = Some ([(u ''type'', CText t)] @ gs)"
    by (simp add: parseStreamFrame_def)
  ultimately show ?thesis by blast
qed

lemma byte_frame_decodes:
  assumes "encodeStreamFrame fc V fs = Some msg" and "frame_ok fs"
    and "frame_type fs = Some t" and "t \<in> set BYTE_FRAME_TYPES"
    and "u ''byteLength'' \<notin> set (map fst fs)" and "length (frame_bytes fs) \<le> nat MAX_SAFE_INTEGER"
  obtains gs where "distinct (map fst gs)" and "set gs = canon_field ` {f \<in> set fs. fst f \<notin> {u ''type'', u ''bytes''}}"
    and "parseStreamFrame fc V msg = decodeDevStreamFrame V ((u ''type'', CText t) # gs @ [(u ''bytes'', CBytes (frame_bytes fs))])"
proof -
  let ?bs = "frame_bytes fs" and ?md = "without [u ''type'', u ''bytes''] fs"
  let ?all = "?md @ [(u ''byteLength'', CInt (int (length ?bs)))]"
  from assms(1) obtain t' n where valid: "decodeDevStreamFrame V fs = Some fs" and t': "frame_type fs = Some t'"
    and n: "map_of FRAME_TAGS t' = Some n" "map_of TAG_FRAME_TYPES n = Some t'" by (rule encode_frame_valid)
  from t' assms(3) have [simp]: "t' = t" by simp
  have put: "obj_put (u ''byteLength'', CInt (int (length ?bs))) ?md = ?all"
    using assms(5) by (auto simp: obj_put_def without_def)
  from assms valid n put obtain e where enc: "encodeCbor fc (CObj ?all) = Some e" and msg: "msg = n # e @ ?bs"
    by (auto simp: encodeStreamFrame_def Let_def split: option.splits if_splits)
  have "frame_ok ?all"
  proof -
    have "text_ok (u ''byteLength'')"
      by (simp add: text_ok_def well_formed_def unit_ok_def ill_formed_def bad_at_def upt_rec u_def
          is_high_def is_low_def text_encode_def utf8_cp_def)
    moreover have "is_safe_int (int (length ?bs))" using assms(6) by (simp add: is_safe_int_def MAX_SAFE_INTEGER_def)
    moreover have "length ?md < length fs"
      using frame_type_mem [OF assms(3)] unfolding without_def by (intro length_filter_less) auto
    ultimately show ?thesis
      using frame_ok_without [OF assms(2), of "[u ''type'', u ''bytes'']"] assms(2,5)
      by (auto simp: frame_ok_def set_without)
  qed
  from frame_decodes [OF this enc, of ?bs] obtain hs where
    dec: "decodeCbor fc (e @ ?bs) = Some (CObj hs, length e)" and hs: "distinct (map fst hs)"
      "set hs = insert (u ''byteLength'', CInt (int (length ?bs))) (canon_field ` {f \<in> set fs. fst f \<notin> {u ''type'', u ''bytes''}})"
    by (auto simp: set_without canon_field_def)
  define gs where "gs = without [u ''byteLength''] hs"
  have "\<forall>f\<in>set fs. fst f \<noteq> u ''byteLength''" using assms(5) by (metis image_eqI set_map)
  then have gs: "distinct (map fst gs)" "set gs = canon_field ` {f \<in> set fs. fst f \<notin> {u ''type'', u ''bytes''}}"
    using hs by (auto simp: gs_def set_without without_def distinct_map_filter canon_field_def)
  have bl: "map_of hs (u ''byteLength'') = Some (CInt (int (length ?bs)))"
    using hs by (auto intro: map_of_is_SomeI)
  have dist: "distinct (map fst ([(u ''type'', CText t)] @ gs))" using gs by (auto simp: canon_field_def)
  have "obj_put (u ''bytes'', CBytes ?bs) ([(u ''type'', CText t)] @ gs)
      = (u ''type'', CText t) # gs @ [(u ''bytes'', CBytes ?bs)]"
    using gs by (auto simp: obj_put_def canon_field_def u_def)
  with dec bl n msg assms(4) fold_obj_put [OF dist]
  have "parseStreamFrame fc V msg = decodeDevStreamFrame V ((u ''type'', CText t) # gs @ [(u ''bytes'', CBytes ?bs)])"
    by (simp add: parseStreamFrame_def gs_def)
  with gs that show ?thesis by blast
qed

text \<open>A data, video or input frame that the encoder accepts is parsed back to a frame with the
  same fields, its raw bytes included.\<close>

theorem byte_frame_round_trip:
  assumes "encodeStreamFrame fc V fs = Some msg" and "flat_ok fs"
    and "frame_type fs = Some t" and "t \<in> set BYTE_FRAME_TYPES"
    and "u ''byteLength'' \<notin> set (map fst fs)" and "map_of fs (u ''bytes'') = Some (CBytes bs)"
    and "length bs \<le> nat MAX_SAFE_INTEGER"
  shows "\<exists>fs'. parseStreamFrame fc V msg = Some fs' \<and> map_of fs' = map_of fs"
proof -
  from assms(6) have fb [simp]: "frame_bytes fs = bs" by (simp add: frame_bytes_def)
  have le: "length (frame_bytes fs) \<le> nat MAX_SAFE_INTEGER" and ok: "frame_ok fs" using assms(2,7) by (simp_all add: flat_ok_def)
  obtain gs where gs: "distinct (map fst gs)"
      "set gs = {f \<in> set fs. fst f \<notin> {u ''type'', u ''bytes''}}"
    and parse: "parseStreamFrame fc V msg = decodeDevStreamFrame V ((u ''type'', CText t) # gs @ [(u ''bytes'', CBytes bs)])"
    using byte_frame_decodes [OF assms(1) ok assms(3-5) le] unfolding fb flat_canon [OF assms(2)] by blast
  let ?fs = "(u ''type'', CText t) # gs @ [(u ''bytes'', CBytes bs)]"
  have "map_of ?fs = map_of fs"
  proof (rule map_of_same)
    show "distinct (map fst ?fs)" using gs by (auto simp: u_def)
    show d: "distinct (map fst fs)" using assms(2) by (simp add: flat_ok_def frame_ok_def)
    have ty: "(u ''type'', CText t) \<in> set fs" and by1: "(u ''bytes'', CBytes bs) \<in> set fs"
      using frame_type_mem [OF assms(3)] map_of_SomeD [OF assms(6)] by simp_all
    show "set ?fs = set fs"
    proof (rule set_eqI)
      fix f
      have "f \<in> set fs \<Longrightarrow> fst f = u ''type'' \<Longrightarrow> f = (u ''type'', CText t)"
        "f \<in> set fs \<Longrightarrow> fst f = u ''bytes'' \<Longrightarrow> f = (u ''bytes'', CBytes bs)"
        using d ty by1 by (metis eq_key_imp_eq_value prod.collapse)+
      then show "f \<in> set ?fs \<longleftrightarrow> f \<in> set fs" using ty by1 gs(2) by auto
    qed
  qed
  moreover from assms(1) have "decodeDevStreamFrame V fs = Some fs" by (rule encode_frame_valid)
  ultimately show ?thesis using decode_frame_cong parse by auto
qed

text \<open>C29: every resize or gesture frame the encoder produces from values of the wire format is refused by the parser. These frames
  carry no bytes, the parser always adds an empty \<open>bytes\<close> property for their markers, and the frame
  check allows no such key.\<close>

theorem resize_and_gesture_never_parse:
  assumes "encodeStreamFrame fc V fs = Some msg" and "frame_ok fs"
    and "frame_type fs = Some t" and "t = u ''resize'' \<or> t = u ''gesture''"
  shows "parseStreamFrame fc V msg = None"
proof -
  from assms(1) have "check_type V t fs" using assms(3) by (auto elim!: encode_frame_valid)
  then have ek: "exactKeys fs (map u [''type'', ''sequence'', ''generation'', ''cols'', ''rows'']) []
      \<or> exactKeys fs (map u [''type'', ''sequence'', ''generation'', ''gesture'']) []"
    using assms(4) by (elim disjE) (simp_all add: check_type_def check_control_def Let_def u_eq_iff)
  have absent: "k \<notin> set (map fst fs)" if "k = u ''bytes'' \<or> k = u ''byteLength''" for k
  proof -
    have n: "k \<notin> set (map u [''type'', ''sequence'', ''generation'', ''cols'', ''rows''] @ [])"
      "k \<notin> set (map u [''type'', ''sequence'', ''generation'', ''gesture''] @ [])"
      using that by (elim disjE; simp add: u_eq_iff)+
    from ek show ?thesis
    proof
      assume "exactKeys fs (map u [''type'', ''sequence'', ''generation'', ''cols'', ''rows'']) []"
      from exactKeys_absent [OF this n(1)] show ?thesis .
    next
      assume "exactKeys fs (map u [''type'', ''sequence'', ''generation'', ''gesture'']) []"
      from exactKeys_absent [OF this n(2)] show ?thesis .
    qed
  qed
  have keys: "u ''bytes'' \<notin> set (map fst fs)" "u ''byteLength'' \<notin> set (map fst fs)"
    by (rule absent, simp)+
  have bt: "t \<in> set BYTE_FRAME_TYPES" using assms(4) by (auto simp: BYTE_FRAME_TYPES_def)
  from keys(1) have "map_of fs (u ''bytes'') = None" by (simp add: map_of_eq_None_iff)
  then have none: "frame_bytes fs = []" by (simp add: frame_bytes_def)
  then have "length (frame_bytes fs) \<le> nat MAX_SAFE_INTEGER" by simp
  from byte_frame_decodes [OF assms(1-3) bt keys(2) this] obtain gs where
    parse: "parseStreamFrame fc V msg = decodeDevStreamFrame V ((u ''type'', CText t) # gs @ [(u ''bytes'', CBytes [])])"
    unfolding none by blast
  have "\<not> check_type V t ((u ''type'', CText t) # gs @ [(u ''bytes'', CBytes [])])"
    using assms(4) by (elim disjE) (simp_all add: check_type_def check_control_def exactKeys_def Let_def u_eq_iff)
  then show ?thesis unfolding parse by (simp add: decodeDevStreamFrame_def frame_type_def)
qed

section \<open>Inbound validation\<close>

datatype direction = Read | Write

datatype close_code = Normal | Stale_gen | Backpressure | Incompatible

record stream_grant =
  g_direction :: direction
  g_fromSequence :: nat
  g_generation :: int
  g_maxFrameBytes :: nat

text \<open>The client frames as the validator looks at them: the sequence is the number its string
  denotes; any frame that is neither input nor \<open>ack\<close> is \<open>Server_frame\<close>.\<close>

datatype client_frame =
    Input nat int bytes
  | Gesture nat int
  | Resize nat int
  | Ack
  | Server_frame

record inbound =
  ib_closed :: bool
  ib_offsetEnd :: nat
  ib_lastEventSequence :: nat

definition createStreamInbound :: "stream_grant \<Rightarrow> inbound" where
  "createStreamInbound grant = \<lparr>ib_closed = False, ib_offsetEnd = g_fromSequence grant,
     ib_lastEventSequence = g_fromSequence grant\<rparr>"

definition reject :: "close_code \<Rightarrow> inbound \<Rightarrow> (close_code + unit) \<times> inbound" where
  "reject c st = (Inl c, st\<lparr>ib_closed := True\<rparr>)"

definition event_accept :: "nat \<Rightarrow> inbound \<Rightarrow> (close_code + unit) \<times> inbound" where
  "event_accept seq st =
     (if seq < ib_offsetEnd st \<or> seq \<le> ib_lastEventSequence st then reject Incompatible st
      else (Inr (), st\<lparr>ib_lastEventSequence := seq\<rparr>))"

definition inbound_accept :: "stream_grant \<Rightarrow> client_frame \<Rightarrow> inbound \<Rightarrow> (close_code + unit) \<times> inbound" where
  "inbound_accept grant frame st =
     (if ib_closed st then (Inl Normal, st)
      else if g_direction grant = Read then (if frame \<noteq> Ack then reject Incompatible st else (Inr (), st))
      else (case frame of
              Input seq gen bs \<Rightarrow>
                if gen \<noteq> g_generation grant then reject Stale_gen st
                else if seq \<noteq> ib_offsetEnd st then reject Incompatible st
                else let st1 = st\<lparr>ib_offsetEnd := ib_offsetEnd st + length bs\<rparr> in
                  if length bs > g_maxFrameBytes grant then reject Backpressure st1 else (Inr (), st1)
            | Gesture seq gen \<Rightarrow>
                if gen \<noteq> g_generation grant then reject Stale_gen st else event_accept seq st
            | Resize seq gen \<Rightarrow>
                if gen \<noteq> g_generation grant then reject Stale_gen st else event_accept seq st
            | Ack \<Rightarrow> reject Incompatible st
            | Server_frame \<Rightarrow> reject Incompatible st))"

definition markClosed :: "inbound \<Rightarrow> inbound" where
  "markClosed st = st\<lparr>ib_closed := True\<rparr>"

fun run_inbound :: "stream_grant \<Rightarrow> client_frame list \<Rightarrow> inbound \<Rightarrow> client_frame list \<times> inbound" where
  "run_inbound grant [] st = ([], st)"
| "run_inbound grant (f # fs) st =
     (case inbound_accept grant f st of
        (Inl _, st1) \<Rightarrow> run_inbound grant fs st1
      | (Inr _, st1) \<Rightarrow> (let (acc, st2) = run_inbound grant fs st1 in (f # acc, st2)))"

fun input_bytes :: "client_frame list \<Rightarrow> bytes" where
  "input_bytes [] = []"
| "input_bytes (Input _ _ bs # fs) = bs @ input_bytes fs"
| "input_bytes (_ # fs) = input_bytes fs"

text \<open>Accepted input chunks tile the byte stream from \<open>start\<close>; events strictly increase above
  \<open>ev\<close> and never lie behind the bytes already taken.\<close>

fun tiles :: "stream_grant \<Rightarrow> nat \<Rightarrow> nat \<Rightarrow> client_frame list \<Rightarrow> bool" where
  "tiles grant start ev [] = True"
| "tiles grant start ev (f # fs) =
     (case f of
        Input seq gen bs \<Rightarrow> seq = start \<and> gen = g_generation grant \<and> length bs \<le> g_maxFrameBytes grant
          \<and> tiles grant (start + length bs) ev fs
      | Gesture seq gen \<Rightarrow> start \<le> seq \<and> ev < seq \<and> gen = g_generation grant \<and> tiles grant start seq fs
      | Resize seq gen \<Rightarrow> start \<le> seq \<and> ev < seq \<and> gen = g_generation grant \<and> tiles grant start seq fs
      | Ack \<Rightarrow> g_direction grant = Read \<and> tiles grant start ev fs
      | Server_frame \<Rightarrow> False)"

lemma run_inbound_closed: "ib_closed st \<Longrightarrow> run_inbound grant fs st = ([], st)"
  by (induction fs) (auto simp: inbound_accept_def)

lemma run_inbound_tiles:
  "tiles grant (ib_offsetEnd st) (ib_lastEventSequence st) (fst (run_inbound grant fs st))
   \<and> (\<exists>rest. fst (run_inbound grant fs st) = take (length (fst (run_inbound grant fs st))) fs)"
proof (induction fs arbitrary: st)
  case (Cons f fs)
  obtain r st1 where a: "inbound_accept grant f st = (r, st1)" by (cases "inbound_accept grant f st")
  show ?case
  proof (cases r)
    case (Inl c)
    then have "ib_closed st1" using a
      by (auto simp: inbound_accept_def reject_def event_accept_def Let_def split: if_splits client_frame.splits)
    with a Inl show ?thesis by (simp add: run_inbound_closed)
  next
    case (Inr x)
    have IH: "tiles grant (ib_offsetEnd st1) (ib_lastEventSequence st1) (fst (run_inbound grant fs st1))"
      "fst (run_inbound grant fs st1) = take (length (fst (run_inbound grant fs st1))) fs"
      using Cons.IH [of st1] by auto
    have run: "fst (run_inbound grant (f # fs) st) = f # fst (run_inbound grant fs st1)"
      using a Inr by (simp add: case_prod_beta Let_def)
    have "tiles grant (ib_offsetEnd st) (ib_lastEventSequence st) (f # fst (run_inbound grant fs st1))"
      using a Inr IH(1)
      by (auto simp: inbound_accept_def reject_def event_accept_def Let_def split: if_splits client_frame.splits)
    with run IH(2) show ?thesis by simp
  qed
qed simp

text \<open>C14: whatever a client sends, the frames accepted on an attach are a prefix of what it sent, and
  their input chunks lie end to end from the granted sequence: no gap, no replay, no overlap; every
  accepted frame has the granted generation and size, events strictly increase.\<close>

theorem inbound_offsets_contiguous:
  "tiles grant (g_fromSequence grant) (g_fromSequence grant) (fst (run_inbound grant fs (createStreamInbound grant)))
   \<and> fst (run_inbound grant fs (createStreamInbound grant))
      = take (length (fst (run_inbound grant fs (createStreamInbound grant)))) fs"
  using run_inbound_tiles [of grant "createStreamInbound grant" fs] by (simp add: createStreamInbound_def)

section \<open>Witnesses\<close>

definition permissive :: frame_checks where
  "permissive = \<lparr>ok_protocol = (\<lambda>_. True), ok_timestamp = (\<lambda>_. True), ok_gesture = (\<lambda>_. True),
     ok_error = (\<lambda>_. True), ok_video = (\<lambda>_. True)\<rparr>"

definition sample_ack :: fields where
  "sample_ack = [(u ''type'', CText (u ''ack'')), (u ''throughSequence'', CText (u ''10'')),
     (u ''availableCreditBytes'', CInt 512)]"

definition sample_input :: fields where
  "sample_input = [(u ''type'', CText (u ''input'')), (u ''sequence'', CText (u ''10'')),
     (u ''generation'', CInt 3), (u ''bytes'', CBytes [1, 2])]"

definition sample_resize :: fields where
  "sample_resize = [(u ''type'', CText (u ''resize'')), (u ''sequence'', CText (u ''10'')),
     (u ''generation'', CInt 3), (u ''cols'', CInt 80), (u ''rows'', CInt 24)]"

definition sample_gesture :: fields where
  "sample_gesture = [(u ''type'', CText (u ''gesture'')), (u ''sequence'', CText (u ''10'')), (u ''generation'', CInt 3),
     (u ''gesture'', CObj [(u ''kind'', CText (u ''tap'')), (u ''x'', CInt 10), (u ''y'', CInt 20)])]"

lemmas sample_defs = sample_ack_def sample_input_def sample_resize_def sample_gesture_def

lemma length_utf8_cp: "length (utf8_cp c) \<le> 4"
  by (simp add: utf8_cp_def)

lemma length_text_encode: "length (text_encode s) \<le> 4 * length s"
proof -
  have "length (code_points s) \<le> length s" by (induction s rule: code_points.induct) auto
  moreover have "length (concat (map utf8_cp cs)) \<le> 4 * length cs" for cs
    by (induction cs) (use length_utf8_cp in \<open>auto intro: add_mono\<close>)
  ultimately show ?thesis unfolding text_encode_def by (meson le_trans mult_le_mono2)
qed

lemma text_ok_u: "length s < 2 ^ 60 \<Longrightarrow> text_ok (u s)"
proof -
  assume "length s < 2 ^ 60"
  then have len: "length (text_encode (u s)) < 2 ^ 64"
    using length_text_encode [of "u s"] by (simp add: u_def)
  have small: "k < 256" if "k \<in> set (u s)" for k using that by (auto simp: u_def)
  then have "\<not> bad_at (u s) i" if "i < length (u s)" for i
    using nth_mem [OF that] by (fastforce simp: bad_at_def is_high_def is_low_def)
  then have "\<not> ill_formed (u s)" by (auto simp: ill_formed_def list_ex_iff)
  moreover have "u s = [] \<or> hd (u s) \<noteq> 0xFEFF" using small [of "hd (u s)"] by (cases "u s") auto
  moreover have "list_all unit_ok (u s)" using small by (fastforce simp: list_all_iff unit_ok_def)
  ultimately show ?thesis using len by (simp add: text_ok_def well_formed_def)
qed

lemma samples_flat: "flat_ok sample_ack" "flat_ok sample_input" "frame_ok sample_resize" "frame_ok sample_gesture"
  by (simp_all add: flat_ok_def frame_ok_def sample_defs text_ok_u u_eq_iff is_safe_int_def MAX_SAFE_INTEGER_def)

lemma samples_valid:
  "decodeDevStreamFrame permissive sample_ack = Some sample_ack"
  "decodeDevStreamFrame permissive sample_input = Some sample_input"
  "decodeDevStreamFrame permissive sample_resize = Some sample_resize"
  "decodeDevStreamFrame permissive sample_gesture = Some sample_gesture"
  by (simp_all add: decodeDevStreamFrame_def frame_type_def sample_defs check_type_def check_control_def exactKeys_def u_eq_iff
      uint64String_def integerValue_def bytesValue_def is_safe_int_def MAX_SAFE_INTEGER_def Let_def)
    (simp_all add: u_def digit_unit_def units_value_def checked_def permissive_def)

lemma small_object_encodes:
  assumes "json_shaped (CObj fs)" and "frame_ok fs" and "byte_length fc (CObj fs) \<le> STREAM_CONTROL_MAX_BYTES"
  shows "\<exists>bs. encodeCbor fc (CObj fs) = Some bs \<and> \<not> length bs > STREAM_CONTROL_MAX_BYTES"
proof -
  have "wire_ok (CObj fs)" using assms(2) by (auto simp: frame_ok_def)
  then have "encodable (CObj fs)" by (rule wire_ok_encodable)
  then have "encodeCbor fc (CObj fs) = Some (encode fc (CObj fs))" unfolding encodeCbor_def by (rule if_P)
  then show ?thesis using assms(3) byte_length_encode [OF assms(1), of fc] by auto
qed

definition sample_body :: "fields \<Rightarrow> fields" where
  "sample_body fs = (if frame_type fs = Some (u ''ack'') then without [u ''type''] fs
     else obj_put (u ''byteLength'', CInt (int (length (frame_bytes fs)))) (without [u ''type'', u ''bytes''] fs))"

lemma sample_bodies:
  "sample_body sample_ack = [(u ''throughSequence'', CText (u ''10'')), (u ''availableCreditBytes'', CInt 512)]"
  "sample_body sample_input = [(u ''sequence'', CText (u ''10'')), (u ''generation'', CInt 3), (u ''byteLength'', CInt 2)]"
  "sample_body sample_resize = [(u ''sequence'', CText (u ''10'')), (u ''generation'', CInt 3),
     (u ''cols'', CInt 80), (u ''rows'', CInt 24), (u ''byteLength'', CInt 0)]"
  "sample_body sample_gesture = [(u ''sequence'', CText (u ''10'')), (u ''generation'', CInt 3),
     (u ''gesture'', CObj [(u ''kind'', CText (u ''tap'')), (u ''x'', CInt 10), (u ''y'', CInt 20)]), (u ''byteLength'', CInt 0)]"
  by (simp_all add: sample_body_def sample_defs frame_type_def without_def obj_put_def frame_bytes_def u_eq_iff)

lemma sample_bodies_encode:
  assumes "fs \<in> {sample_ack, sample_input, sample_resize, sample_gesture}"
  shows "\<exists>bs. encodeCbor exact_conv (CObj (sample_body fs)) = Some bs \<and> \<not> length bs > STREAM_CONTROL_MAX_BYTES"
proof (rule small_object_encodes)
  show "json_shaped (CObj (sample_body fs))" using assms by (auto simp: sample_bodies)
  show "frame_ok (sample_body fs)" using assms
    by (auto simp: sample_bodies frame_ok_def text_ok_u u_eq_iff is_safe_int_def MAX_SAFE_INTEGER_def)
  show "byte_length exact_conv (CObj (sample_body fs)) \<le> STREAM_CONTROL_MAX_BYTES" using assms
    by (auto simp: sample_bodies head_length_def u_def text_encode_def utf8_cp_def is_high_def STREAM_CONTROL_MAX_BYTES_def)
qed

lemma samples_encode:
  "encodeStreamFrame exact_conv permissive sample_ack \<noteq> None"
  "encodeStreamFrame exact_conv permissive sample_input \<noteq> None"
  "encodeStreamFrame exact_conv permissive sample_resize \<noteq> None"
  "encodeStreamFrame exact_conv permissive sample_gesture \<noteq> None"
proof -
  have "frame_type sample_ack = Some (u ''ack'')" "frame_type sample_input = Some (u ''input'')"
    "frame_type sample_resize = Some (u ''resize'')" "frame_type sample_gesture = Some (u ''gesture'')"
    by (simp_all add: sample_defs frame_type_def u_eq_iff)
  then have "encodeStreamFrame exact_conv permissive fs \<noteq> None" if "fs \<in> {sample_ack, sample_input, sample_resize, sample_gesture}" for fs
    using that sample_bodies_encode [OF that]
    by (auto simp: encodeStreamFrame_def samples_valid sample_body_def BYTE_FRAME_TYPES_def u_eq_iff Let_def)
  then show "encodeStreamFrame exact_conv permissive sample_ack \<noteq> None"
    "encodeStreamFrame exact_conv permissive sample_input \<noteq> None"
    "encodeStreamFrame exact_conv permissive sample_resize \<noteq> None"
    "encodeStreamFrame exact_conv permissive sample_gesture \<noteq> None" by blast+
qed

theorem control_frame_round_trip_witness:
  "\<exists>msg fs'. encodeStreamFrame exact_conv permissive sample_ack = Some msg
     \<and> parseStreamFrame exact_conv permissive msg = Some fs' \<and> map_of fs' = map_of sample_ack"
proof -
  obtain msg where m: "encodeStreamFrame exact_conv permissive sample_ack = Some msg" using samples_encode(1) by blast
  have "\<exists>fs'. parseStreamFrame exact_conv permissive msg = Some fs' \<and> map_of fs' = map_of sample_ack"
    by (rule control_frame_round_trip [OF m samples_flat(1), of "u ''ack''"])
      (simp_all add: sample_ack_def frame_type_def BYTE_FRAME_TYPES_def u_eq_iff)
  with m show ?thesis by blast
qed

theorem byte_frame_round_trip_witness:
  "\<exists>msg fs'. encodeStreamFrame exact_conv permissive sample_input = Some msg
     \<and> parseStreamFrame exact_conv permissive msg = Some fs' \<and> map_of fs' = map_of sample_input"
proof -
  obtain msg where m: "encodeStreamFrame exact_conv permissive sample_input = Some msg" using samples_encode(2) by blast
  have "\<exists>fs'. parseStreamFrame exact_conv permissive msg = Some fs' \<and> map_of fs' = map_of sample_input"
    by (rule byte_frame_round_trip [OF m samples_flat(2), of "u ''input''" "[1, 2]"])
      (simp_all add: sample_input_def frame_type_def BYTE_FRAME_TYPES_def u_eq_iff MAX_SAFE_INTEGER_def)
  with m show ?thesis by blast
qed

theorem resize_and_gesture_never_parse_witness:
  "(\<exists>msg. encodeStreamFrame exact_conv permissive sample_resize = Some msg \<and> parseStreamFrame exact_conv permissive msg = None)
   \<and> (\<exists>msg. encodeStreamFrame exact_conv permissive sample_gesture = Some msg \<and> parseStreamFrame exact_conv permissive msg = None)"
proof -
  obtain m1 m2 where m: "encodeStreamFrame exact_conv permissive sample_resize = Some m1" "encodeStreamFrame exact_conv permissive sample_gesture = Some m2"
    using samples_encode(3,4) by blast
  have "frame_type sample_resize = Some (u ''resize'')" "frame_type sample_gesture = Some (u ''gesture'')"
    by (simp_all add: sample_defs frame_type_def u_eq_iff)
  with resize_and_gesture_never_parse [OF m(1) samples_flat(3)] resize_and_gesture_never_parse [OF m(2) samples_flat(4)] m
  show ?thesis by simp
qed

end
