(* ===== verification/Retention_Policy.thy ===== *)
theory Retention_Policy
  imports Json
begin

text \<open>
  The retention and trusted-cleanup gate (\<^verbatim>\<open>packages/db/src/retention-policy.ts\<close>): the coverage rule of
  each data category, the parsers of periods, candidates, receipts and executor inventories, and
  \<open>evaluateRetentionDeletion\<close>, which decides whether a subject may be deleted and whether its deletion
  is proved complete. Unchecked inputs are \<open>jsval\<close>s. \<open>Date.parse\<close>, whose treatment of out-of-range
  days differs between engines, is the argument \<open>dp\<close>; \<open>None\<close> is its \<open>NaN\<close>. The sums of a timestamp
  and a period stay far below \<open>2 ^ 53\<close>, so they are exact.
\<close>

section \<open>Categories and rules\<close>

record retention_rule =
  requiredCoverage :: "string list"
  eventualBackupExpiry :: bool

definition RETENTION_CATEGORIES :: "string list" where
  "RETENTION_CATEGORIES = [''messages'', ''contexts'', ''native_transcripts'', ''receipts'', ''artifacts'',
     ''memory'', ''logs'', ''backups'']"

definition CLEANUP_COVERAGE_KINDS :: "string list" where
  "CLEANUP_COVERAGE_KINDS = [''primary'', ''runtime_state'', ''index'', ''cache'', ''object_version'', ''replica'']"

definition RETENTION_COVERAGE_RULES :: "(string \<times> retention_rule) list" where
  "RETENTION_COVERAGE_RULES =
    [(''messages'', \<lparr>requiredCoverage = [''primary'', ''index'', ''cache'', ''replica''], eventualBackupExpiry = False\<rparr>),
     (''contexts'', \<lparr>requiredCoverage = [''primary'', ''runtime_state'', ''cache''], eventualBackupExpiry = False\<rparr>),
     (''native_transcripts'', \<lparr>requiredCoverage = [''runtime_state'', ''cache''], eventualBackupExpiry = False\<rparr>),
     (''receipts'', \<lparr>requiredCoverage = [''primary'', ''index''], eventualBackupExpiry = False\<rparr>),
     (''artifacts'', \<lparr>requiredCoverage = [''primary'', ''object_version'', ''cache'', ''replica''], eventualBackupExpiry = False\<rparr>),
     (''memory'', \<lparr>requiredCoverage = [''primary'', ''index'', ''cache''], eventualBackupExpiry = False\<rparr>),
     (''logs'', \<lparr>requiredCoverage = [''primary'', ''index''], eventualBackupExpiry = False\<rparr>),
     (''backups'', \<lparr>requiredCoverage = [], eventualBackupExpiry = True\<rparr>)]"

datatype retention_error =
  Future_receipt | Invalid_periods | Invalid_candidate | Invalid_receipt | Invalid_input | Untrusted_executor

definition retentionCategoryRule :: "string \<Rightarrow> retention_error + retention_rule" where
  "retentionCategoryRule category =
     (case map_of RETENTION_COVERAGE_RULES category of None \<Rightarrow> Inl Invalid_candidate | Some rule \<Rightarrow> Inr rule)"

definition MAX_RETENTION_PERIOD_DAYS :: int where "MAX_RETENTION_PERIOD_DAYS = 36500"

definition DAY_MS :: int where "DAY_MS = 86400000"

section \<open>Scalar checks\<close>

definition is_alnum :: "char \<Rightarrow> bool" where
  "is_alnum c \<longleftrightarrow> is_digit c \<or> (65::nat) \<le> of_char c \<and> of_char c \<le> (90::nat)
     \<or> (97::nat) \<le> of_char c \<and> of_char c \<le> (122::nat)"

definition OPAQUE_ID :: "string \<Rightarrow> bool" where
  "OPAQUE_ID s = (case s of
      [] \<Rightarrow> False
    | c # r \<Rightarrow> is_alnum c \<and> length r \<le> 127 \<and> list_all (\<lambda>d. is_alnum d \<or> d \<in> set ''._:-'') r)"

definition TIMESTAMP :: "string \<Rightarrow> bool" where
  "TIMESTAMP s \<longleftrightarrow> length s \<ge> 20
     \<and> list_all (\<lambda>(p, c). if p = CHR ''0'' then is_digit c else c = p) (zip ''0000-00-00T00:00:00'' s)
     \<and> (let r = drop 19 s in r = ''Z''
          \<or> hd r = CHR ''.'' \<and> last r = CHR ''Z'' \<and> 3 \<le> length r \<and> length r \<le> 5
            \<and> list_all is_digit (butlast (tl r)))"

type_synonym date_parse = "string \<Rightarrow> int option"

definition isPeriodDays :: "jsval \<Rightarrow> bool" where
  "isPeriodDays v \<longleftrightarrow> is_safe_integer v \<and> 1 \<le> int_of_jsval v \<and> int_of_jsval v \<le> MAX_RETENTION_PERIOD_DAYS"

definition timestampMs :: "date_parse \<Rightarrow> jsval \<Rightarrow> retention_error \<Rightarrow> retention_error + int" where
  "timestampMs dp v code =
     (case v of JStr s \<Rightarrow> if TIMESTAMP s then (case dp s of None \<Rightarrow> Inl code | Some ms \<Rightarrow> Inr ms) else Inl code
      | _ \<Rightarrow> Inl code)"

definition opaqueId :: "jsval \<Rightarrow> retention_error \<Rightarrow> retention_error + string" where
  "opaqueId v code = (case v of JStr s \<Rightarrow> if OPAQUE_ID s then Inr s else Inl code | _ \<Rightarrow> Inl code)"

definition count_value :: "jsval \<Rightarrow> retention_error \<Rightarrow> retention_error + int" where
  "count_value v code = (if is_safe_integer v \<and> 0 \<le> int_of_jsval v then Inr (int_of_jsval v) else Inl code)"

text \<open>Properties of a value that need not be an object: an array has none of the names read here.\<close>

definition props_of :: "jsval \<Rightarrow> retention_error \<Rightarrow> retention_error + (string \<times> jsval) list" where
  "props_of v code = (case v of JObj o1 \<Rightarrow> Inr o1 | JArr _ \<Rightarrow> Inr [] | _ \<Rightarrow> Inl code)"

definition parse_period :: "(string \<times> jsval) list \<Rightarrow> string \<Rightarrow> retention_error + (string \<times> int option)" where
  "parse_period o1 category =
     (let period = obj_get o1 category in
      if period = JNull then Inr (category, None)
      else if isPeriodDays period then Inr (category, Some (int_of_jsval period))
      else Inl Invalid_periods)"

definition parseRetentionPeriods :: "jsval \<Rightarrow> retention_error + (string \<times> int option) list" where
  "parseRetentionPeriods v =
     (case v of
        JObj o1 \<Rightarrow>
          if length (obj_keys o1) \<noteq> length RETENTION_CATEGORIES \<or> \<not> list_all (has_own o1) RETENTION_CATEGORIES
          then Inl Invalid_periods else rmap (parse_period o1) RETENTION_CATEGORIES
      | _ \<Rightarrow> Inl Invalid_periods)"

section \<open>Candidates, executors, receipts\<close>

record retention_hold =
  hold_id :: string
  hold_releasedAt :: "string option"

record retention_authorization =
  auth_id :: string
  auth_grantedAt :: string
  auth_expiresAt :: string
  auth_revokedAt :: "string option"

record retention_candidate =
  cand_category :: string
  cand_subjectId :: string
  cand_anchorAt :: string
  cand_holds :: "retention_hold list"
  cand_activeReferenceCount :: int
  cand_reconciliationOpen :: bool
  cand_authorization :: retention_authorization

record trusted_executor =
  ex_authorizedFrom :: string
  ex_authorizedUntil :: "string option"
  ex_revokedAt :: "string option"

datatype receipt_operation = Delete | Read_check

datatype receipt_outcome = Completed | In_progress | Unreachable | Failed

record cleanup_receipt =
  rc_category :: string
  rc_requestId :: string
  rc_subjectId :: string
  rc_coverage :: string
  rc_operation :: receipt_operation
  rc_outcome :: receipt_outcome
  rc_residualCount :: int
  rc_executorId :: string
  rc_observedAt :: string

definition RECEIPT_OPERATIONS :: "(string \<times> receipt_operation) list" where
  "RECEIPT_OPERATIONS = [(''delete'', Delete), (''read_check'', Read_check)]"

definition RECEIPT_OUTCOMES :: "(string \<times> receipt_outcome) list" where
  "RECEIPT_OUTCOMES = [(''completed'', Completed), (''in_progress'', In_progress), (''unreachable'', Unreachable),
     (''failed'', Failed)]"

fun outcome_name :: "receipt_outcome \<Rightarrow> string" where
  "outcome_name Completed = ''completed''"
| "outcome_name In_progress = ''in_progress''"
| "outcome_name Unreachable = ''unreachable''"
| "outcome_name Failed = ''failed''"

text \<open>\<open>RECEIPT_OPERATIONS.includes(value)\<close> and its like: the literal a string denotes, if any.\<close>

definition literal_of :: "(string \<times> 'a) list \<Rightarrow> jsval \<Rightarrow> 'a option" where
  "literal_of table v = (case v of JStr s \<Rightarrow> map_of table s | _ \<Rightarrow> None)"

definition name_in :: "string list \<Rightarrow> jsval \<Rightarrow> bool" where
  "name_in names v = (case v of JStr s \<Rightarrow> s \<in> set names | _ \<Rightarrow> False)"

definition parseReceipt :: "date_parse \<Rightarrow> jsval \<Rightarrow> retention_error + cleanup_receipt" where
  "parseReceipt dp v =
     rbind (props_of v Invalid_receipt) (\<lambda>o1.
       case (literal_of RECEIPT_OPERATIONS (obj_get o1 ''operation''), literal_of RECEIPT_OUTCOMES (obj_get o1 ''outcome'')) of
         (Some operation, Some outcome) \<Rightarrow>
           rbind (require (name_in CLEANUP_COVERAGE_KINDS (obj_get o1 ''coverage'')) Invalid_receipt) (\<lambda>_.
           rbind (timestampMs dp (obj_get o1 ''observedAt'') Invalid_receipt) (\<lambda>_.
           rbind (require (name_in RETENTION_CATEGORIES (obj_get o1 ''category'')) Invalid_receipt) (\<lambda>_.
           rbind (opaqueId (obj_get o1 ''requestId'') Invalid_receipt) (\<lambda>requestId.
           rbind (opaqueId (obj_get o1 ''subjectId'') Invalid_receipt) (\<lambda>subjectId.
           rbind (count_value (obj_get o1 ''residualCount'') Invalid_receipt) (\<lambda>residual.
           rbind (opaqueId (obj_get o1 ''executorId'') Invalid_receipt) (\<lambda>executorId.
             Inr \<lparr>rc_category = string_of_jsval (obj_get o1 ''category''), rc_requestId = requestId,
               rc_subjectId = subjectId, rc_coverage = string_of_jsval (obj_get o1 ''coverage''),
               rc_operation = operation, rc_outcome = outcome, rc_residualCount = residual,
               rc_executorId = executorId, rc_observedAt = string_of_jsval (obj_get o1 ''observedAt'')\<rparr>)))))))
       | _ \<Rightarrow> Inl Invalid_receipt)"

text \<open>Comparisons of \<open>Date.parse\<close> results; a comparison with \<open>NaN\<close> is false.\<close>

definition at_most :: "int option \<Rightarrow> int \<Rightarrow> bool" where
  "at_most a b = (case a of None \<Rightarrow> False | Some x \<Rightarrow> x \<le> b)"

definition after :: "int option \<Rightarrow> int \<Rightarrow> bool" where
  "after a b = (case a of None \<Rightarrow> False | Some x \<Rightarrow> b < x)"

definition null_or :: "('a \<Rightarrow> bool) \<Rightarrow> 'a option \<Rightarrow> bool" where
  "null_or P v = (case v of None \<Rightarrow> True | Some x \<Rightarrow> P x)"

definition executorIsCurrent :: "date_parse \<Rightarrow> trusted_executor \<Rightarrow> int \<Rightarrow> bool" where
  "executorIsCurrent dp ex nowMs \<longleftrightarrow> at_most (dp (ex_authorizedFrom ex)) nowMs
     \<and> null_or (\<lambda>t. after (dp t) nowMs) (ex_authorizedUntil ex)
     \<and> null_or (\<lambda>t. after (dp t) nowMs) (ex_revokedAt ex)"

definition executorAuthorizedAt :: "date_parse \<Rightarrow> trusted_executor \<Rightarrow> int \<Rightarrow> bool" where
  "executorAuthorizedAt dp ex observedMs \<longleftrightarrow> at_most (dp (ex_authorizedFrom ex)) observedMs
     \<and> null_or (\<lambda>t. after (dp t) observedMs) (ex_authorizedUntil ex)"

text \<open>The instant of a parsed receipt: \<open>parseReceipt\<close> has established that \<open>Date.parse\<close> returns one.\<close>

definition observed :: "date_parse \<Rightarrow> cleanup_receipt \<Rightarrow> int" where
  "observed dp r = (case dp (rc_observedAt r) of None \<Rightarrow> 0 | Some ms \<Rightarrow> ms)"

type_synonym executors = "(string \<times> trusted_executor) list"

definition receiptIsTrusted :: "date_parse \<Rightarrow> cleanup_receipt \<Rightarrow> executors \<Rightarrow> int \<Rightarrow> bool" where
  "receiptIsTrusted dp r exs nowMs =
     (case map_of exs (rc_executorId r) of
        None \<Rightarrow> False
      | Some ex \<Rightarrow> executorIsCurrent dp ex nowMs \<and> executorAuthorizedAt dp ex (observed dp r))"

definition recordCleanupReceipt :: "date_parse \<Rightarrow> jsval \<Rightarrow> executors \<Rightarrow> jsval \<Rightarrow> retention_error + cleanup_receipt" where
  "recordCleanupReceipt dp v exs now =
     rbind (parseReceipt dp v) (\<lambda>receipt.
     rbind (timestampMs dp now Invalid_candidate) (\<lambda>nowMs.
       if observed dp receipt > nowMs then Inl Future_receipt
       else if \<not> receiptIsTrusted dp receipt exs nowMs then Inl Untrusted_executor
       else Inr receipt))"

definition observedWithinRequest :: "date_parse \<Rightarrow> cleanup_receipt \<Rightarrow> retention_authorization \<Rightarrow> int \<Rightarrow> bool" where
  "observedWithinRequest dp r auth nowMs \<longleftrightarrow>
     at_most (dp (auth_grantedAt auth)) (observed dp r) \<and> observed dp r \<le> nowMs"

section \<open>Inventory and candidate parsing\<close>

record parsed_inventory =
  inv_complete :: bool
  inv_executors :: "(string \<times> string list) list"

definition inv_get :: "(string \<times> string list) list \<Rightarrow> string \<Rightarrow> string list" where
  "inv_get m coverage = (case map_of m coverage of None \<Rightarrow> [] | Some ids \<Rightarrow> ids)"

definition parse_inventory_entry :: "string list \<Rightarrow> string \<times> jsval \<Rightarrow> retention_error + (string \<times> string list)" where
  "parse_inventory_entry allowed kv =
     (case snd kv of
        JArr raw \<Rightarrow>
          if fst kv \<notin> set allowed then Inl Invalid_candidate
          else rbind (rmap (\<lambda>e. opaqueId e Invalid_candidate) raw) (\<lambda>ids.
            if distinct ids then Inr (fst kv, ids) else Inl Invalid_candidate)
      | _ \<Rightarrow> Inl Invalid_candidate)"

definition parseRetentionCoverageInventory :: "jsval \<Rightarrow> string \<Rightarrow> retention_error + parsed_inventory" where
  "parseRetentionCoverageInventory v category =
     rbind (retentionCategoryRule category) (\<lambda>rule.
       let required = requiredCoverage rule in
       case v of
         JUndef \<Rightarrow> Inr \<lparr>inv_complete = (length required = 0), inv_executors = []\<rparr>
       | JObj o1 \<Rightarrow>
           rbind (rmap (parse_inventory_entry required) o1) (\<lambda>entries.
             Inr \<lparr>inv_complete = list_all (\<lambda>c. length (inv_get (rev entries) c) > 0) required,
               inv_executors = rev entries\<rparr>)
       | _ \<Rightarrow> Inl Invalid_candidate)"

definition opt_timestamp :: "date_parse \<Rightarrow> jsval \<Rightarrow> retention_error + string option" where
  "opt_timestamp dp v =
     (if v = JNull then Inr None
      else rbind (timestampMs dp v Invalid_candidate) (\<lambda>_. Inr (Some (string_of_jsval v))))"

definition parse_hold :: "date_parse \<Rightarrow> jsval \<Rightarrow> retention_error + retention_hold" where
  "parse_hold dp v =
     rbind (props_of v Invalid_candidate) (\<lambda>h.
     rbind (opaqueId (obj_get h ''id'') Invalid_candidate) (\<lambda>i.
     rbind (opt_timestamp dp (obj_get h ''releasedAt'')) (\<lambda>released.
       Inr \<lparr>hold_id = i, hold_releasedAt = released\<rparr>)))"

definition parse_authorization :: "date_parse \<Rightarrow> jsval \<Rightarrow> retention_error + retention_authorization" where
  "parse_authorization dp v =
     rbind (props_of v Invalid_candidate) (\<lambda>a.
     rbind (opaqueId (obj_get a ''id'') Invalid_candidate) (\<lambda>i.
     rbind (timestampMs dp (obj_get a ''grantedAt'') Invalid_candidate) (\<lambda>_.
     rbind (timestampMs dp (obj_get a ''expiresAt'') Invalid_candidate) (\<lambda>_.
     rbind (opt_timestamp dp (obj_get a ''revokedAt'')) (\<lambda>revoked.
       Inr \<lparr>auth_id = i, auth_grantedAt = string_of_jsval (obj_get a ''grantedAt''),
         auth_expiresAt = string_of_jsval (obj_get a ''expiresAt''), auth_revokedAt = revoked\<rparr>)))))"

definition parseCandidate :: "date_parse \<Rightarrow> jsval \<Rightarrow> retention_error + retention_candidate" where
  "parseCandidate dp v =
     rbind (props_of v Invalid_candidate) (\<lambda>o1.
     rbind (require (name_in RETENTION_CATEGORIES (obj_get o1 ''category'')) Invalid_candidate) (\<lambda>_.
     rbind (opaqueId (obj_get o1 ''subjectId'') Invalid_candidate) (\<lambda>subjectId.
     rbind (timestampMs dp (obj_get o1 ''anchorAt'') Invalid_candidate) (\<lambda>_.
     rbind (count_value (obj_get o1 ''activeReferenceCount'') Invalid_candidate) (\<lambda>references.
       case (obj_get o1 ''reconciliationOpen'', obj_get o1 ''holds'') of
         (JBool reconciliationOpen, JArr raw_holds) \<Rightarrow>
           rbind (rmap (parse_hold dp) raw_holds) (\<lambda>holds.
           rbind (parse_authorization dp (obj_get o1 ''authorization'')) (\<lambda>auth.
             Inr \<lparr>cand_category = string_of_jsval (obj_get o1 ''category''), cand_subjectId = subjectId,
               cand_anchorAt = string_of_jsval (obj_get o1 ''anchorAt''), cand_holds = holds,
               cand_activeReferenceCount = references, cand_reconciliationOpen = reconciliationOpen,
               cand_authorization = auth\<rparr>))
       | _ \<Rightarrow> Inl Invalid_candidate)))))"

section \<open>Coverage and decision\<close>

definition holdIsActive :: "date_parse \<Rightarrow> retention_hold \<Rightarrow> int \<Rightarrow> bool" where
  "holdIsActive dp h nowMs \<longleftrightarrow> null_or (\<lambda>t. after (dp t) nowMs) (hold_releasedAt h)"

definition authorizationIsCurrent :: "date_parse \<Rightarrow> retention_authorization \<Rightarrow> int \<Rightarrow> bool" where
  "authorizationIsCurrent dp a nowMs \<longleftrightarrow> at_most (dp (auth_grantedAt a)) nowMs
     \<and> after (dp (auth_expiresAt a)) nowMs \<and> null_or (\<lambda>t. after (dp t) nowMs) (auth_revokedAt a)"

datatype blocker_reason =
  Executor_unreachable | Cleanup_in_progress | Cleanup_failed | Coverage_incomplete | Ambiguous_order

datatype retention_blocker = Coverage_blocker string blocker_reason | Backup_expiry

datatype refusal_reason =
    Policy_unset | Hold_active | Retention_period_running | Active_reference_retained
  | Reconciliation_open | Authorization_not_current | Cleanup_failed_refusal

datatype retention_decision =
    Refused refusal_reason
  | Pending "retention_blocker list"
  | Cleanup_ready
  | Verified_complete "string list"

datatype coverage_state = Verified | Blocked "retention_blocker list"

definition blockedCoverage :: "string \<Rightarrow> blocker_reason \<Rightarrow> coverage_state" where
  "blockedCoverage coverage reason = Blocked [Coverage_blocker coverage reason]"

definition stateForOutcome :: "receipt_outcome \<Rightarrow> string \<Rightarrow> coverage_state" where
  "stateForOutcome outcome coverage =
     (if outcome = In_progress then blockedCoverage coverage Cleanup_in_progress
      else if outcome = Failed then blockedCoverage coverage Cleanup_failed
      else blockedCoverage coverage Executor_unreachable)"

datatype latest = Absent | Ambiguous | Latest cleanup_receipt

definition receipt_for :: "string \<Rightarrow> receipt_operation \<Rightarrow> string \<Rightarrow> cleanup_receipt \<Rightarrow> bool" where
  "receipt_for coverage operation executorId r \<longleftrightarrow>
     rc_coverage r = coverage \<and> rc_operation r = operation \<and> rc_executorId r = executorId"

definition result_text :: "cleanup_receipt \<Rightarrow> string" where
  "result_text r = outcome_name (rc_outcome r) @ '':'' @ show_int (rc_residualCount r)"

definition latestFor :: "date_parse \<Rightarrow> cleanup_receipt list \<Rightarrow> string \<Rightarrow> receipt_operation \<Rightarrow> string \<Rightarrow> latest" where
  "latestFor dp receipts coverage operation executorId =
     (let matching = filter (receipt_for coverage operation executorId) receipts in
      if length matching = 0 then Absent
      else let newest = Max (set (map (observed dp) matching));
               atNewest = filter (\<lambda>r. observed dp r = newest) matching in
        if card (set (map result_text atNewest)) > 1 then Ambiguous else Latest (hd atNewest))"

definition executor_state :: "date_parse \<Rightarrow> string \<Rightarrow> cleanup_receipt list \<Rightarrow> string \<Rightarrow> coverage_state" where
  "executor_state dp coverage receipts executorId =
     (case latestFor dp receipts coverage Delete executorId of
        Ambiguous \<Rightarrow> blockedCoverage coverage Ambiguous_order
      | Absent \<Rightarrow> blockedCoverage coverage Coverage_incomplete
      | Latest deletion \<Rightarrow>
          if rc_outcome deletion \<noteq> Completed then stateForOutcome (rc_outcome deletion) coverage
          else (case latestFor dp receipts coverage Read_check executorId of
                  Ambiguous \<Rightarrow> blockedCoverage coverage Ambiguous_order
                | Absent \<Rightarrow> blockedCoverage coverage Coverage_incomplete
                | Latest rd \<Rightarrow>
                    if observed dp rd \<le> observed dp deletion then blockedCoverage coverage Coverage_incomplete
                    else if rc_outcome rd \<noteq> Completed then stateForOutcome (rc_outcome rd) coverage
                    else if rc_residualCount rd > 0 then stateForOutcome Failed coverage
                    else Verified))"

definition blockers_of :: "coverage_state \<Rightarrow> retention_blocker list" where
  "blockers_of s = (case s of Verified \<Rightarrow> [] | Blocked bs \<Rightarrow> bs)"

text \<open>The blockers of one coverage differ only in their reason, the key under which the code
  collects them: the first of each reason is kept, in order.\<close>

definition coverageState :: "date_parse \<Rightarrow> string \<Rightarrow> cleanup_receipt list \<Rightarrow> string list \<Rightarrow> coverage_state" where
  "coverageState dp coverage receipts executorIds =
     (if length executorIds = 0 then blockedCoverage coverage Coverage_incomplete
      else let blockers = js_dedupe [] (concat (map (\<lambda>e. blockers_of (executor_state dp coverage receipts e)) executorIds)) in
        if length blockers > 0 then Blocked blockers else Verified)"

record retention_input =
  ri_candidate :: jsval
  ri_periods :: jsval
  ri_receipts :: jsval
  ri_trustedExecutors :: "executors option"  \<comment> \<open>\<open>None\<close>: not a \<open>Map\<close>\<close>
  ri_coverageInventory :: jsval
  ri_now :: jsval

definition refusal_of :: "date_parse \<Rightarrow> retention_candidate \<Rightarrow> int \<Rightarrow> int \<Rightarrow> int \<Rightarrow> refusal_reason option" where
  "refusal_of dp c nowMs anchorMs period =
     (if list_ex (\<lambda>h. holdIsActive dp h nowMs) (cand_holds c) then Some Hold_active
      else if nowMs < anchorMs + period * DAY_MS then Some Retention_period_running
      else if cand_activeReferenceCount c > 0 then Some Active_reference_retained
      else if cand_reconciliationOpen c then Some Reconciliation_open
      else if \<not> authorizationIsCurrent dp (cand_authorization c) nowMs then Some Authorization_not_current
      else None)"

definition counts_for :: "date_parse \<Rightarrow> retention_candidate \<Rightarrow> executors \<Rightarrow> int \<Rightarrow> cleanup_receipt \<Rightarrow> bool" where
  "counts_for dp c exs nowMs r \<longleftrightarrow> rc_subjectId r = cand_subjectId c \<and> rc_category r = cand_category c
     \<and> rc_requestId r = auth_id (cand_authorization c)
     \<and> observedWithinRequest dp r (cand_authorization c) nowMs \<and> receiptIsTrusted dp r exs nowMs"

definition decide_coverage ::
  "date_parse \<Rightarrow> retention_candidate \<Rightarrow> executors \<Rightarrow> int \<Rightarrow> jsval \<Rightarrow> jsval list \<Rightarrow> retention_error + retention_decision" where
  "decide_coverage dp c exs nowMs raw_inventory raw_receipts =
     rbind (retentionCategoryRule (cand_category c)) (\<lambda>rule.
       if eventualBackupExpiry rule then Inr (Pending [Backup_expiry])
       else rbind (parseRetentionCoverageInventory raw_inventory (cand_category c)) (\<lambda>inventory.
         if \<not> inv_complete inventory
         then Inr (Pending (map (\<lambda>k. Coverage_blocker k Coverage_incomplete)
                (filter (\<lambda>k. length (inv_get (inv_executors inventory) k) = 0) (requiredCoverage rule))))
         else rbind (rmap (parseReceipt dp) raw_receipts) (\<lambda>parsed.
           let receipts = filter (counts_for dp c exs nowMs) parsed in
           if length receipts = 0 then Inr Cleanup_ready
           else let blockers = concat (map (\<lambda>k. blockers_of
                      (coverageState dp k receipts (inv_get (inv_executors inventory) k))) (requiredCoverage rule)) in
             if length blockers > 0 then Inr (Pending blockers)
             else Inr (Verified_complete (requiredCoverage rule)))))"

definition evaluateRetentionDeletion :: "date_parse \<Rightarrow> retention_input option \<Rightarrow> retention_error + retention_decision" where
  "evaluateRetentionDeletion dp input =
     (case input of
        None \<Rightarrow> Inl Invalid_input
      | Some inp \<Rightarrow>
          rbind (props_of (ri_periods inp) Invalid_periods) (\<lambda>periods.
            case (ri_receipts inp, ri_trustedExecutors inp) of
              (JArr raw, Some exs) \<Rightarrow>
                rbind (parseCandidate dp (ri_candidate inp)) (\<lambda>c.
                rbind (timestampMs dp (ri_now inp) Invalid_candidate) (\<lambda>nowMs.
                rbind (timestampMs dp (JStr (cand_anchorAt c)) Invalid_candidate) (\<lambda>anchorMs.
                  if \<not> has_own periods (cand_category c) then Inl Invalid_periods
                  else let period = obj_get periods (cand_category c) in
                    if period = JNull then Inr (Refused Policy_unset)
                    else if \<not> isPeriodDays period then Inl Invalid_periods
                    else (case refusal_of dp c nowMs anchorMs (int_of_jsval period) of
                            Some reason \<Rightarrow> Inr (Refused reason)
                          | None \<Rightarrow> decide_coverage dp c exs nowMs (ri_coverageInventory inp) raw))))
            | (JArr _, None) \<Rightarrow> Inl Invalid_input
            | _ \<Rightarrow> Inl Invalid_receipt))"

section \<open>What a completed deletion rests on\<close>

lemma outcome_name_split:
  "outcome_name o1 @ '':'' @ s = outcome_name o2 @ '':'' @ t \<Longrightarrow> o1 = o2 \<and> s = t"
  by (cases o1; cases o2) simp_all

lemma result_text_eq:
  "result_text r = result_text q \<longleftrightarrow> rc_outcome r = rc_outcome q \<and> rc_residualCount r = rc_residualCount q"
  using outcome_name_split [of "rc_outcome r" "show_int (rc_residualCount r)" "rc_outcome q" "show_int (rc_residualCount q)"]
    show_int_split [of "rc_residualCount r" "[]" "rc_residualCount q" "[]"]
  by (auto simp: result_text_def no_digit_first_def)

lemma at_newest_ne:
  assumes "matching \<noteq> []"
  shows "filter (\<lambda>r. observed dp r = Max (set (map (observed dp) matching))) matching \<noteq> []"
proof -
  have "Max (set (map (observed dp) matching)) \<in> set (map (observed dp) matching)"
    using assms by (intro Max_in) auto
  then show ?thesis by (auto simp: filter_empty_conv)
qed

text \<open>The latest receipt of one coverage, operation and executor: it is among the receipts, none is
  newer, and all receipts of the same instant report the same result.\<close>

definition latest_in :: "date_parse \<Rightarrow> cleanup_receipt list \<Rightarrow> string \<Rightarrow> receipt_operation \<Rightarrow> string \<Rightarrow> cleanup_receipt \<Rightarrow> bool" where
  "latest_in dp rs k operation e r \<longleftrightarrow> r \<in> set rs \<and> receipt_for k operation e r
     \<and> (\<forall>q\<in>set rs. receipt_for k operation e q \<longrightarrow> observed dp q \<le> observed dp r
          \<and> (observed dp q = observed dp r \<longrightarrow> rc_outcome q = rc_outcome r \<and> rc_residualCount q = rc_residualCount r))"

lemma card_le_1_same: "card (set xs) \<le> 1 \<Longrightarrow> x \<in> set xs \<Longrightarrow> y \<in> set xs \<Longrightarrow> x = y"
  by (metis List.finite_set One_nat_def card_le_Suc0_iff_eq)

lemma latestFor_Latest:
  assumes "latestFor dp rs k operation e = Latest r"
  shows "latest_in dp rs k operation e r"
proof -
  define m where "m = filter (receipt_for k operation e) rs"
  define n where "n = Max (set (map (observed dp) m))"
  define a where "a = filter (\<lambda>r. observed dp r = n) m"
  from assms have ne: "m \<noteq> []" and c: "card (set (map result_text a)) \<le> 1" and r: "r = hd a"
    unfolding m_def n_def a_def by (auto simp: latestFor_def Let_def split: if_splits)
  have ra: "r \<in> set a" using at_newest_ne [OF ne] unfolding r a_def n_def by (rule hd_in_set)
  have le: "observed dp q \<le> n" if "q \<in> set m" for q unfolding n_def using that by (intro Max_ge) auto
  have same: "result_text q = result_text r" if "q \<in> set a" for q
    using that ra by (intro card_le_1_same [OF c]) auto
  have rn: "observed dp r = n" "r \<in> set rs" "receipt_for k operation e r" using ra by (auto simp: a_def m_def)
  have "observed dp q \<le> observed dp r
      \<and> (observed dp q = observed dp r \<longrightarrow> rc_outcome q = rc_outcome r \<and> rc_residualCount q = rc_residualCount r)"
    if "q \<in> set rs" "receipt_for k operation e q" for q
    using le [of q] same [of q] that rn by (simp add: a_def m_def result_text_eq)
  with rn(2,3) show ?thesis unfolding latest_in_def by blast
qed

lemma latestFor_Absent: "latestFor dp rs k operation e = Absent \<longleftrightarrow> (\<forall>r\<in>set rs. \<not> receipt_for k operation e r)"
  by (auto simp: latestFor_def Let_def filter_empty_conv)

text \<open>Executor \<open>e\<close> has proved coverage \<open>k\<close> clean: its latest delete completed, its latest read check is
  later, completed, and found nothing.\<close>

definition proved_clean :: "date_parse \<Rightarrow> cleanup_receipt list \<Rightarrow> string \<Rightarrow> string \<Rightarrow> bool" where
  "proved_clean dp rs k e \<longleftrightarrow>
     (\<exists>d r. latest_in dp rs k Delete e d \<and> rc_outcome d = Completed
        \<and> latest_in dp rs k Read_check e r \<and> rc_outcome r = Completed \<and> rc_residualCount r \<le> 0
        \<and> observed dp d < observed dp r)"

lemma executor_state_Verified: "executor_state dp k rs e = Verified \<Longrightarrow> proved_clean dp rs k e"
  by (fastforce simp: executor_state_def stateForOutcome_def blockedCoverage_def proved_clean_def
      split: latest.splits if_splits dest: latestFor_Latest)

lemma blockers_of_Nil: "executor_state dp k rs e = Verified \<longleftrightarrow> blockers_of (executor_state dp k rs e) = []"
  by (auto simp: executor_state_def stateForOutcome_def blockedCoverage_def blockers_of_def
      split: latest.splits if_splits)

lemma js_dedupe_Nil: "js_dedupe [] xs = [] \<longleftrightarrow> xs = []"
  using set_js_dedupe [of "[]" xs] by auto

lemma coverageState_Verified:
  "blockers_of (coverageState dp k rs ids) = [] \<Longrightarrow> ids \<noteq> [] \<and> (\<forall>e\<in>set ids. proved_clean dp rs k e)"
  by (auto simp: coverageState_def Let_def blockedCoverage_def blockers_of_def [of "Blocked _"] blockers_of_def [of Verified]
      js_dedupe_Nil blockers_of_Nil [symmetric] executor_state_Verified split: if_splits)

text \<open>The gate in front of every deletion.\<close>

definition gate_open :: "date_parse \<Rightarrow> retention_candidate \<Rightarrow> int \<Rightarrow> int \<Rightarrow> int \<Rightarrow> bool" where
  "gate_open dp c nowMs anchorMs days \<longleftrightarrow>
     (\<forall>h\<in>set (cand_holds c). \<not> holdIsActive dp h nowMs) \<and> anchorMs + days * DAY_MS \<le> nowMs
     \<and> cand_activeReferenceCount c \<le> 0 \<and> \<not> cand_reconciliationOpen c
     \<and> authorizationIsCurrent dp (cand_authorization c) nowMs"

lemma refusal_of_None: "refusal_of dp c nowMs anchorMs days = None \<longleftrightarrow> gate_open dp c nowMs anchorMs days"
  by (auto simp: refusal_of_def gate_open_def list_ex_iff not_less)

text \<open>What the evaluation reads from a well-formed input.\<close>

definition reads_as ::
  "date_parse \<Rightarrow> retention_input \<Rightarrow> retention_candidate \<Rightarrow> executors \<Rightarrow> jsval list \<Rightarrow> int \<Rightarrow> int \<Rightarrow> jsval \<Rightarrow> bool" where
  "reads_as dp inp c exs raw nowMs anchorMs period \<longleftrightarrow>
     parseCandidate dp (ri_candidate inp) = Inr c \<and> ri_trustedExecutors inp = Some exs \<and> ri_receipts inp = JArr raw
     \<and> timestampMs dp (ri_now inp) Invalid_candidate = Inr nowMs
     \<and> timestampMs dp (JStr (cand_anchorAt c)) Invalid_candidate = Inr anchorMs
     \<and> (\<exists>periods. props_of (ri_periods inp) Invalid_periods = Inr periods \<and> has_own periods (cand_category c)
          \<and> period = obj_get periods (cand_category c))"

lemma evaluate_reads:
  assumes "evaluateRetentionDeletion dp (Some inp) = Inr d"
  obtains c exs raw nowMs anchorMs period where "reads_as dp inp c exs raw nowMs anchorMs period"
    and "period = JNull \<and> d = Refused Policy_unset \<or> isPeriodDays period"
proof -
  obtain raw exs where r: "ri_receipts inp = JArr raw" "ri_trustedExecutors inp = Some exs"
    using assms by (cases "ri_receipts inp"; cases "ri_trustedExecutors inp")
      (auto simp: evaluateRetentionDeletion_def rbind_eq_Inr_iff)
  from assms r obtain periods where p: "props_of (ri_periods inp) Invalid_periods = Inr periods"
    by (auto simp: evaluateRetentionDeletion_def rbind_eq_Inr_iff)
  from assms r p obtain c nowMs anchorMs where
    c: "parseCandidate dp (ri_candidate inp) = Inr c" "timestampMs dp (ri_now inp) Invalid_candidate = Inr nowMs"
      "timestampMs dp (JStr (cand_anchorAt c)) Invalid_candidate = Inr anchorMs"
    by (auto simp: evaluateRetentionDeletion_def rbind_eq_Inr_iff)
  define period where "period = obj_get periods (cand_category c)"
  from assms r p c have "has_own periods (cand_category c)"
    and "period = JNull \<and> d = Refused Policy_unset \<or> isPeriodDays period"
    by (auto simp: evaluateRetentionDeletion_def period_def Let_def split: if_splits)
  with r p c show ?thesis by (intro that [of c exs raw nowMs anchorMs period]) (auto simp: reads_as_def period_def)
qed

lemma evaluate_eq:
  assumes "reads_as dp inp c exs raw nowMs anchorMs period"
  shows "evaluateRetentionDeletion dp (Some inp) =
     (if period = JNull then Inr (Refused Policy_unset)
      else if \<not> isPeriodDays period then Inl Invalid_periods
      else (case refusal_of dp c nowMs anchorMs (int_of_jsval period) of
              Some reason \<Rightarrow> Inr (Refused reason)
            | None \<Rightarrow> decide_coverage dp c exs nowMs (ri_coverageInventory inp) raw))"
  using assms by (auto simp: evaluateRetentionDeletion_def reads_as_def Let_def)

text \<open>What \<open>verified_complete\<close> rests on below the gate.\<close>

lemma decide_coverage_verified:
  assumes "decide_coverage dp c exs nowMs iv raw = Inr (Verified_complete cov)"
  obtains rule inventory parsed where "retentionCategoryRule (cand_category c) = Inr rule" "cov = requiredCoverage rule"
    "\<not> eventualBackupExpiry rule" "parseRetentionCoverageInventory iv (cand_category c) = Inr inventory"
    "rmap (parseReceipt dp) raw = Inr parsed"
    "\<And>k. k \<in> set cov \<Longrightarrow> inv_get (inv_executors inventory) k \<noteq> []
       \<and> (\<forall>e\<in>set (inv_get (inv_executors inventory) k). proved_clean dp (filter (counts_for dp c exs nowMs) parsed) k e)"
proof -
  from assms obtain rule where rule: "retentionCategoryRule (cand_category c) = Inr rule" "\<not> eventualBackupExpiry rule"
    by (auto simp: decide_coverage_def rbind_eq_Inr_iff split: if_splits)
  with assms obtain inventory where inventory: "parseRetentionCoverageInventory iv (cand_category c) = Inr inventory"
    "inv_complete inventory" by (auto simp: decide_coverage_def rbind_eq_Inr_iff split: if_splits)
  with assms rule obtain parsed where parsed: "rmap (parseReceipt dp) raw = Inr parsed"
    by (auto simp: decide_coverage_def rbind_eq_Inr_iff)
  have "cov = requiredCoverage rule"
    and "\<forall>k\<in>set cov. blockers_of (coverageState dp k (filter (counts_for dp c exs nowMs) parsed)
           (inv_get (inv_executors inventory) k)) = []"
    using assms rule inventory parsed by (auto simp: decide_coverage_def Let_def split: if_splits)
  with rule inventory parsed show ?thesis by (intro that) (auto dest: coverageState_Verified)
qed

text \<open>C7: a deletion is reported \<open>verified_complete\<close> only when the retention gate is open (period set and
  elapsed, no active hold, no active reference, reconciliation closed, authorization current), the
  category is not removed by backup expiry, and for every required coverage the inventory names at
  least one executor and each named executor proved it clean: its latest trusted delete for this very
  request completed and its latest trusted read check is later and found no residue.\<close>

theorem verified_complete_sound:
  assumes "evaluateRetentionDeletion dp (Some inp) = Inr (Verified_complete cov)"
  shows "\<exists>c exs raw nowMs anchorMs period rule inventory parsed.
    reads_as dp inp c exs raw nowMs anchorMs period \<and> isPeriodDays period
    \<and> gate_open dp c nowMs anchorMs (int_of_jsval period)
    \<and> retentionCategoryRule (cand_category c) = Inr rule \<and> \<not> eventualBackupExpiry rule \<and> cov = requiredCoverage rule
    \<and> parseRetentionCoverageInventory (ri_coverageInventory inp) (cand_category c) = Inr inventory
    \<and> rmap (parseReceipt dp) raw = Inr parsed
    \<and> (\<forall>k\<in>set cov. inv_get (inv_executors inventory) k \<noteq> []
        \<and> (\<forall>e\<in>set (inv_get (inv_executors inventory) k).
             proved_clean dp (filter (counts_for dp c exs nowMs) parsed) k e))"
proof -
  obtain c exs raw nowMs anchorMs period where
    r: "reads_as dp inp c exs raw nowMs anchorMs period" and p: "isPeriodDays period"
    by (rule evaluate_reads [OF assms]) auto
  then have "period \<noteq> JNull" by (auto simp: isPeriodDays_def)
  with assms r p have "refusal_of dp c nowMs anchorMs (int_of_jsval period) = None"
    and d: "decide_coverage dp c exs nowMs (ri_coverageInventory inp) raw = Inr (Verified_complete cov)"
    by (auto simp: evaluate_eq [OF r] split: option.splits)
  then have "gate_open dp c nowMs anchorMs (int_of_jsval period)" by (simp add: refusal_of_None)
  with r p show ?thesis using decide_coverage_verified [OF d] by (metis (no_types, lifting))
qed

text \<open>The gate is closed first: with an unset period, an active hold, a running period, a live
  reference, an open reconciliation or an authorization that is not current the decision is a refusal,
  whatever the receipts and the inventory say.\<close>

theorem closed_gate_refuses:
  assumes "reads_as dp inp c exs raw nowMs anchorMs period"
    and "period = JNull \<or> isPeriodDays period \<and> \<not> gate_open dp c nowMs anchorMs (int_of_jsval period)"
  shows "\<exists>reason. evaluateRetentionDeletion dp (Some inp) = Inr (Refused reason)"
  using assms(2) refusal_of_None [of dp c nowMs anchorMs "int_of_jsval period"]
  by (auto simp: evaluate_eq [OF assms(1)] split: option.splits)

section \<open>Which receipts matter\<close>

text \<open>Every failure to parse a receipt has the same code, so a list of receipts fails as a set.\<close>

lemma parseReceipt_error: "parseReceipt dp v = Inl e \<Longrightarrow> e = Invalid_receipt"
  by (auto simp: parseReceipt_def rbind_def require_def props_of_def opaqueId_def count_value_def timestampMs_def
      split: sum.splits option.splits jsval.splits if_splits)

lemma rmap_one_error:
  assumes "\<And>x e. f x = Inl e \<Longrightarrow> e = e0"
  shows "rmap f xs = (if \<forall>x\<in>set xs. \<exists>y. f x = Inr y then Inr (map (\<lambda>x. projr (f x)) xs) else Inl e0)"
  by (induction xs) (use assms in \<open>auto split: sum.splits\<close>)

definition latest_view :: "date_parse \<Rightarrow> latest \<Rightarrow> (int \<times> receipt_outcome \<times> int) option option" where
  "latest_view dp l = (case l of Absent \<Rightarrow> None | Ambiguous \<Rightarrow> Some None
     | Latest r \<Rightarrow> Some (Some (observed dp r, rc_outcome r, rc_residualCount r)))"

lemma latestFor_kind:
  assumes "set rs = set qs"
  shows "latestFor dp rs k operation e = Absent \<longleftrightarrow> latestFor dp qs k operation e = Absent"
    and "latestFor dp rs k operation e = Ambiguous \<longleftrightarrow> latestFor dp qs k operation e = Ambiguous"
proof -
  let ?m = "\<lambda>xs. filter (receipt_for k operation e) xs"
  let ?a = "\<lambda>xs. filter (\<lambda>r. observed dp r = Max (set (map (observed dp) (?m xs)))) (?m xs)"
  show a: "latestFor dp rs k operation e = Absent \<longleftrightarrow> latestFor dp qs k operation e = Absent"
    by (simp only: latestFor_Absent assms)
  have amb: "latestFor dp xs k operation e = Ambiguous \<longleftrightarrow>
      latestFor dp xs k operation e \<noteq> Absent \<and> card (set (map result_text (?a xs))) > 1" for xs
    by (simp only: latestFor_def Let_def split: if_split) simp
  have "set (map result_text (?a rs)) = set (map result_text (?a qs))"
    by (simp only: set_map set_filter assms)
  then show "latestFor dp rs k operation e = Ambiguous \<longleftrightarrow> latestFor dp qs k operation e = Ambiguous"
    unfolding amb a by (simp only:)
qed

lemma latestFor_set:
  assumes "set rs = set qs"
  shows "latest_view dp (latestFor dp rs k operation e) = latest_view dp (latestFor dp qs k operation e)"
proof (cases "latestFor dp rs k operation e")
  case (Latest r)
  with latestFor_kind [OF assms, of dp k operation e] obtain q where q: "latestFor dp qs k operation e = Latest q"
    by (cases "latestFor dp qs k operation e") auto
  from Latest q have "latest_in dp rs k operation e r" "latest_in dp qs k operation e q" by (auto dest: latestFor_Latest)
  then have "observed dp r = observed dp q \<and> rc_outcome r = rc_outcome q \<and> rc_residualCount r = rc_residualCount q"
    unfolding latest_in_def assms by (meson order_antisym)
  then show ?thesis by (simp add: Latest q latest_view_def)
qed (use latestFor_kind [OF assms, of dp k operation e] in \<open>auto simp: latest_view_def\<close>)

lemma executor_state_view:
  assumes "\<And>operation. latest_view dp (latestFor dp rs k operation e) = latest_view dp (latestFor dp qs k operation e)"
  shows "executor_state dp k rs e = executor_state dp k qs e"
  using assms [of Delete] assms [of Read_check]
  by (cases "latestFor dp rs k Delete e"; cases "latestFor dp qs k Delete e";
      cases "latestFor dp rs k Read_check e"; cases "latestFor dp qs k Read_check e")
    (simp_all add: executor_state_def latest_view_def)

lemma coverageState_set: "set rs = set qs \<Longrightarrow> coverageState dp k rs ids = coverageState dp k qs ids"
  using executor_state_view [OF latestFor_set, of rs qs] by (simp add: coverageState_def)

lemma decide_coverage_cong:
  assumes "\<And>e. rmap (parseReceipt dp) raw = Inl e \<longleftrightarrow> rmap (parseReceipt dp) raw' = Inl e"
    and "\<And>rs qs. rmap (parseReceipt dp) raw = Inr rs \<Longrightarrow> rmap (parseReceipt dp) raw' = Inr qs \<Longrightarrow>
      set (filter (counts_for dp c exs nowMs) rs) = set (filter (counts_for dp c exs nowMs) qs)"
  shows "decide_coverage dp c exs nowMs iv raw = decide_coverage dp c exs nowMs iv raw'"
proof (cases "rmap (parseReceipt dp) raw")
  case (Inl e)
  with assms(1) have "rmap (parseReceipt dp) raw' = Inl e" by blast
  with Inl show ?thesis by (simp only: decide_coverage_def)
next
  case (Inr rs)
  obtain qs where qs: "rmap (parseReceipt dp) raw' = Inr qs"
    using assms(1) Inr by (cases "rmap (parseReceipt dp) raw'") auto
  let ?f = "filter (counts_for dp c exs nowMs)"
  have eq: "set (?f rs) = set (?f qs)" using assms(2) Inr qs .
  then have "length (?f rs) = 0 \<longleftrightarrow> length (?f qs) = 0" by (metis length_0_conv set_empty)
  then show ?thesis by (simp only: decide_coverage_def Inr qs rbind_Inr Let_def coverageState_set [OF eq])
qed

lemma evaluate_receipts_cong:
  assumes "\<And>c exs nowMs iv. decide_coverage dp c exs nowMs iv raw = decide_coverage dp c exs nowMs iv raw'"
  shows "evaluateRetentionDeletion dp (Some (inp\<lparr>ri_receipts := JArr raw\<rparr>))
       = evaluateRetentionDeletion dp (Some (inp\<lparr>ri_receipts := JArr raw'\<rparr>))"
  by (simp add: evaluateRetentionDeletion_def Let_def assms cong: if_cong option.case_cong)

text \<open>The decision depends only on which receipts were reported: reordering or repeating them, the
  malformed ones included, changes nothing.\<close>

theorem decision_ignores_receipt_order:
  assumes "set raw = set raw'"
  shows "evaluateRetentionDeletion dp (Some (inp\<lparr>ri_receipts := JArr raw\<rparr>))
       = evaluateRetentionDeletion dp (Some (inp\<lparr>ri_receipts := JArr raw'\<rparr>))"
proof (rule evaluate_receipts_cong, rule decide_coverage_cong)
  have r: "rmap (parseReceipt dp) xs = (if \<forall>x\<in>set xs. \<exists>y. parseReceipt dp x = Inr y
      then Inr (map (\<lambda>x. projr (parseReceipt dp x)) xs) else Inl Invalid_receipt)" for xs
    by (rule rmap_one_error) (rule parseReceipt_error)
  show "rmap (parseReceipt dp) raw = Inl e \<longleftrightarrow> rmap (parseReceipt dp) raw' = Inl e" for e
    unfolding r assms by (split if_split)+ blast
  show "set (filter (counts_for dp c exs nowMs) rs) = set (filter (counts_for dp c exs nowMs) qs)"
    if "rmap (parseReceipt dp) raw = Inr rs" "rmap (parseReceipt dp) raw' = Inr qs" for c exs nowMs rs qs
    using that assms by (auto simp: r split: if_splits)
qed

text \<open>A well-formed receipt that the executor set does not vouch for (unknown executor, revoked,
  observed outside its window, at the evaluation instant) has no influence on the decision.\<close>

theorem untrusted_receipt_ignored:
  assumes "parseReceipt dp v = Inr r" and "ri_trustedExecutors inp = Some exs"
    and "timestampMs dp (ri_now inp) Invalid_candidate = Inr nowMs" and "\<not> receiptIsTrusted dp r exs nowMs"
  shows "evaluateRetentionDeletion dp (Some (inp\<lparr>ri_receipts := JArr (v # raw)\<rparr>))
       = evaluateRetentionDeletion dp (Some (inp\<lparr>ri_receipts := JArr raw\<rparr>))"
proof -
  have "decide_coverage dp c exs nowMs iv (v # raw) = decide_coverage dp c exs nowMs iv raw" for c iv
    using assms(1,4) by (intro decide_coverage_cong) (auto simp: counts_for_def split: sum.splits)
  then show ?thesis using assms(2,3)
    by (simp add: evaluateRetentionDeletion_def Let_def cong: if_cong option.case_cong)
qed

section \<open>Witnesses\<close>

definition sample_time :: date_parse where
  "sample_time s = map_of [(''2026-01-01T00:00:00Z'', 0), (''2026-02-01T00:00:00Z'', 2678400000),
     (''2026-02-01T00:00:05Z'', 2678405000), (''2026-02-01T00:00:09Z'', 2678409000),
     (''2027-01-01T00:00:00Z'', 31536000000)] s"

definition sample_receipt :: "string \<Rightarrow> string \<Rightarrow> string \<Rightarrow> string \<Rightarrow> jsval" where
  "sample_receipt executor coverage operation at =
     JObj [(''category'', JStr ''receipts''), (''requestId'', JStr ''req1''), (''subjectId'', JStr ''s1''),
       (''coverage'', JStr coverage), (''operation'', JStr operation), (''outcome'', JStr ''completed''),
       (''residualCount'', JNum (NInt 0)), (''executorId'', JStr executor), (''observedAt'', JStr at)]"

definition sample_receipts :: "jsval list" where
  "sample_receipts =
     [sample_receipt ''node1'' ''primary'' ''delete'' ''2026-02-01T00:00:00Z'',
      sample_receipt ''node1'' ''primary'' ''read_check'' ''2026-02-01T00:00:05Z'',
      sample_receipt ''node1'' ''index'' ''delete'' ''2026-02-01T00:00:00Z'',
      sample_receipt ''node1'' ''index'' ''read_check'' ''2026-02-01T00:00:05Z'']"

definition sample_candidate :: "jsval list \<Rightarrow> jsval" where
  "sample_candidate holds =
     JObj [(''category'', JStr ''receipts''), (''subjectId'', JStr ''s1''), (''anchorAt'', JStr ''2026-01-01T00:00:00Z''),
       (''holds'', JArr holds), (''activeReferenceCount'', JNum (NInt 0)), (''reconciliationOpen'', JBool False),
       (''authorization'', JObj [(''id'', JStr ''req1''), (''grantedAt'', JStr ''2026-01-01T00:00:00Z''),
          (''expiresAt'', JStr ''2027-01-01T00:00:00Z''), (''revokedAt'', JNull)])]"

definition retention_sample :: "jsval list \<Rightarrow> retention_input" where
  "retention_sample holds = \<lparr>ri_candidate = sample_candidate holds, ri_periods = JObj [(''receipts'', JNum (NInt 30))],
     ri_receipts = JArr sample_receipts,
     ri_trustedExecutors = Some [(''node1'', \<lparr>ex_authorizedFrom = ''2026-01-01T00:00:00Z'', ex_authorizedUntil = None,
       ex_revokedAt = None\<rparr>)],
     ri_coverageInventory = JObj [(''primary'', JArr [JStr ''node1'']), (''index'', JArr [JStr ''node1''])],
     ri_now = JStr ''2026-02-01T00:00:09Z''\<rparr>"

definition sample_hold :: jsval where
  "sample_hold = JObj [(''id'', JStr ''h1''), (''releasedAt'', JNull)]"

theorem verified_complete_sound_witness:
  "\<exists>c exs raw nowMs anchorMs period rule inventory parsed.
    reads_as sample_time (retention_sample []) c exs raw nowMs anchorMs period \<and> isPeriodDays period
    \<and> gate_open sample_time c nowMs anchorMs (int_of_jsval period)
    \<and> retentionCategoryRule (cand_category c) = Inr rule \<and> \<not> eventualBackupExpiry rule
    \<and> [''primary'', ''index''] = requiredCoverage rule
    \<and> parseRetentionCoverageInventory (ri_coverageInventory (retention_sample [])) (cand_category c) = Inr inventory
    \<and> rmap (parseReceipt sample_time) raw = Inr parsed
    \<and> (\<forall>k\<in>set [''primary'', ''index'']. inv_get (inv_executors inventory) k \<noteq> []
        \<and> (\<forall>e\<in>set (inv_get (inv_executors inventory) k).
             proved_clean sample_time (filter (counts_for sample_time c exs nowMs) parsed) k e))"
proof (rule verified_complete_sound)
  show "evaluateRetentionDeletion sample_time (Some (retention_sample [])) = Inr (Verified_complete [''primary'', ''index''])"
    by code_simp
qed

definition held_candidate :: retention_candidate where
  "held_candidate = projr (parseCandidate sample_time (sample_candidate [sample_hold]))"

theorem closed_gate_refuses_witness:
  "\<exists>reason. evaluateRetentionDeletion sample_time (Some (retention_sample [sample_hold])) = Inr (Refused reason)"
proof (rule closed_gate_refuses)
  show "reads_as sample_time (retention_sample [sample_hold]) held_candidate
      (the (ri_trustedExecutors (retention_sample []))) sample_receipts 2678409000 0 (JNum (NInt 30))"
    unfolding reads_as_def
  proof (intro conjI exI [of _ "[(''receipts'', JNum (NInt 30))]"])
    show "parseCandidate sample_time (ri_candidate (retention_sample [sample_hold])) = Inr held_candidate" by code_simp
    show "timestampMs sample_time (ri_now (retention_sample [sample_hold])) Invalid_candidate = Inr 2678409000" by code_simp
    show "timestampMs sample_time (JStr (cand_anchorAt held_candidate)) Invalid_candidate = Inr 0" by code_simp
    show "has_own [(''receipts'', JNum (NInt 30))] (cand_category held_candidate)" by code_simp
    show "JNum (NInt 30) = obj_get [(''receipts'', JNum (NInt 30))] (cand_category held_candidate)" by code_simp
  qed (simp_all add: retention_sample_def props_of_def)
  have "isPeriodDays (JNum (NInt 30))" by code_simp
  moreover have "list_ex (\<lambda>h. holdIsActive sample_time h 2678409000) (cand_holds held_candidate)" by code_simp
  ultimately show "JNum (NInt 30) = JNull \<or> isPeriodDays (JNum (NInt 30))
      \<and> \<not> gate_open sample_time held_candidate 2678409000 0 (int_of_jsval (JNum (NInt 30)))"
    by (auto simp: gate_open_def list_ex_iff)
qed

theorem decision_ignores_receipt_order_witness:
  "evaluateRetentionDeletion sample_time (Some ((retention_sample [])\<lparr>ri_receipts := JArr (rev sample_receipts @ sample_receipts)\<rparr>))
   = evaluateRetentionDeletion sample_time (Some ((retention_sample [])\<lparr>ri_receipts := JArr sample_receipts\<rparr>))"
  by (rule decision_ignores_receipt_order) simp

definition stray_receipt :: jsval where
  "stray_receipt = sample_receipt ''node9'' ''primary'' ''delete'' ''2026-02-01T00:00:09Z''"

theorem untrusted_receipt_ignored_witness:
  "evaluateRetentionDeletion sample_time (Some ((retention_sample [])\<lparr>ri_receipts := JArr (stray_receipt # sample_receipts)\<rparr>))
   = evaluateRetentionDeletion sample_time (Some ((retention_sample [])\<lparr>ri_receipts := JArr sample_receipts\<rparr>))"
proof (rule untrusted_receipt_ignored)
  show "parseReceipt sample_time stray_receipt = Inr (projr (parseReceipt sample_time stray_receipt))" by code_simp
  show "ri_trustedExecutors (retention_sample []) = Some (the (ri_trustedExecutors (retention_sample [])))"
    by (simp add: retention_sample_def)
  show "timestampMs sample_time (ri_now (retention_sample [])) Invalid_candidate = Inr 2678409000" by code_simp
  show "\<not> receiptIsTrusted sample_time (projr (parseReceipt sample_time stray_receipt))
      (the (ri_trustedExecutors (retention_sample []))) 2678409000" by code_simp
qed

end
