(* ===== verification/Group_Participation.thy ===== *)
theory Group_Participation
  imports Prelude
begin

text \<open>
  Group audience and participation policy (\<^verbatim>\<open>packages/db/src/group-participation-policy.ts\<close>, the types of
  \<^verbatim>\<open>packages/types/src/group-participation.ts\<close>): creation of a group from candidates with explicit
  grants, and the four decisions over a member's admission (history reads, summary reads, turns, late
  publication). \<open>Date.parse\<close> is the argument \<open>dp\<close>, \<open>None\<close> for an unreadable timestamp. A revision is an
  unchecked value: the code tests at run time that it is a positive safe integer.
\<close>

section \<open>Data\<close>

type_synonym clock_parse = "string \<Rightarrow> int option"

datatype participant_ref = PUser string | PAgent string

record agent_identity =
  ai_agentId :: string
  ai_workspaceId :: string

record group_window =
  gw_expiresAt :: "string option"
  gw_issuedAt :: string
  gw_revokedAt :: "string option"

record group_grant = group_window +
  gg_grantId :: string
  gg_revision :: jsval
  gg_groupId :: string

record audience_grant = group_grant +
  ag_userId :: string

record enlistment_grant = group_grant +
  eg_agent :: agent_identity

datatype sharing_scope = Earlier_history | Earlier_summary

record sharing_grant = group_grant +
  sg_participant :: participant_ref
  sg_scope :: sharing_scope

record group_binding =
  gb_groupId :: string
  gb_grantId :: string
  gb_revision :: jsval

record join_point =
  jp_joinedAt :: string
  jp_joinedSequence :: int

record group_admission =
  ga_authorization :: group_binding
  ga_grant :: group_window
  ga_joinPoint :: join_point
  ga_participant :: participant_ref

datatype group_candidate =
    Human_candidate string string "audience_grant option"
  | Agent_candidate agent_identity "enlistment_grant option"

record creation_input =
  gc_candidates :: "group_candidate list"
  gc_groupId :: string
  gc_now :: string
  gc_workspaceId :: string

datatype group_state = Effective | Expired | Not_yet_issued | Revoked

datatype group_reason =
    Agent_inactive | Agent_unknown | Audience_empty | Audience_requires_human | Duplicate_participant
  | Grant_absent | Grant_expired | Grant_id_missing | Grant_mismatched_group | Grant_mismatched_participant
  | Grant_not_yet_issued | Grant_revision_invalid | Grant_revoked | Grant_workspace_mismatch
  | Group_id_missing | Group_workspace_missing | Participant_cross_tenant | Participant_unqualified

datatype group_rejection =
    Candidate_rejection nat participant_ref group_reason
  | Group_rejection group_reason

section \<open>Grant windows and identities\<close>

definition workspaceQualifiedAgentKey :: "agent_identity \<Rightarrow> string" where
  "workspaceQualifiedAgentKey a = ai_workspaceId a @ '':'' @ ai_agentId a"

definition sameQualifiedAgentIdentity :: "agent_identity \<Rightarrow> agent_identity \<Rightarrow> bool" where
  "sameQualifiedAgentIdentity l r \<longleftrightarrow> ai_agentId l = ai_agentId r \<and> ai_workspaceId l = ai_workspaceId r"

fun sameParticipant :: "participant_ref \<Rightarrow> participant_ref \<Rightarrow> bool" where
  "sameParticipant (PUser a) (PUser b) = (a = b)"
| "sameParticipant (PAgent a) (PAgent b) = (a = b)"
| "sameParticipant _ _ = False"

definition grantIdentityRejection :: "string \<Rightarrow> jsval \<Rightarrow> string \<Rightarrow> string \<Rightarrow> group_reason option" where
  "grantIdentityRejection grantId revision groupId contextGroupId =
     (if \<not> has_text grantId then Some Grant_id_missing
      else if \<not> is_safe_integer revision \<or> int_of_jsval revision < 1 then Some Grant_revision_invalid
      else if \<not> has_text groupId \<or> groupId \<noteq> contextGroupId then Some Grant_mismatched_group
      else None)"

definition grant_identity :: "'a group_grant_scheme \<Rightarrow> string \<Rightarrow> group_reason option" where
  "grant_identity g ctx = grantIdentityRejection (gg_grantId g) (gg_revision g) (gg_groupId g) ctx"

definition binding_identity :: "group_binding \<Rightarrow> string \<Rightarrow> group_reason option" where
  "binding_identity b ctx = grantIdentityRejection (gb_grantId b) (gb_revision b) (gb_groupId b) ctx"

definition wellFormedBinding :: "group_binding \<Rightarrow> bool" where
  "wellFormedBinding b \<longleftrightarrow> binding_identity b (gb_groupId b) = None"

definition sameAuthorizationBinding :: "group_binding \<Rightarrow> group_binding \<Rightarrow> bool" where
  "sameAuthorizationBinding retained current \<longleftrightarrow>
     wellFormedBinding retained \<and> wellFormedBinding current \<and> gb_groupId retained = gb_groupId current
     \<and> gb_grantId retained = gb_grantId current \<and> gb_revision retained = gb_revision current"

definition evaluateGroupGrantWindow :: "clock_parse \<Rightarrow> 'a group_window_scheme \<Rightarrow> string \<Rightarrow> group_state" where
  "evaluateGroupGrantWindow dp w now =
     (case dp now of
        None \<Rightarrow> Expired
      | Some nowMs \<Rightarrow>
          if (case gw_revokedAt w of None \<Rightarrow> False
                | Some r \<Rightarrow> (case dp r of None \<Rightarrow> True | Some ms \<Rightarrow> ms \<le> nowMs)) then Revoked
          else (case dp (gw_issuedAt w) of
                  None \<Rightarrow> Expired
                | Some issuedMs \<Rightarrow>
                    if issuedMs > nowMs then Not_yet_issued
                    else if (case gw_expiresAt w of None \<Rightarrow> False
                               | Some x \<Rightarrow> (case dp x of None \<Rightarrow> True | Some ms \<Rightarrow> nowMs \<ge> ms)) then Expired
                    else Effective))"

fun rejectionForGrantState :: "group_state \<Rightarrow> group_reason" where
  "rejectionForGrantState Not_yet_issued = Grant_not_yet_issued"
| "rejectionForGrantState Revoked = Grant_revoked"
| "rejectionForGrantState _ = Grant_expired"

definition grantWindow :: "'a group_window_scheme \<Rightarrow> group_window" where
  "grantWindow g = \<lparr>gw_expiresAt = gw_expiresAt g, gw_issuedAt = gw_issuedAt g, gw_revokedAt = gw_revokedAt g\<rparr>"

definition GROUP_CREATION_JOIN_SEQUENCE :: int where "GROUP_CREATION_JOIN_SEQUENCE = 0"

definition joinPointAt :: "string \<Rightarrow> join_point" where
  "joinPointAt now = \<lparr>jp_joinedAt = now, jp_joinedSequence = GROUP_CREATION_JOIN_SEQUENCE\<rparr>"

section \<open>Creation\<close>

definition admission_from :: "string \<Rightarrow> 'a group_grant_scheme \<Rightarrow> participant_ref \<Rightarrow> group_admission" where
  "admission_from now g p =
     \<lparr>ga_authorization = \<lparr>gb_groupId = gg_groupId g, gb_grantId = gg_grantId g, gb_revision = gg_revision g\<rparr>,
      ga_grant = grantWindow g, ga_joinPoint = joinPointAt now, ga_participant = p\<rparr>"

text \<open>The checks that follow the identification of the grant, shared by both kinds of candidate.\<close>

definition grant_checks :: "clock_parse \<Rightarrow> creation_input \<Rightarrow> string list \<Rightarrow> 'a group_grant_scheme \<Rightarrow> string \<Rightarrow> group_reason option" where
  "grant_checks dp inp seen g key =
     (case grant_identity g (gc_groupId inp) of
        Some reason \<Rightarrow> Some reason
      | None \<Rightarrow>
          let st = evaluateGroupGrantWindow dp g (gc_now inp) in
          if st \<noteq> Effective then Some (rejectionForGrantState st)
          else if key \<in> set seen then Some Duplicate_participant else None)"

fun candidate_participant :: "group_candidate \<Rightarrow> participant_ref" where
  "candidate_participant (Human_candidate userId _ _) = PUser userId"
| "candidate_participant (Agent_candidate a _) = PAgent (ai_agentId a)"

fun candidate_key :: "group_candidate \<Rightarrow> string" where
  "candidate_key (Human_candidate userId _ _) = ''user:'' @ userId"
| "candidate_key (Agent_candidate a _) = ''agent:'' @ workspaceQualifiedAgentKey a"

fun is_human :: "group_candidate \<Rightarrow> bool" where
  "is_human (Human_candidate _ _ _) = True"
| "is_human (Agent_candidate _ _) = False"

fun check_candidate :: "clock_parse \<Rightarrow> creation_input \<Rightarrow> string list \<Rightarrow> group_candidate \<Rightarrow> group_reason + group_admission" where
  "check_candidate dp inp seen (Human_candidate userId workspaceId grant) =
     (if \<not> has_text userId then Inl Participant_unqualified
      else if workspaceId \<noteq> gc_workspaceId inp then Inl Participant_cross_tenant
      else (case grant of
              None \<Rightarrow> Inl Grant_absent
            | Some g \<Rightarrow>
                if ag_userId g \<noteq> userId then Inl Grant_mismatched_participant
                else (case grant_checks dp inp seen g (''user:'' @ userId) of
                        Some reason \<Rightarrow> Inl reason
                      | None \<Rightarrow> Inr (admission_from (gc_now inp) g (PUser userId)))))"
| "check_candidate dp inp seen (Agent_candidate a grant) =
     (if \<not> has_text (ai_agentId a) \<or> \<not> has_text (ai_workspaceId a) then Inl Participant_unqualified
      else (case grant of
              None \<Rightarrow> Inl Grant_absent
            | Some g \<Rightarrow>
                if \<not> sameQualifiedAgentIdentity (eg_agent g) a then Inl Grant_mismatched_participant
                else (case grant_checks dp inp seen g (''agent:'' @ workspaceQualifiedAgentKey a) of
                        Some reason \<Rightarrow> Inl reason
                      | None \<Rightarrow> Inr (admission_from (gc_now inp) g (PAgent (ai_agentId a))))))"

fun creation_loop ::
  "clock_parse \<Rightarrow> creation_input \<Rightarrow> nat \<Rightarrow> string list \<Rightarrow> group_candidate list \<Rightarrow> group_rejection list \<times> group_admission list" where
  "creation_loop dp inp i seen [] = ([], [])"
| "creation_loop dp inp i seen (c # cs) =
     (case check_candidate dp inp seen c of
        Inl reason \<Rightarrow>
          let (rejections, roster) = creation_loop dp inp (Suc i) seen cs in
          (Candidate_rejection i (candidate_participant c) reason # rejections, roster)
      | Inr admission \<Rightarrow>
          let (rejections, roster) = creation_loop dp inp (Suc i) (candidate_key c # seen) cs in
          (rejections, admission # roster))"

definition validateGroupCreation :: "clock_parse \<Rightarrow> creation_input \<Rightarrow> group_rejection list + group_admission list" where
  "validateGroupCreation dp inp =
     (if \<not> has_text (gc_workspaceId inp) then Inl [Group_rejection Group_workspace_missing]
      else if \<not> has_text (gc_groupId inp) then Inl [Group_rejection Group_id_missing]
      else if length (gc_candidates inp) = 0 then Inl [Group_rejection Audience_empty]
      else let (rejections, roster) = creation_loop dp inp 0 [] (gc_candidates inp);
               rejections = rejections @ (if filter is_human (gc_candidates inp) = []
                                          then [Group_rejection Audience_requires_human] else []) in
        if length rejections > 0 then Inl rejections else Inr roster)"

section \<open>Decisions over an admission\<close>

definition sharingGrantEffective ::
  "clock_parse \<Rightarrow> participant_ref \<Rightarrow> string \<Rightarrow> string \<Rightarrow> sharing_scope \<Rightarrow> sharing_grant list \<Rightarrow> bool" where
  "sharingGrantEffective dp participant contextGroupId now scope grants =
     list_ex (\<lambda>g. sg_scope g = scope \<and> sameParticipant (sg_participant g) participant
       \<and> grant_identity g contextGroupId = None \<and> evaluateGroupGrantWindow dp g now = Effective) grants"

datatype read_basis = Within_join_point | Earlier_history_grant | Earlier_summary_grant

datatype deny_reason =
    Identity group_reason
  | Before_join_point | Not_participant | Participation_revoked

datatype read_decision =
    Read_allow read_basis group_state
  | Read_deny "group_state option" deny_reason

record read_input =
  rd_admission :: "group_admission option"
  rd_groupId :: string
  rd_sequence :: int
  rd_now :: string
  rd_sharingGrants :: "sharing_grant list"

definition decide_read :: "clock_parse \<Rightarrow> sharing_scope \<Rightarrow> read_basis \<Rightarrow> read_input \<Rightarrow> read_decision" where
  "decide_read dp scope basis inp =
     (case rd_admission inp of
        None \<Rightarrow> Read_deny None Not_participant
      | Some a \<Rightarrow>
          let st = evaluateGroupGrantWindow dp (ga_grant a) (rd_now inp) in
          case binding_identity (ga_authorization a) (rd_groupId inp) of
            Some reason \<Rightarrow> Read_deny (Some st) (Identity reason)
          | None \<Rightarrow>
              if st = Revoked then Read_deny (Some st) Participation_revoked
              else if st \<noteq> Effective then Read_deny (Some st) Not_participant
              else if rd_sequence inp \<ge> jp_joinedSequence (ga_joinPoint a) then Read_allow Within_join_point st
              else if sharingGrantEffective dp (ga_participant a) (rd_groupId inp) (rd_now inp) scope (rd_sharingGrants inp)
              then Read_allow basis st
              else Read_deny (Some st) Before_join_point)"

definition decideGroupHistoryRead :: "clock_parse \<Rightarrow> read_input \<Rightarrow> read_decision" where
  "decideGroupHistoryRead dp = decide_read dp Earlier_history Earlier_history_grant"

definition decideGroupSummaryRead :: "clock_parse \<Rightarrow> read_input \<Rightarrow> read_decision" where
  "decideGroupSummaryRead dp = decide_read dp Earlier_summary Earlier_summary_grant"

datatype turn_decision = Turn_allow | Turn_deny "group_state option" deny_reason

record turn_input =
  tn_admission :: "group_admission option"
  tn_groupId :: string
  tn_now :: string

definition decideGroupTurn :: "clock_parse \<Rightarrow> turn_input \<Rightarrow> turn_decision" where
  "decideGroupTurn dp inp =
     (case tn_admission inp of
        None \<Rightarrow> Turn_deny None Not_participant
      | Some a \<Rightarrow>
          let st = evaluateGroupGrantWindow dp (ga_grant a) (tn_now inp) in
          case binding_identity (ga_authorization a) (tn_groupId inp) of
            Some reason \<Rightarrow> Turn_deny (Some st) (Identity reason)
          | None \<Rightarrow>
              if st = Revoked then Turn_deny (Some st) Participation_revoked
              else if st \<noteq> Effective then Turn_deny (Some st) Not_participant
              else Turn_allow)"

record completed_job =
  cj_authorization :: "group_binding option"
  cj_completedAt :: string
  cj_jobId :: string
  cj_participant :: participant_ref

datatype hold_reason =
  Authority_mismatch | Binding_mismatch | Publication_revoked | Publication_stale | Unauthorized_at_completion

datatype publication_decision = Publish string | Hold string hold_reason

record publication_input =
  pb_admission :: "group_admission option"
  pb_job :: completed_job
  pb_now :: string
  pb_publisher :: participant_ref

definition decideGroupPublication :: "clock_parse \<Rightarrow> publication_input \<Rightarrow> publication_decision" where
  "decideGroupPublication dp inp =
     (let job = pb_job inp; hold = Hold (cj_jobId job) in
      if \<not> sameParticipant (pb_publisher inp) (cj_participant job)
         \<or> (case pb_admission inp of None \<Rightarrow> False
              | Some a \<Rightarrow> \<not> sameParticipant (ga_participant a) (pb_publisher inp)) then hold Authority_mismatch
      else (case pb_admission inp of
              None \<Rightarrow> hold Unauthorized_at_completion
            | Some a \<Rightarrow>
                if (case cj_authorization job of None \<Rightarrow> True
                      | Some b \<Rightarrow> \<not> sameAuthorizationBinding b (ga_authorization a)) then hold Binding_mismatch
                else let nowState = evaluateGroupGrantWindow dp (ga_grant a) (pb_now inp) in
                  if nowState = Revoked then hold Publication_revoked
                  else if nowState \<noteq> Effective then hold Publication_stale
                  else if evaluateGroupGrantWindow dp (ga_grant a) (cj_completedAt job) \<noteq> Effective
                  then hold Unauthorized_at_completion
                  else Publish (cj_jobId job)))"

section \<open>Creation is exact\<close>

lemma sameParticipant_eq [simp]: "sameParticipant p q \<longleftrightarrow> p = q"
  by (cases p; cases q) simp_all

lemma window_effective_iff:
  "evaluateGroupGrantWindow dp w now = Effective \<longleftrightarrow>
     (\<exists>nowMs issuedMs. dp now = Some nowMs \<and> dp (gw_issuedAt w) = Some issuedMs \<and> issuedMs \<le> nowMs
        \<and> (\<forall>r. gw_revokedAt w = Some r \<longrightarrow> (\<exists>ms. dp r = Some ms \<and> nowMs < ms))
        \<and> (\<forall>x. gw_expiresAt w = Some x \<longrightarrow> (\<exists>ms. dp x = Some ms \<and> nowMs < ms)))"
  by (auto simp: evaluateGroupGrantWindow_def split: option.splits if_splits)

lemma identity_ok_iff:
  "grantIdentityRejection grantId revision groupId ctx = None \<longleftrightarrow>
     has_text grantId \<and> is_safe_integer revision \<and> 1 \<le> int_of_jsval revision \<and> has_text groupId \<and> groupId = ctx"
  by (auto simp: grantIdentityRejection_def)

text \<open>What a single candidate needs, apart from not being a duplicate: a qualified participant, for a
  human the group's own workspace, and an effective grant issued to exactly this participant for
  exactly this group.\<close>

fun candidate_ok :: "clock_parse \<Rightarrow> creation_input \<Rightarrow> group_candidate \<Rightarrow> bool" where
  "candidate_ok dp inp (Human_candidate userId workspaceId grant) \<longleftrightarrow>
     has_text userId \<and> workspaceId = gc_workspaceId inp
     \<and> (\<exists>g. grant = Some g \<and> ag_userId g = userId \<and> grant_identity g (gc_groupId inp) = None
          \<and> evaluateGroupGrantWindow dp g (gc_now inp) = Effective)"
| "candidate_ok dp inp (Agent_candidate a grant) \<longleftrightarrow>
     has_text (ai_agentId a) \<and> has_text (ai_workspaceId a)
     \<and> (\<exists>g. grant = Some g \<and> sameQualifiedAgentIdentity (eg_agent g) a \<and> grant_identity g (gc_groupId inp) = None
          \<and> evaluateGroupGrantWindow dp g (gc_now inp) = Effective)"

fun admission_for :: "creation_input \<Rightarrow> group_candidate \<Rightarrow> group_admission" where
  "admission_for inp (Human_candidate userId _ grant) = admission_from (gc_now inp) (the grant) (PUser userId)"
| "admission_for inp (Agent_candidate a grant) = admission_from (gc_now inp) (the grant) (PAgent (ai_agentId a))"

lemma grant_checks_None:
  "grant_checks dp inp seen g key = None \<longleftrightarrow>
     grant_identity g (gc_groupId inp) = None \<and> evaluateGroupGrantWindow dp g (gc_now inp) = Effective \<and> key \<notin> set seen"
  by (auto simp: grant_checks_def Let_def split: option.splits)

lemma check_candidate_Inr:
  "check_candidate dp inp seen c = Inr a \<longleftrightarrow>
     candidate_ok dp inp c \<and> candidate_key c \<notin> set seen \<and> a = admission_for inp c"
  by (cases c) (auto simp: grant_checks_def Let_def split: option.splits if_splits)

lemma creation_loop_exact:
  "(fst (creation_loop dp inp i seen cs) = [] \<longleftrightarrow>
     (\<forall>c\<in>set cs. candidate_ok dp inp c) \<and> distinct (map candidate_key cs)
     \<and> set (map candidate_key cs) \<inter> set seen = {})
   \<and> (fst (creation_loop dp inp i seen cs) = [] \<longrightarrow> snd (creation_loop dp inp i seen cs) = map (admission_for inp) cs)"
proof (induction cs arbitrary: i seen)
  case (Cons c cs)
  show ?case
  proof (cases "check_candidate dp inp seen c")
    case (Inl r)
    then have "\<not> (candidate_ok dp inp c \<and> candidate_key c \<notin> set seen)"
      using check_candidate_Inr [of dp inp seen c "admission_for inp c"] by auto
    with Inl show ?thesis by (auto simp: case_prod_beta Let_def)
  next
    case (Inr a)
    then have "candidate_ok dp inp c" "candidate_key c \<notin> set seen" "a = admission_for inp c"
      by (simp_all add: check_candidate_Inr)
    with Inr Cons.IH [of "Suc i" "candidate_key c # seen"] show ?thesis
      by (auto simp: case_prod_beta Let_def)
  qed
qed simp


text \<open>The duplicate test compares keys that join workspace and agent with a colon.\<close>

lemma agent_key_inj:
  assumes "CHR '':'' \<notin> set (ai_workspaceId a)" and "CHR '':'' \<notin> set (ai_workspaceId b)"
    and "workspaceQualifiedAgentKey a = workspaceQualifiedAgentKey b"
  shows "sameQualifiedAgentIdentity a b"
proof -
  have tw: "takeWhile (\<lambda>c. c \<noteq> CHR '':'') (w @ '':'' @ r) = w" if "CHR '':'' \<notin> set w" for w r
    using that by (induction w) auto
  from assms have "ai_workspaceId a = ai_workspaceId b"
    using tw [of "ai_workspaceId a" "ai_agentId a"] tw [of "ai_workspaceId b" "ai_agentId b"]
    by (simp add: workspaceQualifiedAgentKey_def)
  with assms(3) show ?thesis by (simp add: sameQualifiedAgentIdentity_def workspaceQualifiedAgentKey_def)
qed

section \<open>What the decisions rest on\<close>

text \<open>The contract the four decisions share: they say yes only to an admission whose grant is in force at
  the instant of the decision.\<close>

locale participation_gate =
  fixes dp :: clock_parse
    and allows :: "'i \<Rightarrow> bool"
    and admission :: "'i \<Rightarrow> group_admission option"
    and instant :: "'i \<Rightarrow> string"
  assumes allows_effective:
    "allows i \<Longrightarrow> \<exists>a. admission i = Some a \<and> evaluateGroupGrantWindow dp (ga_grant a) (instant i) = Effective"
begin

lemma stranger_denied: "admission i = None \<Longrightarrow> \<not> allows i"
  using allows_effective by fastforce

text \<open>A revocation that is unreadable, or that lies at or before the instant, denies.\<close>

lemma revoked_denied:
  assumes "admission i = Some a" and "gw_revokedAt (ga_grant a) = Some r"
    and "\<And>ms nowMs. dp r = Some ms \<Longrightarrow> dp (instant i) = Some nowMs \<Longrightarrow> ms \<le> nowMs"
  shows "\<not> allows i"
proof
  assume "allows i"
  with assms(1) have "evaluateGroupGrantWindow dp (ga_grant a) (instant i) = Effective"
    using allows_effective by fastforce
  then show False using assms(2,3) by (fastforce simp: window_effective_iff)
qed

end

definition history_allows :: "clock_parse \<Rightarrow> read_input \<Rightarrow> bool" where
  "history_allows dp inp \<longleftrightarrow> (\<exists>b st. decideGroupHistoryRead dp inp = Read_allow b st)"

definition summary_allows :: "clock_parse \<Rightarrow> read_input \<Rightarrow> bool" where
  "summary_allows dp inp \<longleftrightarrow> (\<exists>b st. decideGroupSummaryRead dp inp = Read_allow b st)"

definition turn_allows :: "clock_parse \<Rightarrow> turn_input \<Rightarrow> bool" where
  "turn_allows dp inp \<longleftrightarrow> decideGroupTurn dp inp = Turn_allow"

definition publishes :: "clock_parse \<Rightarrow> publication_input \<Rightarrow> bool" where
  "publishes dp inp \<longleftrightarrow> (\<exists>job. decideGroupPublication dp inp = Publish job)"

lemma decide_read_allow:
  "decide_read dp scope basis inp = Read_allow b st \<longleftrightarrow>
     (\<exists>a. rd_admission inp = Some a \<and> binding_identity (ga_authorization a) (rd_groupId inp) = None
        \<and> evaluateGroupGrantWindow dp (ga_grant a) (rd_now inp) = Effective \<and> st = Effective
        \<and> (if jp_joinedSequence (ga_joinPoint a) \<le> rd_sequence inp then b = Within_join_point
           else b = basis \<and> sharingGrantEffective dp (ga_participant a) (rd_groupId inp) (rd_now inp) scope (rd_sharingGrants inp)))"
  by (auto simp: decide_read_def Let_def split: option.splits if_splits)

lemma turn_allow_iff:
  "decideGroupTurn dp inp = Turn_allow \<longleftrightarrow>
     (\<exists>a. tn_admission inp = Some a \<and> binding_identity (ga_authorization a) (tn_groupId inp) = None
        \<and> evaluateGroupGrantWindow dp (ga_grant a) (tn_now inp) = Effective)"
  by (auto simp: decideGroupTurn_def Let_def split: option.splits if_splits)

lemma publish_iff:
  "decideGroupPublication dp inp = Publish job \<longleftrightarrow>
     job = cj_jobId (pb_job inp) \<and> pb_publisher inp = cj_participant (pb_job inp)
     \<and> (\<exists>a b. pb_admission inp = Some a \<and> ga_participant a = pb_publisher inp
          \<and> cj_authorization (pb_job inp) = Some b \<and> sameAuthorizationBinding b (ga_authorization a)
          \<and> evaluateGroupGrantWindow dp (ga_grant a) (pb_now inp) = Effective
          \<and> evaluateGroupGrantWindow dp (ga_grant a) (cj_completedAt (pb_job inp)) = Effective)"
  by (auto simp: decideGroupPublication_def Let_def split: option.splits if_splits)

interpretation history: participation_gate dp "history_allows dp" rd_admission rd_now for dp
  by unfold_locales (auto simp: history_allows_def decideGroupHistoryRead_def decide_read_allow)

interpretation summary: participation_gate dp "summary_allows dp" rd_admission rd_now for dp
  by unfold_locales (auto simp: summary_allows_def decideGroupSummaryRead_def decide_read_allow)

interpretation turn: participation_gate dp "turn_allows dp" tn_admission tn_now for dp
  by unfold_locales (auto simp: turn_allows_def turn_allow_iff)

interpretation publication: participation_gate dp "publishes dp" pb_admission pb_now for dp
  by unfold_locales (auto simp: publishes_def publish_iff)

text \<open>History and summaries are shown exactly to a member whose retained binding proves a grant of
  this very group, whose grant is in force, and who either reads from the join point on or holds an
  effective sharing grant of the right scope for this member and group. The two scopes never stand in
  for each other.\<close>

theorem group_read_exact:
  "(history_allows dp inp \<longleftrightarrow>
     (\<exists>a. rd_admission inp = Some a \<and> binding_identity (ga_authorization a) (rd_groupId inp) = None
        \<and> evaluateGroupGrantWindow dp (ga_grant a) (rd_now inp) = Effective
        \<and> (jp_joinedSequence (ga_joinPoint a) \<le> rd_sequence inp
           \<or> list_ex (\<lambda>g. sg_scope g = Earlier_history \<and> sg_participant g = ga_participant a
               \<and> grant_identity g (rd_groupId inp) = None \<and> evaluateGroupGrantWindow dp g (rd_now inp) = Effective)
               (rd_sharingGrants inp))))
   \<and> (summary_allows dp inp \<longleftrightarrow>
     (\<exists>a. rd_admission inp = Some a \<and> binding_identity (ga_authorization a) (rd_groupId inp) = None
        \<and> evaluateGroupGrantWindow dp (ga_grant a) (rd_now inp) = Effective
        \<and> (jp_joinedSequence (ga_joinPoint a) \<le> rd_sequence inp
           \<or> list_ex (\<lambda>g. sg_scope g = Earlier_summary \<and> sg_participant g = ga_participant a
               \<and> grant_identity g (rd_groupId inp) = None \<and> evaluateGroupGrantWindow dp g (rd_now inp) = Effective)
               (rd_sharingGrants inp))))"
  by (auto simp: history_allows_def summary_allows_def decideGroupHistoryRead_def decideGroupSummaryRead_def
      decide_read_allow sharingGrantEffective_def)

text \<open>C31: a revocation at or before the instant, or one that cannot be read, ends participation on every
  path at once: no history read, no summary read, no turn and no publication, whatever sharing grants,
  replacement grants or completed jobs exist.\<close>

theorem revocation_ends_participation:
  assumes "gw_revokedAt (ga_grant a) = Some r"
    and "case dp r of None \<Rightarrow> True | Some ms \<Rightarrow> (case dp now of None \<Rightarrow> True | Some nowMs \<Rightarrow> ms \<le> nowMs)"
  shows "\<not> history_allows dp \<lparr>rd_admission = Some a, rd_groupId = g, rd_sequence = n, rd_now = now, rd_sharingGrants = gs\<rparr>
    \<and> \<not> summary_allows dp \<lparr>rd_admission = Some a, rd_groupId = g, rd_sequence = n, rd_now = now, rd_sharingGrants = gs\<rparr>
    \<and> \<not> turn_allows dp \<lparr>tn_admission = Some a, tn_groupId = g, tn_now = now\<rparr>
    \<and> \<not> publishes dp \<lparr>pb_admission = Some a, pb_job = job, pb_now = now, pb_publisher = p\<rparr>"
proof -
  have late: "ms \<le> nowMs" if "dp r = Some ms" "dp now = Some nowMs" for ms nowMs using that assms(2) by simp
  have "\<not> history_allows dp \<lparr>rd_admission = Some a, rd_groupId = g, rd_sequence = n, rd_now = now, rd_sharingGrants = gs\<rparr>"
    by (rule history.revoked_denied [OF _ assms(1)]) (auto intro: late)
  moreover have "\<not> summary_allows dp \<lparr>rd_admission = Some a, rd_groupId = g, rd_sequence = n, rd_now = now, rd_sharingGrants = gs\<rparr>"
    by (rule summary.revoked_denied [OF _ assms(1)]) (auto intro: late)
  moreover have "\<not> turn_allows dp \<lparr>tn_admission = Some a, tn_groupId = g, tn_now = now\<rparr>"
    by (rule turn.revoked_denied [OF _ assms(1)]) (auto intro: late)
  moreover have "\<not> publishes dp \<lparr>pb_admission = Some a, pb_job = job, pb_now = now, pb_publisher = p\<rparr>"
    by (rule publication.revoked_denied [OF _ assms(1)]) (auto intro: late)
  ultimately show ?thesis by blast
qed

text \<open>A completed job is published exactly when the publisher is the participant the job was bound to,
  the binding the job retained is well formed and still the member's current one (same group, grant
  and revision, so a job of a superseded grant stays held), and the member's grant was in force at
  completion and is in force now.\<close>

theorem publication_exact:
  "decideGroupPublication dp inp = Publish job \<longleftrightarrow>
     job = cj_jobId (pb_job inp) \<and> pb_publisher inp = cj_participant (pb_job inp)
     \<and> (\<exists>a b. pb_admission inp = Some a \<and> ga_participant a = pb_publisher inp
          \<and> cj_authorization (pb_job inp) = Some b \<and> wellFormedBinding b \<and> b = ga_authorization a
          \<and> evaluateGroupGrantWindow dp (ga_grant a) (pb_now inp) = Effective
          \<and> evaluateGroupGrantWindow dp (ga_grant a) (cj_completedAt (pb_job inp)) = Effective)"
proof -
  have same: "sameAuthorizationBinding b c \<longleftrightarrow> wellFormedBinding b \<and> b = c" for b c
    by (cases b; cases c) (auto simp: sameAuthorizationBinding_def)
  show ?thesis unfolding publish_iff same by blast
qed

text \<open>A group once created lets each founder take a turn for as long as the grant window holds: the binding
  an admission retains passes the identity check of every later decision.\<close>

lemma admission_binding_valid:
  assumes "candidate_ok dp inp c"
  shows "binding_identity (ga_authorization (admission_for inp c)) (gc_groupId inp) = None"
  using assms by (cases c) (auto simp: admission_from_def binding_identity_def grant_identity_def)

lemma window_of_grantWindow: "evaluateGroupGrantWindow dp (grantWindow g) now = evaluateGroupGrantWindow dp g now"
  by (simp add: evaluateGroupGrantWindow_def grantWindow_def cong: option.case_cong if_cong)

lemma admission_window:
  assumes "candidate_ok dp inp c"
  shows "evaluateGroupGrantWindow dp (ga_grant (admission_for inp c)) (gc_now inp) = Effective"
  using assms by (cases c) (auto simp: admission_from_def window_of_grantWindow)

text \<open>Creation and the decisions fit together: every member of a created roster may take a turn and
  read the whole history of the new group at the instant of its creation.\<close>

theorem founders_participate:
  assumes "validateGroupCreation dp inp = Inr roster" and "a \<in> set roster" and "0 \<le> n"
  shows "turn_allows dp \<lparr>tn_admission = Some a, tn_groupId = gc_groupId inp, tn_now = gc_now inp\<rparr>
    \<and> history_allows dp \<lparr>rd_admission = Some a, rd_groupId = gc_groupId inp, rd_sequence = n,
           rd_now = gc_now inp, rd_sharingGrants = gs\<rparr>"
proof -
  from assms(1) have ok: "\<forall>c\<in>set (gc_candidates inp). candidate_ok dp inp c"
    and roster: "roster = map (admission_for inp) (gc_candidates inp)"
    using creation_loop_exact [of dp inp 0 "[]" "gc_candidates inp"]
    by (auto simp: validateGroupCreation_def Let_def case_prod_beta split: if_splits)
  with assms(2) obtain c where c: "candidate_ok dp inp c" "a = admission_for inp c" by auto
  have "jp_joinedSequence (ga_joinPoint a) = 0"
    using c(2) by (cases c) (simp_all add: admission_from_def joinPointAt_def GROUP_CREATION_JOIN_SEQUENCE_def)
  then show ?thesis
    using admission_binding_valid [OF c(1)] admission_window [OF c(1)] assms(3)
    by (simp_all add: c(2) turn_allows_def turn_allow_iff history_allows_def decideGroupHistoryRead_def decide_read_allow)
qed

section \<open>Witnesses\<close>

definition sample_clock :: clock_parse where
  "sample_clock s = map_of [(''t1'', 1), (''t2'', 2), (''t3'', 3)] s"

definition sample_audience :: audience_grant where
  "sample_audience = \<lparr>gw_expiresAt = None, gw_issuedAt = ''t1'', gw_revokedAt = Some ''t3'', gg_grantId = ''g1'',
     gg_revision = JNum (NInt 1), gg_groupId = ''grp'', ag_userId = ''ann''\<rparr>"

definition sample_creation :: creation_input where
  "sample_creation = \<lparr>gc_candidates = [Human_candidate ''ann'' ''ws'' (Some sample_audience)], gc_groupId = ''grp'',
     gc_now = ''t2'', gc_workspaceId = ''ws''\<rparr>"

definition sample_member :: group_admission where
  "sample_member = admission_from ''t2'' sample_audience (PUser ''ann'')"

theorem revocation_ends_participation_witness:
  "\<not> history_allows sample_clock \<lparr>rd_admission = Some sample_member, rd_groupId = ''grp'', rd_sequence = 5, rd_now = ''t3'', rd_sharingGrants = []\<rparr>
   \<and> \<not> turn_allows sample_clock \<lparr>tn_admission = Some sample_member, tn_groupId = ''grp'', tn_now = ''t3''\<rparr>"
proof -
  have "gw_revokedAt (ga_grant sample_member) = Some ''t3''"
    by (simp add: sample_member_def admission_from_def grantWindow_def sample_audience_def)
  from revocation_ends_participation [OF this, of sample_clock "''t3''"] show ?thesis
    by (simp add: sample_clock_def)
qed

theorem founders_participate_witness:
  "turn_allows sample_clock \<lparr>tn_admission = Some sample_member, tn_groupId = gc_groupId sample_creation, tn_now = gc_now sample_creation\<rparr>"
proof -
  have v: "validateGroupCreation sample_clock sample_creation = Inr [sample_member]" by code_simp
  show ?thesis using founders_participate [OF v, of sample_member 0] by simp
qed

end
