(* ===== verification/Event_Log.thy ===== *)
theory Event_Log
  imports Json Utf8
begin

text \<open>
  The durable workspace event log: the event contract (\<^verbatim>\<open>packages/db/src/event-contract.ts\<close>) and the
  append of an event inside a domain transaction (\<^verbatim>\<open>packages/db/src/transactions.ts\<close>, the tables of
  \<^verbatim>\<open>schema/events.ts\<close>). A table is a list of rows in insertion order; the transaction that runs the
  statements sees and changes the tables alone, and a raised error is the caller's rollback. How the
  database reads a uuid literal (\<open>uuid_in\<close>), the identifiers it generates and its clock are the
  arguments in \<open>db_env\<close>.
\<close>

section \<open>Contract\<close>

record event_contract =
  ct_schemaVersion :: nat
  ct_aggregateType :: string
  ct_aggregateIdKey :: "string option"

definition contract :: "string \<Rightarrow> nat \<Rightarrow> string \<Rightarrow> string option \<Rightarrow> string \<times> event_contract" where
  "contract name version aggregate key =
     (name, \<lparr>ct_schemaVersion = version, ct_aggregateType = aggregate, ct_aggregateIdKey = key\<rparr>)"

definition WORKSPACE_EVENT_CONTRACTS :: "(string \<times> event_contract) list" where
  "WORKSPACE_EVENT_CONTRACTS =
    [contract ''agent.archived'' 1 ''agent'' (Some ''agentId''),
     contract ''agent.created'' 1 ''agent'' (Some ''agentId''),
     contract ''agent.presentation_updated'' 1 ''agent'' (Some ''agentId''),
     contract ''agent.profile_changed'' 2 ''agent'' (Some ''agentId''),
     contract ''agent.project_assigned'' 1 ''agent'' (Some ''agentId''),
     contract ''artifact.availability_changed'' 1 ''artifact'' (Some ''artifactId''),
     contract ''artifact.created'' 1 ''artifact'' (Some ''artifactId''),
     contract ''artifact.deleted'' 1 ''artifact'' (Some ''artifactId''),
     contract ''channel.archived'' 1 ''channel'' (Some ''channelId''),
     contract ''channel.created'' 1 ''channel'' (Some ''channelId''),
     contract ''channel.read'' 1 ''channel'' (Some ''channelId''),
     contract ''channel.restored'' 1 ''channel'' (Some ''channelId''),
     contract ''channel.unread'' 1 ''channel'' (Some ''channelId''),
     contract ''channel.updated'' 2 ''channel'' (Some ''channelId''),
     contract ''content.availability_changed'' 1 ''content_ref'' (Some ''contentRefId''),
     contract ''message.created'' 1 ''message'' (Some ''messageId''),
     contract ''message.deleted'' 1 ''message'' (Some ''messageId''),
     contract ''message.updated'' 1 ''message'' (Some ''messageId''),
     contract ''project.archived'' 1 ''project'' (Some ''projectId''),
     contract ''project.created'' 1 ''project'' (Some ''projectId''),
     contract ''project.deleted'' 1 ''project'' (Some ''projectId''),
     contract ''project.members_changed'' 1 ''project'' (Some ''projectId''),
     contract ''project.reordered'' 1 ''project'' None,
     contract ''project.restored'' 1 ''project'' (Some ''projectId''),
     contract ''project.updated'' 1 ''project'' (Some ''projectId''),
     contract ''project.visibility_changed'' 1 ''project'' (Some ''projectId''),
     contract ''runtime_node.key_rotated'' 1 ''runtime_node'' (Some ''runtimeNodeId''),
     contract ''runtime_node.paired'' 1 ''runtime_node'' (Some ''runtimeNodeId''),
     contract ''runtime_node.proof_accepted'' 1 ''runtime_node'' (Some ''runtimeNodeId''),
     contract ''runtime_node.renamed'' 1 ''runtime_node'' (Some ''runtimeNodeId''),
     contract ''runtime_node.revoked'' 1 ''runtime_node'' (Some ''runtimeNodeId''),
     contract ''thread.read'' 1 ''channel'' (Some ''channelId''),
     contract ''thread.unread'' 1 ''channel'' (Some ''channelId''),
     contract ''task.archived'' 1 ''task'' (Some ''taskId''),
     contract ''task.artifacts_changed'' 1 ''task'' (Some ''taskId''),
     contract ''task.assigned'' 1 ''task'' (Some ''taskId''),
     contract ''task.cancelled'' 1 ''task'' (Some ''taskId''),
     contract ''task.completed'' 1 ''task'' (Some ''taskId''),
     contract ''task.conversation_changed'' 1 ''task'' (Some ''taskId''),
     contract ''task.dependencies_changed'' 1 ''task'' (Some ''taskId''),
     contract ''task.in_progress'' 1 ''task'' (Some ''taskId''),
     contract ''task.in_review'' 1 ''task'' (Some ''taskId''),
     contract ''task.queued'' 1 ''task'' (Some ''taskId''),
     contract ''task.submission_queued'' 1 ''task'' (Some ''taskId''),
     contract ''task.project_changed'' 1 ''task'' (Some ''taskId''),
     contract ''task.created'' 1 ''task'' (Some ''taskId''),
     contract ''task.updated'' 1 ''task'' (Some ''taskId''),
     contract ''workspace.archived'' 1 ''workspace'' None,
     contract ''workspace.created'' 1 ''workspace'' None,
     contract ''workspace.invitation_revoked'' 1 ''workspace'' None,
     contract ''workspace.member_invited'' 1 ''workspace'' None,
     contract ''workspace.member_joined'' 1 ''workspace'' None,
     contract ''workspace.read_all'' 1 ''workspace'' None,
     contract ''workspace.reopened'' 1 ''workspace'' None,
     contract ''workspace.updated'' 1 ''workspace'' None]"

definition FORBIDDEN_EVENT_PAYLOAD_KEYS :: "string list" where
  "FORBIDDEN_EVENT_PAYLOAD_KEYS =
    [''body'', ''bodyText'', ''plaintext'', ''prompt'', ''providerContent'',
     ''ciphertext'', ''contentKey'', ''contentKeys'', ''encryptedPayload'', ''keyEnvelope'', ''keyEnvelopes'',
     ''masterKey'', ''unwrappedKey'', ''wrappedKey'',
     ''accessToken'', ''email'', ''credential'', ''credentials'', ''localPath'', ''absolutePath'', ''refreshToken'',
     ''secret'', ''storageUrl'', ''token'', ''url'',
     ''animation'', ''audio'', ''bytes'', ''camera'', ''delta'', ''deltas'', ''tokens'', ''typing'']"

definition MAX_EVENT_PAYLOAD_BYTES :: int where "MAX_EVENT_PAYLOAD_BYTES = 8 * 1024"

datatype event_error =
    Unknown_event_type string
  | Missing_aggregate_id string
  | Forbidden_payload_key string
  | Payload_too_large

definition isWorkspaceEventType :: "string \<Rightarrow> bool" where
  "isWorkspaceEventType v \<longleftrightarrow> v \<in> set (map fst WORKSPACE_EVENT_CONTRACTS)"

definition resolveWorkspaceEventContract :: "string \<Rightarrow> event_error + event_contract" where
  "resolveWorkspaceEventContract eventType =
     (if \<not> isWorkspaceEventType eventType then Inl (Unknown_event_type eventType)
      else Inr (the (map_of WORKSPACE_EVENT_CONTRACTS eventType)))"

text \<open>\<open>path.join('.')\<close>\<close>

fun join_dots :: "string list \<Rightarrow> string" where
  "join_dots [] = []"
| "join_dots [s] = s"
| "join_dots (s # ss) = s @ ''.'' @ join_dots ss"

fun findForbiddenKey :: "json \<Rightarrow> string list \<Rightarrow> string option"
  and find_in_entries :: "json list \<Rightarrow> nat \<Rightarrow> string list \<Rightarrow> string option"
  and find_in_fields :: "(string \<times> json) list \<Rightarrow> string list \<Rightarrow> string option" where
  "findForbiddenKey (Json_arr vs) path = find_in_entries vs 0 path"
| "findForbiddenKey (Json_obj fs) path = find_in_fields fs path"
| "findForbiddenKey _ path = None"
| "find_in_entries [] i path = None"
| "find_in_entries (v # vs) i path =
     (case findForbiddenKey v (path @ [show_nat i]) of
        Some found \<Rightarrow> Some found
      | None \<Rightarrow> find_in_entries vs (Suc i) path)"
| "find_in_fields [] path = None"
| "find_in_fields ((k, v) # fs) path =
     (if k \<in> set FORBIDDEN_EVENT_PAYLOAD_KEYS then Some (join_dots (path @ [k]))
      else (case findForbiddenKey v (path @ [k]) of
              Some found \<Rightarrow> Some found
            | None \<Rightarrow> find_in_fields fs path))"

text \<open>\<open>Buffer.byteLength(s, 'utf8')\<close>; a character above 127 takes two bytes.\<close>

definition utf8_length :: "string \<Rightarrow> int" where
  "utf8_length s = int (length (text_encode (map of_char s)))"

lemma code_points_char: "code_points (map (of_char :: char \<Rightarrow> nat) s) = map of_char s"
proof (induction s)
  case (Cons c s)
  have "\<not> is_high (of_char c)" using nat_of_char_less_256 [of c] unfolding is_high_def by linarith
  with Cons show ?case by (cases s) simp_all
qed simp

lemma utf8_length_Cons:
  "utf8_length (c # s) = (if (of_char c :: nat) < 128 then 1 else 2) + utf8_length s"
proof -
  have "(of_char c :: nat) < 2048" using nat_of_char_less_256 [of c] by linarith
  then have "length (utf8_cp (of_char c)) = (if (of_char c :: nat) < 128 then 1 else 2)" by (simp add: utf8_cp_def)
  then show ?thesis using code_points_char [of "c # s"] by (simp add: utf8_length_def text_encode_def code_points_char)
qed

lemma of_char_high_bit: "(of_char (Char b0 b1 b2 b3 b4 b5 b6 b7) :: nat) < 128 \<longleftrightarrow> \<not> b7"
  by (simp add: of_char_def horner_sum_simps)

lemma utf8_length_code [code]:
  "utf8_length [] = 0"
  "utf8_length (Char b0 b1 b2 b3 b4 b5 b6 b7 # s) = (if b7 then 2 else 1) + utf8_length s"
  by (simp_all add: utf8_length_Cons of_char_high_bit) (simp add: utf8_length_def text_encode_def)

type_synonym payload = "(string \<times> json) list"

definition assertCloudSafeEventPayload :: "string \<Rightarrow> payload \<Rightarrow> event_error + unit" where
  "assertCloudSafeEventPayload eventType payload =
     (case resolveWorkspaceEventContract eventType of
        Inl e \<Rightarrow> Inl e
      | Inr c \<Rightarrow>
          if (case ct_aggregateIdKey c of None \<Rightarrow> False
                | Some key \<Rightarrow> (case map_of payload key of Some (Json_str _) \<Rightarrow> False | _ \<Rightarrow> True))
          then Inl (Missing_aggregate_id eventType)
          else (case findForbiddenKey (Json_obj payload) [] of
                  Some path \<Rightarrow> Inl (Forbidden_payload_key path)
                | None \<Rightarrow>
                    if utf8_length (stringify (Json_obj payload)) > MAX_EVENT_PAYLOAD_BYTES then Inl Payload_too_large
                    else Inr ()))"

section \<open>Append\<close>

record db_env =
  uuid_in :: "string \<Rightarrow> string"
  new_id :: "nat \<Rightarrow> string"
  clock_ms :: int

datatype actor_kind = Actor_user | Actor_agent | Actor_system | Actor_runtime_node

record event_input =
  ei_workspaceId :: string
  ei_eventType :: string
  ei_payload :: payload
  ei_actor :: "(actor_kind \<times> string) option"
  ei_correlationId :: "string option"
  ei_occurredAt :: "int option"

record event_row =
  ev_id :: string
  ev_workspaceId :: string
  ev_workspaceSequence :: nat
  ev_eventType :: string
  ev_schemaVersion :: nat
  ev_aggregateType :: string
  ev_aggregateId :: "string option"
  ev_actor :: "(actor_kind \<times> string) option"
  ev_correlationId :: "string option"
  ev_payload :: payload
  ev_occurredAt :: int

record dispatch_row =
  ds_eventId :: string
  ds_workspaceId :: string
  ds_workspaceSequence :: nat
  ds_notifiedAt :: "int option"
  ds_attempts :: nat

record event_db =
  sequence_rows :: "(string \<times> nat) list"
  event_rows :: "event_row list"
  dispatch_rows :: "dispatch_row list"

definition derivedActor :: "payload \<Rightarrow> (actor_kind \<times> string) option" where
  "derivedActor payload =
     (let candidate = (case map_of payload ''actorUserId'' of
                         None \<Rightarrow> map_of payload ''ownerUserId''
                       | Some Json_null \<Rightarrow> map_of payload ''ownerUserId''
                       | Some v \<Rightarrow> Some v) in
      case candidate of Some (Json_str s) \<Rightarrow> Some (Actor_user, s) | _ \<Rightarrow> None)"

text \<open>The upsert on the sequence row of one workspace.\<close>

fun upsert_sequence :: "string \<Rightarrow> (string \<times> nat) list \<Rightarrow> (string \<times> nat) list" where
  "upsert_sequence ws [] = [(ws, 1)]"
| "upsert_sequence ws ((w, n) # rows) =
     (if w = ws then (w, n + 1) # rows else (w, n) # upsert_sequence ws rows)"

definition last_sequence :: "string \<Rightarrow> (string \<times> nat) list \<Rightarrow> nat" where
  "last_sequence ws rows = (case map_of rows ws of None \<Rightarrow> 0 | Some n \<Rightarrow> n)"

definition allocateWorkspaceSequence :: "db_env \<Rightarrow> string \<Rightarrow> 'a event_db_scheme \<Rightarrow> nat \<times> 'a event_db_scheme" where
  "allocateWorkspaceSequence env workspaceId db =
     (let rows = upsert_sequence (uuid_in env workspaceId) (sequence_rows db) in
      (last_sequence (uuid_in env workspaceId) rows, db\<lparr>sequence_rows := rows\<rparr>))"

definition lockWorkspaceEventSequence :: "db_env \<Rightarrow> string \<Rightarrow> 'a event_db_scheme \<Rightarrow> 'a event_db_scheme" where
  "lockWorkspaceEventSequence env workspaceId db =
     (if uuid_in env workspaceId \<in> set (map fst (sequence_rows db)) then db
      else db\<lparr>sequence_rows := sequence_rows db @ [(uuid_in env workspaceId, 0)]\<rparr>)"

definition string_of_field :: "json option \<Rightarrow> string" where
  "string_of_field v = (case v of Some (Json_str s) \<Rightarrow> s | _ \<Rightarrow> [])"

text \<open>How many events were ever appended; a generated id is the \<open>new_id\<close> of that number.\<close>

definition events_ever :: "'a event_db_scheme \<Rightarrow> nat" where
  "events_ever db = sum_list (map snd (sequence_rows db))"

text \<open>The row an append inserts, once the contract and the sequence are known.\<close>

definition row_of :: "db_env \<Rightarrow> event_contract \<Rightarrow> nat \<Rightarrow> nat \<Rightarrow> event_input \<Rightarrow> event_row" where
  "row_of env c position seq event =
     \<lparr>ev_id = new_id env position, ev_workspaceId = uuid_in env (ei_workspaceId event), ev_workspaceSequence = seq,
      ev_eventType = ei_eventType event, ev_schemaVersion = ct_schemaVersion c, ev_aggregateType = ct_aggregateType c,
      ev_aggregateId = map_option (\<lambda>key. string_of_field (map_of (ei_payload event) key)) (ct_aggregateIdKey c),
      ev_actor = (case ei_actor event of None \<Rightarrow> derivedActor (ei_payload event) | Some a \<Rightarrow> Some a),
      ev_correlationId = (case ei_correlationId event of Some s \<Rightarrow> if s = [] then None else Some s | None \<Rightarrow> None),
      ev_payload = ei_payload event,
      ev_occurredAt = (case ei_occurredAt event of Some t \<Rightarrow> t | None \<Rightarrow> clock_ms env)\<rparr>"

definition appendWorkspaceEvent ::
  "db_env \<Rightarrow> event_input \<Rightarrow> 'a event_db_scheme \<Rightarrow> event_error + event_row \<times> 'a event_db_scheme" where
  "appendWorkspaceEvent env event db =
     (case resolveWorkspaceEventContract (ei_eventType event) of
        Inl e \<Rightarrow> Inl e
      | Inr c \<Rightarrow>
          (case assertCloudSafeEventPayload (ei_eventType event) (ei_payload event) of
             Inl e \<Rightarrow> Inl e
           | Inr _ \<Rightarrow>
               let (seq, db1) = allocateWorkspaceSequence env (ei_workspaceId event) db;
                   row = row_of env c (events_ever db) seq event in
               Inr (row, db1\<lparr>event_rows := event_rows db1 @ [row],
                     dispatch_rows := dispatch_rows db1 @
                       [\<lparr>ds_eventId = ev_id row, ds_workspaceId = ev_workspaceId row, ds_workspaceSequence = seq,
                         ds_notifiedAt = None, ds_attempts = 0\<rparr>]\<rparr>)))"

text \<open>The append as a statement of a transaction whose errors are \<open>h e\<close>, with the defaults of most callers.\<close>

definition append_tx :: "(event_error \<Rightarrow> 'e) \<Rightarrow> db_env \<Rightarrow> string \<Rightarrow> string \<Rightarrow> payload \<Rightarrow> ('a event_db_scheme, 'e, unit) trans" where
  "append_tx h env workspaceId eventType payload db =
     (case appendWorkspaceEvent env \<lparr>ei_workspaceId = workspaceId, ei_eventType = eventType, ei_payload = payload,
         ei_actor = None, ei_correlationId = None, ei_occurredAt = None\<rparr> db of
        Inl e \<Rightarrow> Inl (h e) | Inr (_, db') \<Rightarrow> Inr ((), db'))"

lemma append_txE:
  assumes "append_tx h env ws t p db = Inr (a, db')"
  obtains row where "appendWorkspaceEvent env \<lparr>ei_workspaceId = ws, ei_eventType = t, ei_payload = p,
      ei_actor = None, ei_correlationId = None, ei_occurredAt = None\<rparr> db = Inr (row, db')"
  using assms by (auto simp: append_tx_def split: sum.splits)

section \<open>What the log holds\<close>

lemma last_sequence_upsert:
  "last_sequence w (upsert_sequence ws rows) = (if w = ws then last_sequence ws rows + 1 else last_sequence w rows)"
  by (induction rows) (auto simp: last_sequence_def)

text \<open>A key occurs anywhere in a payload.\<close>

fun has_key :: "string list \<Rightarrow> json \<Rightarrow> bool" where
  "has_key ks (Json_arr vs) = (\<exists>v\<in>set vs. has_key ks v)"
| "has_key ks (Json_obj fs) = (\<exists>f\<in>set fs. fst f \<in> set ks \<or> has_key ks (snd f))"
| "has_key ks _ = False"

lemma findForbiddenKey_None:
  "findForbiddenKey v path = None \<longleftrightarrow> \<not> has_key FORBIDDEN_EVENT_PAYLOAD_KEYS v"
  "find_in_entries vs i path = None \<longleftrightarrow> (\<forall>v\<in>set vs. \<not> has_key FORBIDDEN_EVENT_PAYLOAD_KEYS v)"
  "find_in_fields fs path = None \<longleftrightarrow>
     (\<forall>f\<in>set fs. fst f \<notin> set FORBIDDEN_EVENT_PAYLOAD_KEYS \<and> \<not> has_key FORBIDDEN_EVENT_PAYLOAD_KEYS (snd f))"
  by (induction v path and vs i path and fs path rule: findForbiddenKey_find_in_entries_find_in_fields.induct)
    (auto split: option.splits)

text \<open>The events of one workspace, in log order.\<close>

definition events_of :: "string \<Rightarrow> 'a event_db_scheme \<Rightarrow> event_row list" where
  "events_of ws db = filter (\<lambda>e. ev_workspaceId e = ws) (event_rows db)"

definition event_ok :: "event_row \<Rightarrow> bool" where
  "event_ok e \<longleftrightarrow> (\<exists>c. map_of WORKSPACE_EVENT_CONTRACTS (ev_eventType e) = Some c
      \<and> ev_schemaVersion e = ct_schemaVersion c \<and> ev_aggregateType e = ct_aggregateType c
      \<and> (\<forall>key. ct_aggregateIdKey c = Some key \<longrightarrow> (\<exists>s. map_of (ev_payload e) key = Some (Json_str s) \<and> ev_aggregateId e = Some s)))
    \<and> \<not> has_key FORBIDDEN_EVENT_PAYLOAD_KEYS (Json_obj (ev_payload e))
    \<and> utf8_length (stringify (Json_obj (ev_payload e))) \<le> MAX_EVENT_PAYLOAD_BYTES"

definition event_key :: "event_row \<Rightarrow> string \<times> string \<times> nat" where
  "event_key e = (ev_id e, ev_workspaceId e, ev_workspaceSequence e)"

definition dispatch_key :: "dispatch_row \<Rightarrow> string \<times> string \<times> nat" where
  "dispatch_key d = (ds_eventId d, ds_workspaceId d, ds_workspaceSequence d)"

text \<open>The log of every workspace is numbered \<open>1, 2, \<dots>\<close> without gap up to its sequence row, every event obeys
  its contract, and there is one dispatch record per event.\<close>

definition log_inv :: "'a event_db_scheme \<Rightarrow> bool" where
  "log_inv db \<longleftrightarrow>
     (\<forall>ws. map ev_workspaceSequence (events_of ws db) = [1..<Suc (last_sequence ws (sequence_rows db))])
     \<and> (\<forall>e\<in>set (event_rows db). event_ok e)
     \<and> map dispatch_key (dispatch_rows db) = map event_key (event_rows db)"

lemma appendE:
  assumes "appendWorkspaceEvent env event db = Inr (row, db')"
  obtains c where "map_of WORKSPACE_EVENT_CONTRACTS (ei_eventType event) = Some c"
    "assertCloudSafeEventPayload (ei_eventType event) (ei_payload event) = Inr ()"
    "row = row_of env c (events_ever db) (last_sequence (ev_workspaceId row) (sequence_rows db) + 1) event"
    "db' = db\<lparr>sequence_rows := upsert_sequence (ev_workspaceId row) (sequence_rows db),
       event_rows := event_rows db @ [row],
       dispatch_rows := dispatch_rows db @ [\<lparr>ds_eventId = ev_id row, ds_workspaceId = ev_workspaceId row,
         ds_workspaceSequence = ev_workspaceSequence row, ds_notifiedAt = None, ds_attempts = 0\<rparr>]\<rparr>"
proof -
  have "isWorkspaceEventType (ei_eventType event)"
    using assms by (auto simp: appendWorkspaceEvent_def resolveWorkspaceEventContract_def split: if_splits)
  then obtain c where c: "map_of WORKSPACE_EVENT_CONTRACTS (ei_eventType event) = Some c"
    by (metis isWorkspaceEventType_def map_of_eq_None_iff not_Some_eq set_map)
  show ?thesis
    by (rule that [OF c]) (use assms c in \<open>auto simp: appendWorkspaceEvent_def resolveWorkspaceEventContract_def
        allocateWorkspaceSequence_def row_of_def last_sequence_upsert Let_def split: sum.splits if_splits\<close>)
qed

lemma assert_safeE:
  assumes "assertCloudSafeEventPayload t p = Inr ()" and "map_of WORKSPACE_EVENT_CONTRACTS t = Some c"
  shows "\<not> has_key FORBIDDEN_EVENT_PAYLOAD_KEYS (Json_obj p)"
    and "utf8_length (stringify (Json_obj p)) \<le> MAX_EVENT_PAYLOAD_BYTES"
    and "ct_aggregateIdKey c = Some key \<Longrightarrow> \<exists>s. map_of p key = Some (Json_str s)"
proof -
  from assms have r: "resolveWorkspaceEventContract t = Inr c"
    by (auto simp: assertCloudSafeEventPayload_def resolveWorkspaceEventContract_def split: sum.splits if_splits)
  with assms(1) show "\<not> has_key FORBIDDEN_EVENT_PAYLOAD_KEYS (Json_obj p)"
    by (simp add: assertCloudSafeEventPayload_def findForbiddenKey_None [symmetric, where path = "[]"]
        del: findForbiddenKey.simps has_key.simps split: if_splits option.splits)
  from r assms(1) show "utf8_length (stringify (Json_obj p)) \<le> MAX_EVENT_PAYLOAD_BYTES"
    by (auto simp: assertCloudSafeEventPayload_def simp del: stringify.simps split: if_splits option.splits)
  from r assms(1) show "ct_aggregateIdKey c = Some key \<Longrightarrow> \<exists>s. map_of p key = Some (Json_str s)"
    by (auto simp: assertCloudSafeEventPayload_def split: if_splits option.splits json.splits)
qed

lemma append_keeps_log:
  assumes "log_inv db" and "appendWorkspaceEvent env event db = Inr (row, db')"
  shows "log_inv db'"
proof -
  from assms(2) obtain c where c: "map_of WORKSPACE_EVENT_CONTRACTS (ei_eventType event) = Some c"
    "assertCloudSafeEventPayload (ei_eventType event) (ei_payload event) = Inr ()"
    and row: "row = row_of env c (events_ever db) (last_sequence (ev_workspaceId row) (sequence_rows db) + 1) event"
    and db': "db' = db\<lparr>sequence_rows := upsert_sequence (ev_workspaceId row) (sequence_rows db),
       event_rows := event_rows db @ [row],
       dispatch_rows := dispatch_rows db @ [\<lparr>ds_eventId = ev_id row, ds_workspaceId = ev_workspaceId row,
         ds_workspaceSequence = ev_workspaceSequence row, ds_notifiedAt = None, ds_attempts = 0\<rparr>]\<rparr>"
    by (rule appendE)
  have seq: "ev_workspaceSequence row = last_sequence (ev_workspaceId row) (sequence_rows db) + 1"
    by (subst row) (simp add: row_of_def)
  have "event_ok row"
    using assert_safeE [OF c(2,1)] c(1) by (subst row) (fastforce simp: event_ok_def row_of_def string_of_field_def)
  with assms(1) seq show ?thesis
    by (auto simp: log_inv_def db' events_of_def last_sequence_upsert event_key_def dispatch_key_def)
qed

text \<open>Any sequence of appends, each in its own transaction: a refused one is rolled back.\<close>

fun run_appends :: "db_env \<Rightarrow> event_input list \<Rightarrow> 'a event_db_scheme \<Rightarrow> 'a event_db_scheme" where
  "run_appends env [] db = db"
| "run_appends env (e # es) db =
     (case appendWorkspaceEvent env e db of Inl _ \<Rightarrow> run_appends env es db | Inr (_, db') \<Rightarrow> run_appends env es db')"

definition empty_log :: event_db where
  "empty_log = \<lparr>sequence_rows = [], event_rows = [], dispatch_rows = []\<rparr>"

lemma run_appends_inv: "log_inv db \<Longrightarrow> log_inv (run_appends env es db)"
  by (induction es arbitrary: db) (auto split: sum.splits dest: append_keeps_log)

lemma empty_log_inv: "log_inv empty_log"
  by (simp add: log_inv_def empty_log_def events_of_def last_sequence_def)

text \<open>C19: whatever appends are attempted, in each workspace the committed events are numbered 1, 2, 3, ... in
  log order without a gap or a repetition, every committed event obeys its registered contract and
  carries no forbidden key at any depth, and each has exactly one dispatch record.\<close>

theorem event_log_gap_free:
  "map ev_workspaceSequence (events_of ws (run_appends env es empty_log))
     = [1..<Suc (length (events_of ws (run_appends env es empty_log)))]
   \<and> list_all event_ok (event_rows (run_appends env es empty_log))
   \<and> map ds_eventId (dispatch_rows (run_appends env es empty_log)) = map ev_id (event_rows (run_appends env es empty_log))"
proof -
  let ?db = "run_appends env es empty_log"
  have inv: "log_inv ?db" by (rule run_appends_inv [OF empty_log_inv])
  then have m: "map ev_workspaceSequence (events_of ws ?db) = [1..<Suc (last_sequence ws (sequence_rows ?db))]"
    unfolding log_inv_def by blast
  then have "length (events_of ws ?db) = last_sequence ws (sequence_rows ?db)"
    by (metis diff_Suc_1 length_map length_upt)
  moreover from inv have "map fst (map dispatch_key (dispatch_rows ?db)) = map fst (map event_key (event_rows ?db))"
    unfolding log_inv_def by simp
  ultimately show ?thesis using m inv by (simp add: log_inv_def list_all_iff dispatch_key_def event_key_def comp_def)
qed

end
