(* ===== verification/Project_Access.thy ===== *)
theory Project_Access
  imports Event_Log "HOL-Library.List_Lexorder" "HOL-Library.Char_ord" "HOL-Library.Product_Lexorder"
begin

text \<open>
  Who may see and change a project: the tables of \<^verbatim>\<open>packages/db/src/schema/projects.ts\<close> and of
  \<^verbatim>\<open>schema/conversations.ts\<close> as far as projects use them, and the access scopes of
  \<^verbatim>\<open>packages/db/src/project-access.ts\<close>. A uuid column holds the canonical spelling of its value, and a
  comparison with a literal reads the literal with \<open>uuid_in\<close>; comparisons made by the program itself
  (\<open>includes\<close>, \<open>has\<close>, \<open>!==\<close>) are plain string comparisons.
\<close>

section \<open>Tables\<close>

datatype workspace_role = Owner | Admin | Member

datatype project_lifecycle = PActive | PArchived

datatype project_visibility = Workspace_visible | Members_only

datatype member_role = Viewer | Editor

datatype archive_source = Individual | Project_cascade

record membership_row =
  ms_workspaceId :: string
  ms_userId :: string
  ms_role :: workspace_role
  ms_sortOrder :: int
  ms_createdAt :: int

record project_row =
  pj_id :: string
  pj_workspaceId :: string
  pj_name :: string
  pj_iconKey :: string
  pj_accent :: "string option"
  pj_sourceKind :: string
  pj_sortOrder :: int
  pj_lifecycle :: project_lifecycle
  pj_version :: int
  pj_visibility :: project_visibility
  pj_createdAt :: int
  pj_updatedAt :: int
  pj_deletedAt :: "int option"

record member_row =
  pm_workspaceId :: string
  pm_projectId :: string
  pm_userId :: string
  pm_role :: member_role
  pm_createdAt :: int
  pm_updatedAt :: int

record channel_row =
  ch_id :: string
  ch_workspaceId :: string
  ch_kind :: string
  ch_projectId :: "string option"
  ch_title :: string
  ch_isPrimary :: bool
  ch_sortOrder :: int
  ch_lifecycle :: project_lifecycle
  ch_archiveSource :: archive_source
  ch_idempotencyKey :: string
  ch_version :: int
  ch_updatedAt :: int

record product_db = event_db +
  membership_rows :: "membership_row list"
  user_rows :: "(string \<times> string option) list"   \<comment> \<open>id and display name\<close>
  project_rows :: "project_row list"
  member_rows :: "member_row list"
  channel_rows :: "channel_row list"

text \<open>\<open>UPDATE \<dots> SET \<dots> WHERE p\<close>, and the first row it returns.\<close>

definition update_where :: "('a \<Rightarrow> bool) \<Rightarrow> ('a \<Rightarrow> 'a) \<Rightarrow> 'a list \<Rightarrow> 'a list" where
  "update_where p f rows = map (\<lambda>r. if p r then f r else r) rows"

definition returning :: "('a \<Rightarrow> bool) \<Rightarrow> ('a \<Rightarrow> 'a) \<Rightarrow> 'a list \<Rightarrow> 'a option" where
  "returning p f rows = map_option f (find p rows)"

section \<open>Access scopes\<close>

record access_scope =
  sc_hiddenProjectIds :: "string list"
  sc_memberRoles :: "(string \<times> member_role) list"
  sc_membersOnlyProjectIds :: "string list"
  sc_privileged :: bool
  sc_role :: workspace_role
  sc_userId :: string

text \<open>The left join: each members-only project once per listed user among \<open>ids\<close>, or once with no member.\<close>

definition join_rows :: "db_env \<Rightarrow> product_db \<Rightarrow> string list \<Rightarrow> project_row \<Rightarrow> (string \<times> (string \<times> member_role) option) list" where
  "join_rows env db ids p =
     (let joined = filter (\<lambda>m. pm_projectId m = pj_id p \<and> pm_userId m \<in> set (map (uuid_in env) ids)) (member_rows db) in
      if joined = [] then [(pj_id p, None)] else map (\<lambda>m. (pj_id p, Some (pm_userId m, pm_role m))) joined)"

definition scope_join :: "db_env \<Rightarrow> product_db \<Rightarrow> string \<Rightarrow> string list \<Rightarrow> (string \<times> (string \<times> member_role) option) list" where
  "scope_join env db workspaceId ids =
     concat (map (join_rows env db ids)
       (filter (\<lambda>p. pj_workspaceId p = uuid_in env workspaceId \<and> pj_visibility p = Members_only) (project_rows db)))"

definition member_roles_of :: "string \<Rightarrow> (string \<times> (string \<times> member_role) option) list \<Rightarrow> (string \<times> member_role) list" where
  "member_roles_of userId rows =
     List.map_filter (\<lambda>(pid, m). case m of Some (u, role) \<Rightarrow> if u = userId then Some (pid, role) else None | None \<Rightarrow> None) rows"

definition scope_of :: "(string \<times> (string \<times> member_role) option) list \<Rightarrow> membership_row \<Rightarrow> access_scope" where
  "scope_of rows membership =
     (let privileged = (ms_role membership = Owner \<or> ms_role membership = Admin);
          memberRoles = member_roles_of (ms_userId membership) rows;
          membersOnly = js_dedupe [] (map fst rows) in
      \<lparr>sc_hiddenProjectIds = (if privileged then [] else filter (\<lambda>i. i \<notin> set (map fst memberRoles)) membersOnly),
       sc_memberRoles = memberRoles, sc_membersOnlyProjectIds = membersOnly, sc_privileged = privileged,
       sc_role = ms_role membership, sc_userId = ms_userId membership\<rparr>)"

definition resolveProjectAccessScopes :: "db_env \<Rightarrow> product_db \<Rightarrow> string \<Rightarrow> string list \<Rightarrow> (string \<times> access_scope) list" where
  "resolveProjectAccessScopes env db workspaceId userIds =
     (let ids = js_dedupe [] userIds;
          memberships = filter (\<lambda>m. ms_workspaceId m = uuid_in env workspaceId \<and> ms_userId m \<in> set (map (uuid_in env) ids))
            (membership_rows db) in
      if ids = [] \<or> memberships = [] then []
      else map (\<lambda>m. (ms_userId m, scope_of (scope_join env db workspaceId ids) m)) memberships)"

text \<open>A \<open>Map\<close> keeps the last value set for a key.\<close>

definition resolveProjectAccessScope :: "db_env \<Rightarrow> product_db \<Rightarrow> string \<Rightarrow> string \<Rightarrow> access_scope option" where
  "resolveProjectAccessScope env db workspaceId userId =
     map_of (rev (resolveProjectAccessScopes env db workspaceId [userId])) userId"

datatype promotion_refusal =
  Refuse_unavailable | Promotion_deleted | Promotion_state_invalid | Promotion_stale | Promotion_not_confirmed

datatype project_error =
    Project_unavailable
  | Project_read_only
  | Project_id_invalid
  | Project_id_conflict
  | Project_order_conflict
  | Project_sharing_forbidden
  | Project_member_unavailable
  | Primary_channel_conflict
  | Channel_version_conflict
  | State_conflict
  | Promotion_refused promotion_refusal
  | Constraint_violated
  | Event_refused event_error

definition requireProjectAccessScope :: "db_env \<Rightarrow> product_db \<Rightarrow> string \<Rightarrow> string \<Rightarrow> project_error + access_scope" where
  "requireProjectAccessScope env db workspaceId userId =
     (case resolveProjectAccessScope env db workspaceId userId of
        None \<Rightarrow> Inl Project_unavailable | Some scope \<Rightarrow> Inr scope)"

definition canReadProject :: "access_scope \<Rightarrow> string option \<Rightarrow> bool" where
  "canReadProject scope projectId =
     (case projectId of None \<Rightarrow> True | Some i \<Rightarrow> i = [] \<or> i \<notin> set (sc_hiddenProjectIds scope))"

definition canWriteProject :: "access_scope \<Rightarrow> string option \<Rightarrow> bool" where
  "canWriteProject scope projectId =
     (case projectId of
        None \<Rightarrow> True
      | Some i \<Rightarrow> i = [] \<or> sc_privileged scope \<or> i \<notin> set (sc_membersOnlyProjectIds scope)
          \<or> map_of (rev (sc_memberRoles scope)) i = Some Editor)"

definition requireProjectWrite :: "access_scope \<Rightarrow> string option \<Rightarrow> project_error + unit" where
  "requireProjectWrite scope projectId =
     (if \<not> canReadProject scope projectId then Inl Project_unavailable
      else if \<not> canWriteProject scope projectId then Inl Project_read_only
      else Inr ())"

text \<open>The row predicate of \<open>visibleProjectCondition\<close>: a null project column passes.\<close>

definition visibleProjectCondition :: "access_scope \<Rightarrow> string option \<Rightarrow> bool" where
  "visibleProjectCondition scope column =
     (case column of None \<Rightarrow> True | Some i \<Rightarrow> i \<notin> set (sc_hiddenProjectIds scope))"

section \<open>Reference definition of access\<close>

text \<open>A workspace member sees every workspace project; a members-only project is seen by owners, admins and
  the users listed on it; listed editors, owners and admins may change it.\<close>

definition role_in :: "product_db \<Rightarrow> string \<Rightarrow> string \<Rightarrow> workspace_role option" where
  "role_in db ws user = map_option ms_role (find (\<lambda>m. ms_workspaceId m = ws \<and> ms_userId m = user) (membership_rows db))"

definition listed_as :: "product_db \<Rightarrow> string \<Rightarrow> string \<Rightarrow> member_role option" where
  "listed_as db pid user = map_option pm_role (find (\<lambda>m. pm_projectId m = pid \<and> pm_userId m = user) (member_rows db))"

definition may_see :: "product_db \<Rightarrow> string \<Rightarrow> string \<Rightarrow> project_row \<Rightarrow> bool" where
  "may_see db ws user p \<longleftrightarrow> (\<exists>r. role_in db ws user = Some r
     \<and> (pj_visibility p = Workspace_visible \<or> r = Owner \<or> r = Admin \<or> listed_as db (pj_id p) user \<noteq> None))"

definition may_change :: "product_db \<Rightarrow> string \<Rightarrow> string \<Rightarrow> project_row \<Rightarrow> bool" where
  "may_change db ws user p \<longleftrightarrow> (\<exists>r. role_in db ws user = Some r
     \<and> (pj_visibility p = Workspace_visible \<or> r = Owner \<or> r = Admin \<or> listed_as db (pj_id p) user = Some Editor))"

text \<open>The unique constraints of the tables, and canonical spelling of everything stored.\<close>

definition tables_ok :: "db_env \<Rightarrow> product_db \<Rightarrow> bool" where
  "tables_ok env db \<longleftrightarrow>
     distinct (map pj_id (project_rows db)) \<and> distinct (map ch_id (channel_rows db))
     \<and> distinct (map (\<lambda>m. (ms_workspaceId m, ms_userId m)) (membership_rows db))
     \<and> distinct (map (\<lambda>m. (pm_projectId m, pm_userId m)) (member_rows db))
     \<and> (\<forall>p\<in>set (project_rows db). uuid_in env (pj_id p) = pj_id p \<and> pj_id p \<noteq> [])"

section \<open>The computed scope is the reference\<close>

definition members_only_ids :: "db_env \<Rightarrow> product_db \<Rightarrow> string \<Rightarrow> string set" where
  "members_only_ids env db ws =
     {pj_id p | p. p \<in> set (project_rows db) \<and> pj_workspaceId p = uuid_in env ws \<and> pj_visibility p = Members_only}"

lemma join_rows_fst: "fst ` set (join_rows env db ids p) = {pj_id p}"
proof -
  have "fst ` set (if J = [] then [(i, None)] else map (\<lambda>m. (i, Some (g m))) J) = {i}" for i g and J :: "member_row list"
    by (cases J) auto
  then show ?thesis unfolding join_rows_def Let_def .
qed

lemma join_rows_Some:
  "(pid, Some (u, role)) \<in> set (join_rows env db [user] p) \<longleftrightarrow>
     pid = pj_id p \<and> u = uuid_in env user
     \<and> (\<exists>m\<in>set (member_rows db). pm_projectId m = pid \<and> pm_userId m = u \<and> pm_role m = role)"
  unfolding join_rows_def Let_def by (auto simp: filter_empty_conv image_iff)

lemma scope_join_fst: "fst ` set (scope_join env db ws ids) = members_only_ids env db ws"
  by (auto simp: scope_join_def members_only_ids_def image_UN join_rows_fst)

lemma scope_join_Some:
  "(pid, Some (u, role)) \<in> set (scope_join env db ws [user]) \<longleftrightarrow>
     pid \<in> members_only_ids env db ws \<and> u = uuid_in env user
     \<and> (\<exists>m\<in>set (member_rows db). pm_projectId m = pid \<and> pm_userId m = u \<and> pm_role m = role)"
  unfolding scope_join_def members_only_ids_def set_concat set_map UN_iff image_iff Union_iff
  by (auto simp: join_rows_Some)

lemma member_roles_mem:
  "(pid, role) \<in> set (member_roles_of u rows) \<longleftrightarrow> (pid, Some (u, role)) \<in> set rows"
  by (force simp: member_roles_of_def map_filter_def split: option.splits if_splits)

lemma find_unique:
  assumes "distinct (map f xs)" and "x \<in> set xs" and "\<And>y. P y \<longleftrightarrow> f y = f x"
  shows "find P xs = Some x"
  using assms by (induction xs) (auto simp: rev_image_eqI)

lemma listed_as_iff:
  assumes "distinct (map (\<lambda>m. (pm_projectId m, pm_userId m)) (member_rows db))"
  shows "listed_as db pid u = Some role \<longleftrightarrow>
     (\<exists>m\<in>set (member_rows db). pm_projectId m = pid \<and> pm_userId m = u \<and> pm_role m = role)"
proof
  assume "listed_as db pid u = Some role"
  then show "\<exists>m\<in>set (member_rows db). pm_projectId m = pid \<and> pm_userId m = u \<and> pm_role m = role"
    by (auto simp: listed_as_def dest: find_Some_mem)
next
  assume "\<exists>m\<in>set (member_rows db). pm_projectId m = pid \<and> pm_userId m = u \<and> pm_role m = role"
  then obtain m where m: "m \<in> set (member_rows db)" "pm_projectId m = pid" "pm_userId m = u" "pm_role m = role" by blast
  have "find (\<lambda>m. pm_projectId m = pid \<and> pm_userId m = u) (member_rows db) = Some m"
    by (rule find_unique [OF assms m(1)]) (use m in auto)
  with m(4) show "listed_as db pid u = Some role" by (simp add: listed_as_def)
qed

lemma role_in_iff:
  assumes "distinct (map (\<lambda>m. (ms_workspaceId m, ms_userId m)) (membership_rows db))"
  shows "role_in db ws u = Some role \<longleftrightarrow>
     (\<exists>m\<in>set (membership_rows db). ms_workspaceId m = ws \<and> ms_userId m = u \<and> ms_role m = role)"
proof
  assume "role_in db ws u = Some role"
  then show "\<exists>m\<in>set (membership_rows db). ms_workspaceId m = ws \<and> ms_userId m = u \<and> ms_role m = role"
    by (auto simp: role_in_def dest: find_Some_mem)
next
  assume "\<exists>m\<in>set (membership_rows db). ms_workspaceId m = ws \<and> ms_userId m = u \<and> ms_role m = role"
  then obtain m where m: "m \<in> set (membership_rows db)" "ms_workspaceId m = ws" "ms_userId m = u" "ms_role m = role" by blast
  have "find (\<lambda>m. ms_workspaceId m = ws \<and> ms_userId m = u) (membership_rows db) = Some m"
    by (rule find_unique [OF assms m(1)]) (use m in auto)
  with m(4) show "role_in db ws u = Some role" by (simp add: role_in_def)
qed

lemma resolve_scope_iff:
  assumes "uuid_in env user = user"
  shows "resolveProjectAccessScope env db ws user = Some sc \<Longrightarrow>
     \<exists>m\<in>set (membership_rows db). ms_workspaceId m = uuid_in env ws \<and> ms_userId m = user
        \<and> sc = scope_of (scope_join env db ws [user]) m"
    and "resolveProjectAccessScope env db ws user = None \<Longrightarrow>
     \<forall>m\<in>set (membership_rows db). \<not> (ms_workspaceId m = uuid_in env ws \<and> ms_userId m = user)"
  using assms
  by (auto simp: resolveProjectAccessScope_def resolveProjectAccessScopes_def Let_def map_of_eq_None_iff
      filter_empty_conv image_iff split: if_splits dest!: map_of_SomeD)

lemma member_role_ids:
  assumes "uuid_in env user = user" and "distinct (map (\<lambda>m. (pm_projectId m, pm_userId m)) (member_rows db))"
  shows "(pid, role) \<in> set (member_roles_of user (scope_join env db ws [user])) \<longleftrightarrow>
      pid \<in> members_only_ids env db ws \<and> listed_as db pid user = Some role"
  by (simp only: member_roles_mem scope_join_Some listed_as_iff [OF assms(2)] assms(1) simp_thms)

lemma member_role_map:
  assumes "uuid_in env user = user" and "distinct (map (\<lambda>m. (pm_projectId m, pm_userId m)) (member_rows db))"
  shows "map_of (rev (member_roles_of user (scope_join env db ws [user]))) pid =
      (if pid \<in> members_only_ids env db ws then listed_as db pid user else None)"
proof (cases "map_of (rev (member_roles_of user (scope_join env db ws [user]))) pid")
  case None
  then have "\<forall>role. (pid, role) \<notin> set (member_roles_of user (scope_join env db ws [user]))"
    by (force simp: map_of_eq_None_iff)
  then have "pid \<in> members_only_ids env db ws \<Longrightarrow> listed_as db pid user = None"
    unfolding member_role_ids [OF assms] by (cases "listed_as db pid user") auto
  with None show ?thesis by simp
next
  case (Some role)
  then have "(pid, role) \<in> set (member_roles_of user (scope_join env db ws [user]))" by (auto dest: map_of_SomeD)
  with Some show ?thesis unfolding member_role_ids [OF assms] by simp
qed

lemma scope_reads:
  assumes "pid \<noteq> []" and "uuid_in env user = user" and "ms_userId m = user"
    and "distinct (map (\<lambda>m. (pm_projectId m, pm_userId m)) (member_rows db))"
  shows "canReadProject (scope_of (scope_join env db ws [user]) m) (Some pid) \<longleftrightarrow>
      pid \<notin> members_only_ids env db ws \<or> ms_role m = Owner \<or> ms_role m = Admin \<or> listed_as db pid user \<noteq> None"
proof -
  have "pid \<in> fst ` set (member_roles_of user (scope_join env db ws [user])) \<longleftrightarrow>
      pid \<in> members_only_ids env db ws \<and> listed_as db pid user \<noteq> None"
    using member_role_ids [OF assms(2,4), of pid _ ws] by (force simp: image_iff)
  then show ?thesis using assms(1,3)
    by (simp add: canReadProject_def scope_of_def Let_def set_js_dedupe scope_join_fst)
qed

lemma scope_writes:
  assumes "pid \<noteq> []" and "uuid_in env user = user" and "ms_userId m = user"
    and "distinct (map (\<lambda>m. (pm_projectId m, pm_userId m)) (member_rows db))"
  shows "canWriteProject (scope_of (scope_join env db ws [user]) m) (Some pid) \<longleftrightarrow>
      pid \<notin> members_only_ids env db ws \<or> ms_role m = Owner \<or> ms_role m = Admin \<or> listed_as db pid user = Some Editor"
  using assms(1,3) member_role_map [OF assms(2,4), of ws pid]
  by (auto simp: canWriteProject_def scope_of_def Let_def set_js_dedupe scope_join_fst)

text \<open>For a project of the workspace, named by its canonical id.\<close>

lemma members_only_iff:
  assumes "tables_ok env db" and "p \<in> set (project_rows db)" and "pj_workspaceId p = uuid_in env ws"
  shows "pj_id p \<in> members_only_ids env db ws \<longleftrightarrow> pj_visibility p = Members_only"
proof -
  have "inj_on pj_id (set (project_rows db))" using assms(1) by (simp add: tables_ok_def distinct_map)
  then have same: "q = p" if "q \<in> set (project_rows db)" "pj_id q = pj_id p" for q
    using that assms(2) by (metis inj_onD)
  show ?thesis
  proof
    assume "pj_id p \<in> members_only_ids env db ws"
    then obtain q where "q \<in> set (project_rows db)" "pj_id q = pj_id p" "pj_visibility q = Members_only"
      by (auto simp: members_only_ids_def)
    with same [of q] show "pj_visibility p = Members_only" by simp
  next
    assume "pj_visibility p = Members_only"
    then show "pj_id p \<in> members_only_ids env db ws" using assms(2,3) unfolding members_only_ids_def by blast
  qed
qed

lemma scope_None_iff:
  assumes "uuid_in env user = user"
  shows "resolveProjectAccessScope env db ws user = None \<longleftrightarrow> role_in db (uuid_in env ws) user = None"
proof (cases "resolveProjectAccessScope env db ws user")
  case None
  with resolve_scope_iff(2) [OF assms None] show ?thesis by (auto simp: role_in_def find_None_iff)
next
  case (Some sc)
  with resolve_scope_iff(1) [OF assms Some] show ?thesis by (auto simp: role_in_def find_None_iff)
qed

lemma scope_may_see:
  assumes "tables_ok env db" "uuid_in env user = user" "p \<in> set (project_rows db)" "pj_workspaceId p = uuid_in env ws"
    and "resolveProjectAccessScope env db ws user = Some sc"
  shows "canReadProject sc (Some (pj_id p)) = may_see db (uuid_in env ws) user p"
    and "(requireProjectWrite sc (Some (pj_id p)) = Inr ()) = may_change db (uuid_in env ws) user p"
proof -
  from resolve_scope_iff(1) [OF assms(2,5)] obtain m where m: "m \<in> set (membership_rows db)"
    "ms_workspaceId m = uuid_in env ws" "ms_userId m = user" and sc: "sc = scope_of (scope_join env db ws [user]) m" by blast
  have d: "distinct (map (\<lambda>m. (pm_projectId m, pm_userId m)) (member_rows db))"
    "distinct (map (\<lambda>m. (ms_workspaceId m, ms_userId m)) (membership_rows db))" and ne: "pj_id p \<noteq> []"
    using assms(1,3) by (auto simp: tables_ok_def)
  have role: "role_in db (uuid_in env ws) user = Some (ms_role m)" using m by (auto simp: role_in_iff [OF d(2)])
  have vis: "pj_id p \<in> members_only_ids env db ws \<longleftrightarrow> pj_visibility p \<noteq> Workspace_visible"
    using members_only_iff [OF assms(1,3,4)] by (cases "pj_visibility p") auto
  note both = scope_reads [OF ne assms(2) m(3) d(1), of ws] scope_writes [OF ne assms(2) m(3) d(1), of ws]
  from both(1) role vis show "canReadProject sc (Some (pj_id p)) = may_see db (uuid_in env ws) user p"
    by (auto simp: sc may_see_def)
  from both role vis show "(requireProjectWrite sc (Some (pj_id p)) = Inr ()) = may_change db (uuid_in env ws) user p"
    by (auto simp: sc may_change_def requireProjectWrite_def)
qed

text \<open>C25: the access scope computed from the joined rows is the reference: for every project of the
  workspace, named canonically, the scope exists exactly for members, reading is allowed exactly to
  those who may see the project and writing exactly to those who may change it.\<close>

theorem access_scope_exact:
  assumes "tables_ok env db" and "uuid_in env user = user"
    and "p \<in> set (project_rows db)" and "pj_workspaceId p = uuid_in env ws"
  shows "(resolveProjectAccessScope env db ws user = None \<longleftrightarrow> role_in db (uuid_in env ws) user = None)
    \<and> (case resolveProjectAccessScope env db ws user of
         None \<Rightarrow> True
       | Some sc \<Rightarrow> canReadProject sc (Some (pj_id p)) = may_see db (uuid_in env ws) user p
           \<and> (requireProjectWrite sc (Some (pj_id p)) = Inr ()) = may_change db (uuid_in env ws) user p)"
  using scope_None_iff [OF assms(2), of db ws] scope_may_see [OF assms] by (auto split: option.split)

text \<open>A workspace with an owner and a plain member, and a members-only project the member is not listed on.\<close>

definition sample_env :: db_env where
  "sample_env = \<lparr>uuid_in = map lower_char, new_id = (\<lambda>_. ''0a000000-0000-4000-8000-00000000000f''), clock_ms = 1000\<rparr>"

definition sample_project :: project_row where
  "sample_project = \<lparr>pj_id = ''0a000000-0000-4000-8000-000000000001'', pj_workspaceId = ''w1'', pj_name = ''plan'', pj_iconKey = ''box'',
     pj_accent = None, pj_sourceKind = ''none'', pj_sortOrder = 0, pj_lifecycle = PActive, pj_version = 1,
     pj_visibility = Members_only, pj_createdAt = 0, pj_updatedAt = 0, pj_deletedAt = None\<rparr>"

definition sample_channel :: channel_row where
  "sample_channel = \<lparr>ch_id = ''c1'', ch_workspaceId = ''w1'', ch_kind = ''project'',
     ch_projectId = Some ''0a000000-0000-4000-8000-000000000001'', ch_title = ''plan'', ch_isPrimary = True, ch_sortOrder = 0,
     ch_lifecycle = PActive, ch_archiveSource = Individual,
     ch_idempotencyKey = ''primary-project:0a000000-0000-4000-8000-000000000001'', ch_version = 1, ch_updatedAt = 0\<rparr>"

definition sample_db :: product_db where
  "sample_db = \<lparr>sequence_rows = [], event_rows = [], dispatch_rows = [],
     membership_rows = [\<lparr>ms_workspaceId = ''w1'', ms_userId = ''u1'', ms_role = Owner, ms_sortOrder = 0, ms_createdAt = 0\<rparr>,
       \<lparr>ms_workspaceId = ''w1'', ms_userId = ''u2'', ms_role = Member, ms_sortOrder = 0, ms_createdAt = 0\<rparr>],
     user_rows = [(''u1'', Some ''Ann''), (''u2'', None)], project_rows = [sample_project], member_rows = [],
     channel_rows = [sample_channel, sample_channel\<lparr>ch_id := ''c2'', ch_lifecycle := PArchived, ch_idempotencyKey := ''k''\<rparr>]\<rparr>"

lemma lower_char_idem: "lower_char (lower_char c) = lower_char c"
  by (simp add: lower_char_def)

lemma sample_tables_ok: "tables_ok sample_env sample_db"
  by code_simp

theorem access_scope_exact_witness:
  "\<not> may_see sample_db ''w1'' ''u2'' sample_project \<and> may_change sample_db ''w1'' ''u1'' sample_project
   \<and> (resolveProjectAccessScope sample_env sample_db ''w1'' ''u2'' = None \<longleftrightarrow> role_in sample_db ''w1'' ''u2'' = None)"
proof -
  have "uuid_in sample_env ''w1'' = ''w1''" "uuid_in sample_env ''u2'' = ''u2''" by code_simp+
  with access_scope_exact [OF sample_tables_ok, of "''u2''" sample_project "''w1''"]
  have "resolveProjectAccessScope sample_env sample_db ''w1'' ''u2'' = None \<longleftrightarrow> role_in sample_db ''w1'' ''u2'' = None"
    by (simp add: sample_db_def sample_project_def)
  moreover have "\<not> may_see sample_db ''w1'' ''u2'' sample_project" "may_change sample_db ''w1'' ''u1'' sample_project"
    by (simp_all add: may_see_def may_change_def role_in_def listed_as_def sample_db_def sample_project_def)
  ultimately show ?thesis by blast
qed

end
