(* ===== verification/Projects.thy ===== *)
theory Projects
  imports Project_Access
begin

text \<open>
  Projects and their sharing: \<^verbatim>\<open>packages/db/src/projects.ts\<close>, \<^verbatim>\<open>project-sharing.ts\<close>, \<^verbatim>\<open>project-summary.ts\<close>, the
  archive and restore cascades and the promotion of \<^verbatim>\<open>project-state-policy.ts\<close> and
  \<^verbatim>\<open>project-state-decisions.ts\<close>, and the provisioning of a primary channel of \<^verbatim>\<open>conversations.ts\<close>. An
  operation is a transaction: a function from the tables to an error, which leaves the tables as they
  were, or to its result and the new tables. The row locks of the source make concurrent transactions on
  one project run one after the other; a sequence of transactions is a sequence of calls. The control-plane
  identifier a project row also carries, which no operation here reads, is left out.
\<close>

section \<open>Transactions\<close>

type_synonym 'r tx = "(product_db, project_error, 'r) trans"

definition tx_event :: "db_env \<Rightarrow> string \<Rightarrow> string \<Rightarrow> payload \<Rightarrow> unit tx" where
  "tx_event = append_tx Event_refused"

section \<open>Rows\<close>

record project_summary =
  ps_id :: string
  ps_workspaceId :: string
  ps_name :: string
  ps_iconKey :: string
  ps_accent :: "string option"
  ps_sourceKind :: string
  ps_sortOrder :: int
  ps_lifecycle :: project_lifecycle
  ps_version :: int
  ps_visibility :: project_visibility
  ps_createdAt :: int
  ps_updatedAt :: int

definition projectSummary :: "project_row \<Rightarrow> project_summary" where
  "projectSummary p = \<lparr>ps_id = pj_id p, ps_workspaceId = pj_workspaceId p, ps_name = pj_name p,
     ps_iconKey = pj_iconKey p, ps_accent = pj_accent p, ps_sourceKind = pj_sourceKind p, ps_sortOrder = pj_sortOrder p,
     ps_lifecycle = pj_lifecycle p, ps_version = pj_version p, ps_visibility = pj_visibility p,
     ps_createdAt = pj_createdAt p, ps_updatedAt = pj_updatedAt p\<rparr>"

text \<open>The check constraints of the table.\<close>

definition project_checks :: "project_row \<Rightarrow> bool" where
  "project_checks p \<longleftrightarrow> pj_name p \<noteq> [] \<and> pj_iconKey p \<noteq> []
     \<and> (case pj_accent p of None \<Rightarrow> True
          | Some a \<Rightarrow> a \<in> set [''violet'', ''blue'', ''green'', ''amber'', ''cyan'', ''pink''])
     \<and> pj_sortOrder p \<ge> 0 \<and> pj_version p > 0 \<and> pj_sourceKind p \<in> set [''none'', ''repository'']"

definition isProjectId :: "string \<Rightarrow> bool" where
  "isProjectId s \<longleftrightarrow> is_uuid (map lower_char s)"

definition activeProjectFilter :: "db_env \<Rightarrow> string \<Rightarrow> string option \<Rightarrow> project_row \<Rightarrow> bool" where
  "activeProjectFilter env workspaceId projectId p \<longleftrightarrow>
     (case projectId of None \<Rightarrow> True | Some i \<Rightarrow> i = [] \<or> pj_id p = uuid_in env i)
     \<and> pj_workspaceId p = uuid_in env workspaceId \<and> pj_lifecycle p = PActive \<and> pj_deletedAt p = None"

text \<open>One \<open>UPDATE\<close> on the project table that must hit a row; a check constraint may refuse it.\<close>

definition update_project :: "(project_row \<Rightarrow> bool) \<Rightarrow> (project_row \<Rightarrow> project_row) \<Rightarrow> project_error \<Rightarrow> project_row tx" where
  "update_project p f missing db =
     (case returning p f (project_rows db) of
        None \<Rightarrow> Inl missing
      | Some row \<Rightarrow>
          if list_all project_checks (map f (filter p (project_rows db)))
          then Inr (row, db\<lparr>project_rows := update_where p f (project_rows db)\<rparr>) else Inl Constraint_violated)"

definition touch :: "db_env \<Rightarrow> project_row \<Rightarrow> project_row" where
  "touch env p = p\<lparr>pj_updatedAt := clock_ms env, pj_version := pj_version p + 1\<rparr>"

definition actor_payload :: "string \<Rightarrow> (string \<times> json) list \<Rightarrow> payload" where
  "actor_payload userId rest = (''actorUserId'', Json_str userId) # rest"

definition write_access :: "db_env \<Rightarrow> string \<Rightarrow> string \<Rightarrow> string \<Rightarrow> unit tx" where
  "write_access env workspaceId projectId userId =
     tx_check (\<lambda>db. rbind (requireProjectAccessScope env db workspaceId userId) (\<lambda>scope. requireProjectWrite scope (Some projectId)))"

section \<open>Reads\<close>

definition project_order :: "project_row \<Rightarrow> int \<times> string" where
  "project_order p = (pj_sortOrder p, pj_id p)"

definition listProjectsForUser ::
  "db_env \<Rightarrow> product_db \<Rightarrow> string \<Rightarrow> string \<Rightarrow> bool \<Rightarrow> project_error + project_summary list" where
  "listProjectsForUser env db workspaceId userId includeArchived =
     rbind (requireProjectAccessScope env db workspaceId userId) (\<lambda>scope.
       Inr (map projectSummary (sort_key project_order (filter (\<lambda>p. pj_workspaceId p = uuid_in env workspaceId
         \<and> pj_deletedAt p = None \<and> visibleProjectCondition scope (Some (pj_id p))
         \<and> (includeArchived \<or> pj_lifecycle p = PActive)) (project_rows db)))))"

definition getProjectForUser ::
  "db_env \<Rightarrow> product_db \<Rightarrow> string \<Rightarrow> string \<Rightarrow> string \<Rightarrow> bool \<Rightarrow> project_summary option" where
  "getProjectForUser env db workspaceId projectId userId includeArchived =
     (if \<not> isProjectId projectId then None
      else (case resolveProjectAccessScope env db workspaceId userId of
              None \<Rightarrow> None
            | Some scope \<Rightarrow>
                if \<not> canReadProject scope (Some projectId) then None
                else map_option projectSummary (find (\<lambda>p. pj_id p = uuid_in env projectId
                  \<and> pj_workspaceId p = uuid_in env workspaceId \<and> pj_deletedAt p = None
                  \<and> (includeArchived \<or> pj_lifecycle p = PActive)) (project_rows db))))"

section \<open>Creation and update\<close>

definition max_or :: "int \<Rightarrow> int list \<Rightarrow> int" where
  "max_or d xs = (if xs = [] then d else Max (set xs))"

definition nextChannelSortOrder :: "db_env \<Rightarrow> product_db \<Rightarrow> string \<Rightarrow> int" where
  "nextChannelSortOrder env db workspaceId =
     max_or (-1) (map ch_sortOrder (filter (\<lambda>c. ch_workspaceId c = uuid_in env workspaceId) (channel_rows db))) + 1"

definition primary_channel :: "db_env \<Rightarrow> product_db \<Rightarrow> string \<Rightarrow> string \<Rightarrow> string \<Rightarrow> channel_row" where
  "primary_channel env db workspaceId projectId projectName =
     \<lparr>ch_id = new_id env (length (channel_rows db)), ch_workspaceId = uuid_in env workspaceId, ch_kind = ''project'',
      ch_projectId = Some (uuid_in env projectId), ch_title = js_trim projectName, ch_isPrimary = True,
      ch_sortOrder = nextChannelSortOrder env db workspaceId, ch_lifecycle = PActive, ch_archiveSource = Individual,
      ch_idempotencyKey = ''primary-project:'' @ projectId, ch_version = 1, ch_updatedAt = clock_ms env\<rparr>"

definition existing_primary :: "db_env \<Rightarrow> string \<Rightarrow> string \<Rightarrow> channel_row tx" where
  "existing_primary env workspaceId projectId db =
     (case find (\<lambda>c. ch_workspaceId c = uuid_in env workspaceId
            \<and> ch_idempotencyKey c = ''primary-project:'' @ projectId) (channel_rows db) of
        None \<Rightarrow> Inl Primary_channel_conflict
      | Some c \<Rightarrow>
          if ch_kind c \<noteq> ''project'' \<or> ch_projectId c \<noteq> Some projectId then Inl Primary_channel_conflict
          else if ch_lifecycle c = PArchived then
            (let sel = (\<lambda>r. ch_id r = ch_id c \<and> ch_version r = ch_version c);
                 upd = (\<lambda>r. r\<lparr>ch_archiveSource := Individual, ch_lifecycle := PActive, ch_updatedAt := clock_ms env,
                          ch_version := ch_version c + 1\<rparr>) in
             case returning sel upd (channel_rows db) of
               None \<Rightarrow> Inl Channel_version_conflict
             | Some restored \<Rightarrow> Inr (restored, db\<lparr>channel_rows := update_where sel upd (channel_rows db)\<rparr>))
          else Inr (c, db))"

definition insert_channel :: "channel_row \<Rightarrow> channel_row tx" where
  "insert_channel c db =
     (if ch_title c = [] \<or> ch_id c \<in> set (map ch_id (channel_rows db)) then Inl Constraint_violated
      else Inr (c, db\<lparr>channel_rows := channel_rows db @ [c]\<rparr>))"

definition provisionPrimaryProjectChannelInTransaction :: "db_env \<Rightarrow> string \<Rightarrow> string \<Rightarrow> string \<Rightarrow> channel_row tx" where
  "provisionPrimaryProjectChannelInTransaction env workspaceId projectId projectName db =
     (let row = primary_channel env db workspaceId projectId projectName in
      if find (\<lambda>c. ch_workspaceId c = ch_workspaceId row \<and> ch_idempotencyKey c = ch_idempotencyKey row) (channel_rows db) = None
      then tx_bind (insert_channel row) (\<lambda>created.
             tx_bind (tx_event env workspaceId ''channel.created''
               [(''channelId'', Json_str (ch_id created)), (''kind'', Json_str ''project''), (''projectId'', Json_str projectId)])
             (\<lambda>_. tx_return created)) db
      else existing_primary env workspaceId projectId db)"

record project_create =
  pc_iconKey :: string
  pc_id :: "string option"
  pc_name :: string
  pc_sourceKind :: "string option"

definition requireMembership :: "db_env \<Rightarrow> string \<Rightarrow> string \<Rightarrow> unit tx" where
  "requireMembership env workspaceId userId =
     tx_check (\<lambda>db. if find (\<lambda>m. ms_workspaceId m = uuid_in env workspaceId \<and> ms_userId m = uuid_in env userId) (membership_rows db) = None
       then Inl Project_unavailable else Inr ())"

definition new_project :: "db_env \<Rightarrow> product_db \<Rightarrow> string \<Rightarrow> project_create \<Rightarrow> project_row" where
  "new_project env db workspaceId input =
     \<lparr>pj_id = (case pc_id input of Some i \<Rightarrow> uuid_in env i | None \<Rightarrow> new_id env (length (project_rows db))),
      pj_workspaceId = uuid_in env workspaceId, pj_name = js_trim (pc_name input), pj_iconKey = js_trim (pc_iconKey input),
      pj_accent = None, pj_sourceKind = (case pc_sourceKind input of None \<Rightarrow> ''none'' | Some k \<Rightarrow> k),
      pj_sortOrder = max_or (-1) (map pj_sortOrder (filter (activeProjectFilter env workspaceId None) (project_rows db))) + 1,
      pj_lifecycle = PActive, pj_version = 1, pj_visibility = Workspace_visible,
      pj_createdAt = clock_ms env, pj_updatedAt = clock_ms env, pj_deletedAt = None\<rparr>"

definition insert_project :: "project_row \<Rightarrow> project_row tx" where
  "insert_project p db =
     (if project_checks p \<and> pj_id p \<notin> set (map pj_id (project_rows db))
      then Inr (p, db\<lparr>project_rows := project_rows db @ [p]\<rparr>) else Inl Constraint_violated)"

definition replay_create :: "string \<Rightarrow> project_create \<Rightarrow> project_row \<Rightarrow> project_error + project_summary" where
  "replay_create workspaceId input existing =
     (if pj_workspaceId existing \<noteq> workspaceId \<or> pj_deletedAt existing \<noteq> None then Inl Project_unavailable
      else if pj_name existing \<noteq> js_trim (pc_name input) \<or> pj_iconKey existing \<noteq> js_trim (pc_iconKey input)
        \<or> pj_sourceKind existing \<noteq> (case pc_sourceKind input of None \<Rightarrow> ''none'' | Some k \<Rightarrow> k) then Inl Project_id_conflict
      else Inr (projectSummary existing))"

definition insert_new_project :: "db_env \<Rightarrow> string \<Rightarrow> string \<Rightarrow> project_create \<Rightarrow> project_summary tx" where
  "insert_new_project env workspaceId userId input =
     tx_bind (\<lambda>db. insert_project (new_project env db workspaceId input) db) (\<lambda>created.
     tx_bind (provisionPrimaryProjectChannelInTransaction env workspaceId (pj_id created) (pj_name created)) (\<lambda>_.
     tx_bind (tx_event env workspaceId ''project.created''
       (actor_payload userId [(''projectId'', Json_str (pj_id created))])) (\<lambda>_.
     tx_return (projectSummary created))))"

definition create_or_replay :: "db_env \<Rightarrow> string \<Rightarrow> string \<Rightarrow> project_create \<Rightarrow> project_summary tx" where
  "create_or_replay env workspaceId userId input db =
     (case (case pc_id input of None \<Rightarrow> None | Some i \<Rightarrow> find (\<lambda>p. pj_id p = uuid_in env i) (project_rows db)) of
        Some existing \<Rightarrow> tx_check (\<lambda>_. replay_create workspaceId input existing) db
      | None \<Rightarrow> insert_new_project env workspaceId userId input db)"

definition createProject :: "db_env \<Rightarrow> string \<Rightarrow> string \<Rightarrow> project_create \<Rightarrow> project_summary tx" where
  "createProject env workspaceId userId input =
     (if (case pc_id input of None \<Rightarrow> False | Some i \<Rightarrow> \<not> isProjectId i) then tx_fail Project_id_invalid
      else tx_bind (requireMembership env workspaceId userId) (\<lambda>_. create_or_replay env workspaceId userId input))"

record project_update =
  up_accent :: "string option option"
  up_iconKey :: "string option"
  up_name :: "string option"
  up_sourceKind :: "string option"

definition apply_update :: "db_env \<Rightarrow> project_update \<Rightarrow> project_row \<Rightarrow> project_row" where
  "apply_update env u p = (touch env p)\<lparr>
     pj_accent := (case up_accent u of None \<Rightarrow> pj_accent p | Some a \<Rightarrow> a),
     pj_iconKey := (case up_iconKey u of None \<Rightarrow> pj_iconKey p | Some s \<Rightarrow> js_trim s),
     pj_name := (case up_name u of None \<Rightarrow> pj_name p | Some s \<Rightarrow> js_trim s),
     pj_sourceKind := (case up_sourceKind u of None \<Rightarrow> pj_sourceKind p | Some s \<Rightarrow> s)\<rparr>"

definition updateProject :: "db_env \<Rightarrow> string \<Rightarrow> string \<Rightarrow> string \<Rightarrow> project_update \<Rightarrow> project_summary tx" where
  "updateProject env workspaceId projectId userId input =
     (if \<not> isProjectId projectId then tx_fail Project_unavailable
      else tx_bind (write_access env workspaceId projectId userId) (\<lambda>_.
           tx_bind (update_project (activeProjectFilter env workspaceId (Some projectId)) (apply_update env input) Project_unavailable) (\<lambda>updated.
           tx_bind (tx_event env workspaceId ''project.updated'' (actor_payload userId [(''projectId'', Json_str projectId)])) (\<lambda>_.
           tx_return (projectSummary updated)))))"

section \<open>Archive, restore, promotion, deletion\<close>

definition lockProjectForStateChange :: "db_env \<Rightarrow> string \<Rightarrow> string \<Rightarrow> project_row tx" where
  "lockProjectForStateChange env workspaceId projectId =
     tx_check (\<lambda>db. case find (\<lambda>p. pj_id p = uuid_in env projectId \<and> pj_workspaceId p = uuid_in env workspaceId) (project_rows db) of
       None \<Rightarrow> Inl Project_unavailable | Some row \<Rightarrow> Inr row)"

definition project_channels :: "db_env \<Rightarrow> product_db \<Rightarrow> string \<Rightarrow> string \<Rightarrow> (channel_row \<Rightarrow> bool) \<Rightarrow> channel_row list" where
  "project_channels env db workspaceId projectId sel =
     sort_key ch_id (filter (\<lambda>c. ch_workspaceId c = uuid_in env workspaceId \<and> ch_projectId c = Some (uuid_in env projectId) \<and> sel c)
       (channel_rows db))"

text \<open>Both cascades: a compare-and-swap of one channel after the other, each with its event.\<close>

definition channel_event :: "db_env \<Rightarrow> string \<Rightarrow> string \<Rightarrow> string \<Rightarrow> string \<Rightarrow> string \<Rightarrow> unit tx" where
  "channel_event env workspaceId projectId userId eventType channelId =
     tx_event env workspaceId eventType
       (actor_payload userId [(''channelId'', Json_str channelId), (''projectId'', Json_str projectId)])"

definition swap_channel :: "db_env \<Rightarrow> string \<Rightarrow> (channel_row \<Rightarrow> bool) \<Rightarrow> (channel_row \<Rightarrow> channel_row) \<Rightarrow> channel_row \<Rightarrow> unit tx" where
  "swap_channel env workspaceId sel upd c db =
     (let p = (\<lambda>r. ch_id r = ch_id c \<and> ch_workspaceId r = uuid_in env workspaceId \<and> sel r \<and> ch_version r = ch_version c);
          f = (\<lambda>r. (upd r)\<lparr>ch_updatedAt := clock_ms env, ch_version := ch_version c + 1\<rparr>) in
      case returning p f (channel_rows db) of
        None \<Rightarrow> Inl State_conflict
      | Some _ \<Rightarrow> Inr ((), db\<lparr>channel_rows := update_where p f (channel_rows db)\<rparr>))"

fun cascade :: "db_env \<Rightarrow> string \<Rightarrow> string \<Rightarrow> string \<Rightarrow> string \<Rightarrow> (channel_row \<Rightarrow> bool) \<Rightarrow> (channel_row \<Rightarrow> channel_row) \<Rightarrow> channel_row list \<Rightarrow> unit tx" where
  "cascade env ws pid user ev sel upd [] = tx_return ()"
| "cascade env ws pid user ev sel upd (c # cs) =
     tx_bind (swap_channel env ws sel upd c) (\<lambda>_.
     tx_bind (channel_event env ws pid user ev (ch_id c)) (\<lambda>_. cascade env ws pid user ev sel upd cs))"

definition is_awake :: "channel_row \<Rightarrow> bool" where "is_awake c \<longleftrightarrow> ch_lifecycle c = PActive"

definition cascaded :: "channel_row \<Rightarrow> bool" where
  "cascaded c \<longleftrightarrow> ch_lifecycle c = PArchived \<and> ch_archiveSource c = Project_cascade"

definition to_sleep :: "channel_row \<Rightarrow> channel_row" where
  "to_sleep c = c\<lparr>ch_archiveSource := Project_cascade, ch_lifecycle := PArchived\<rparr>"

definition wake :: "channel_row \<Rightarrow> channel_row" where
  "wake c = c\<lparr>ch_archiveSource := Individual, ch_lifecycle := PActive\<rparr>"

definition archiveProjectChannels :: "db_env \<Rightarrow> string \<Rightarrow> string \<Rightarrow> string \<Rightarrow> nat tx" where
  "archiveProjectChannels env ws pid user db =
     (let cs = project_channels env db ws pid is_awake in
      tx_bind (cascade env ws pid user ''channel.archived'' is_awake to_sleep cs) (\<lambda>_. tx_return (length cs)) db)"

definition restoreProjectChannels :: "db_env \<Rightarrow> string \<Rightarrow> string \<Rightarrow> string \<Rightarrow> nat tx" where
  "restoreProjectChannels env ws pid user db =
     (let cs = project_channels env db ws pid cascaded in
      tx_bind (cascade env ws pid user ''channel.restored'' cascaded wake cs) (\<lambda>_. tx_return (length cs)) db)"

definition archiveProject :: "db_env \<Rightarrow> string \<Rightarrow> string \<Rightarrow> string \<Rightarrow> unit tx" where
  "archiveProject env ws pid user =
     (if \<not> isProjectId pid then tx_fail Project_unavailable
      else tx_bind (write_access env ws pid user) (\<lambda>_.
           tx_bind (lockProjectForStateChange env ws pid) (\<lambda>_.
           tx_bind (archiveProjectChannels env ws pid user) (\<lambda>_.
           tx_bind (update_project (activeProjectFilter env ws (Some pid)) (\<lambda>p. (touch env p)\<lparr>pj_lifecycle := PArchived\<rparr>) Project_unavailable) (\<lambda>_.
           tx_event env ws ''project.archived'' (actor_payload user [(''projectId'', Json_str pid)]))))))"

definition softDeleteProject :: "db_env \<Rightarrow> string \<Rightarrow> string \<Rightarrow> string \<Rightarrow> unit tx" where
  "softDeleteProject env ws pid user =
     (if \<not> isProjectId pid then tx_fail Project_unavailable
      else tx_bind (write_access env ws pid user) (\<lambda>_.
           tx_bind (lockProjectForStateChange env ws pid) (\<lambda>_.
           tx_bind (archiveProjectChannels env ws pid user) (\<lambda>_.
           tx_bind (update_project (\<lambda>p. pj_id p = uuid_in env pid \<and> pj_workspaceId p = uuid_in env ws \<and> pj_deletedAt p = None)
             (\<lambda>p. (touch env p)\<lparr>pj_deletedAt := Some (clock_ms env), pj_lifecycle := PArchived\<rparr>) Project_unavailable) (\<lambda>_.
           tx_event env ws ''project.deleted'' (actor_payload user [(''projectId'', Json_str pid)]))))))"

record promotion_plan =
  pp_projectId :: string
  pp_audienceWorkspaceId :: string
  pp_retainedVisibility :: project_visibility
  pp_expectedVersion :: int

text \<open>\<open>expectedVersion\<close> is an unchecked number.\<close>

definition decideProjectStatePromotion ::
  "project_row option \<Rightarrow> string \<Rightarrow> jsval \<Rightarrow> bool \<Rightarrow> promotion_refusal + promotion_plan" where
  "decideProjectStatePromotion project authorizedWorkspaceId expectedVersion confirmed =
     (case project of
        None \<Rightarrow> Inl Refuse_unavailable
      | Some p \<Rightarrow>
          if pj_workspaceId p \<noteq> authorizedWorkspaceId then Inl Refuse_unavailable
          else if pj_deletedAt p \<noteq> None then Inl Promotion_deleted
          else if pj_lifecycle p \<noteq> PArchived then Inl Promotion_state_invalid
          else if \<not> is_safe_integer expectedVersion \<or> int_of_jsval expectedVersion < 1
            \<or> pj_version p \<noteq> int_of_jsval expectedVersion then Inl Promotion_stale
          else if \<not> confirmed then Inl Promotion_not_confirmed
          else Inr \<lparr>pp_projectId = pj_id p, pp_audienceWorkspaceId = pj_workspaceId p,
            pp_retainedVisibility = pj_visibility p, pp_expectedVersion = pj_version p\<rparr>)"

definition promoteProjectState :: "db_env \<Rightarrow> string \<Rightarrow> string \<Rightarrow> string \<Rightarrow> bool \<Rightarrow> jsval \<Rightarrow> project_summary tx" where
  "promoteProjectState env ws pid user confirmed expectedVersion =
     (if \<not> isProjectId pid then tx_fail (Promotion_refused Refuse_unavailable)
      else tx_bind (write_access env ws pid user) (\<lambda>_.
           tx_bind (lockProjectForStateChange env ws pid) (\<lambda>row.
           case decideProjectStatePromotion (Some row) ws expectedVersion confirmed of
             Inl reason \<Rightarrow> tx_fail (Promotion_refused reason)
           | Inr plan \<Rightarrow>
               tx_bind (restoreProjectChannels env ws pid user) (\<lambda>_.
               tx_bind (update_project (\<lambda>p. pj_id p = uuid_in env pid \<and> pj_workspaceId p = uuid_in env ws
                   \<and> pj_lifecycle p = PArchived \<and> pj_deletedAt p = None \<and> pj_version p = pp_expectedVersion plan)
                 (\<lambda>p. (touch env p)\<lparr>pj_lifecycle := PActive\<rparr>) (Promotion_refused Promotion_stale)) (\<lambda>updated.
               tx_bind (tx_event env ws ''project.restored'' (actor_payload user [(''projectId'', Json_str pid)])) (\<lambda>_.
               tx_return (projectSummary updated)))))))"

section \<open>Reordering\<close>

definition visible_active :: "db_env \<Rightarrow> product_db \<Rightarrow> string \<Rightarrow> access_scope \<Rightarrow> project_row list" where
  "visible_active env db ws scope =
     sort_key project_order (filter (\<lambda>p. activeProjectFilter env ws None p \<and> visibleProjectCondition scope (Some (pj_id p)))
       (project_rows db))"

fun place_projects :: "db_env \<Rightarrow> string \<Rightarrow> (int \<times> string) list \<Rightarrow> project_row list \<Rightarrow> project_row list" where
  "place_projects env ws [] rows = rows"
| "place_projects env ws ((slot, i) # rest) rows =
     place_projects env ws rest
       (update_where (\<lambda>p. pj_id p = uuid_in env i \<and> pj_workspaceId p = uuid_in env ws)
         (\<lambda>p. (touch env p)\<lparr>pj_sortOrder := slot\<rparr>) rows)"

definition reorderProjects :: "db_env \<Rightarrow> string \<Rightarrow> string \<Rightarrow> string list \<Rightarrow> project_summary list tx" where
  "reorderProjects env ws user projectIds db =
     (case requireProjectAccessScope env db ws user of
        Inl e \<Rightarrow> Inl e
      | Inr scope \<Rightarrow>
          let active = visible_active env db ws scope in
          if length projectIds \<noteq> length active \<or> \<not> distinct projectIds
            \<or> list_ex (\<lambda>p. pj_id p \<notin> set projectIds) active then Inl Project_order_conflict
          else
            let slots = (if sc_hiddenProjectIds scope \<noteq> [] then map pj_sortOrder active else map int [0..<length projectIds]);
                rows = place_projects env ws (zip slots projectIds) (project_rows db) in
            tx_bind (tx_event env ws ''project.reordered''
                (actor_payload user [(''projectIds'', Json_arr (map Json_str projectIds))])) (\<lambda>_ db1.
              Inr (map projectSummary (sort_key project_order (filter (\<lambda>p. pj_workspaceId p = uuid_in env ws
                \<and> pj_id p \<in> set (map (uuid_in env) projectIds)) (project_rows db1))), db1))
              (db\<lparr>project_rows := rows\<rparr>))"

section \<open>Sharing\<close>

definition requireManager :: "db_env \<Rightarrow> string \<Rightarrow> string \<Rightarrow> unit tx" where
  "requireManager env ws user =
     tx_check (\<lambda>db. rbind (requireProjectAccessScope env db ws user) (\<lambda>scope.
       if \<not> sc_privileged scope then Inl Project_sharing_forbidden else Inr ()))"

definition requireProjectRow :: "db_env \<Rightarrow> string \<Rightarrow> string \<Rightarrow> project_row tx" where
  "requireProjectRow env ws pid =
     tx_check (\<lambda>db. case find (\<lambda>p. pj_id p = uuid_in env pid \<and> pj_workspaceId p = uuid_in env ws \<and> pj_deletedAt p = None) (project_rows db) of
       None \<Rightarrow> Inl Project_unavailable | Some row \<Rightarrow> Inr row)"

fun visibility_name :: "project_visibility \<Rightarrow> string" where
  "visibility_name Workspace_visible = ''workspace''"
| "visibility_name Members_only = ''members''"

definition setProjectVisibility :: "db_env \<Rightarrow> string \<Rightarrow> string \<Rightarrow> string \<Rightarrow> project_visibility \<Rightarrow> project_summary tx" where
  "setProjectVisibility env ws pid user visibility =
     tx_bind (requireManager env ws user) (\<lambda>_.
     tx_bind (requireProjectRow env ws pid) (\<lambda>project.
     if pj_visibility project = visibility then tx_return (projectSummary project)
     else tx_bind (update_project (\<lambda>p. pj_id p = uuid_in env pid \<and> pj_workspaceId p = uuid_in env ws)
            (\<lambda>p. (touch env p)\<lparr>pj_visibility := visibility\<rparr>) Project_unavailable) (\<lambda>updated.
          tx_bind (tx_event env ws ''project.visibility_changed'' (actor_payload user
            [(''projectId'', Json_str pid), (''visibility'', Json_str (visibility_name visibility))])) (\<lambda>_.
          tx_return (projectSummary updated)))))"

record member_summary =
  mb_createdAt :: int
  mb_displayName :: "string option"
  mb_projectId :: string
  mb_role :: member_role
  mb_updatedAt :: int
  mb_userId :: string

definition listProjectMembersForUser :: "db_env \<Rightarrow> product_db \<Rightarrow> string \<Rightarrow> string \<Rightarrow> string \<Rightarrow> project_error + member_summary list" where
  "listProjectMembersForUser env db ws pid user =
     rbind (requireProjectAccessScope env db ws user) (\<lambda>scope.
       if \<not> canReadProject scope (Some pid) then Inl Project_unavailable
       else rbind (requireProjectRow env ws pid db) (\<lambda>_.
         Inr (List.map_filter (\<lambda>m. map_option (\<lambda>name. \<lparr>mb_createdAt = pm_createdAt m, mb_displayName = name,
               mb_projectId = pm_projectId m, mb_role = pm_role m, mb_updatedAt = pm_updatedAt m, mb_userId = pm_userId m\<rparr>)
             (map_of (user_rows db) (pm_userId m)))
           (sort_key (\<lambda>m. (pm_createdAt m, pm_userId m))
             (filter (\<lambda>m. pm_workspaceId m = uuid_in env ws \<and> pm_projectId m = uuid_in env pid) (member_rows db))))))"

definition upsert_member :: "db_env \<Rightarrow> string \<Rightarrow> string \<Rightarrow> string \<Rightarrow> member_role \<Rightarrow> member_row list \<Rightarrow> member_row \<times> member_row list" where
  "upsert_member env ws pid user role rows =
     (let same = (\<lambda>m. pm_projectId m = uuid_in env pid \<and> pm_userId m = uuid_in env user) in
      case find same rows of
        Some m \<Rightarrow> let upd = (\<lambda>m. m\<lparr>pm_role := role, pm_updatedAt := clock_ms env\<rparr>) in (upd m, update_where same upd rows)
      | None \<Rightarrow> let m = \<lparr>pm_workspaceId = uuid_in env ws, pm_projectId = uuid_in env pid, pm_userId = uuid_in env user, pm_role = role,
                  pm_createdAt = clock_ms env, pm_updatedAt = clock_ms env\<rparr> in (m, rows @ [m]))"

definition setProjectMember :: "db_env \<Rightarrow> string \<Rightarrow> string \<Rightarrow> string \<Rightarrow> member_role \<Rightarrow> string \<Rightarrow> member_summary tx" where
  "setProjectMember env ws pid user role target =
     tx_bind (requireManager env ws user) (\<lambda>_.
     tx_bind (requireProjectRow env ws pid) (\<lambda>_.
     tx_bind (tx_check (\<lambda>db. case find (\<lambda>m. ms_workspaceId m = uuid_in env ws \<and> ms_userId m = uuid_in env target) (membership_rows db) of
          None \<Rightarrow> Inl Project_member_unavailable
        | Some m \<Rightarrow> (case map_of (user_rows db) (ms_userId m) of None \<Rightarrow> Inl Project_member_unavailable | Some name \<Rightarrow> Inr name))) (\<lambda>name.
     tx_bind (\<lambda>db. case upsert_member env ws pid target role (member_rows db) of (m, rows) \<Rightarrow> Inr (m, db\<lparr>member_rows := rows\<rparr>)) (\<lambda>m.
     tx_bind (tx_event env ws ''project.members_changed'' (actor_payload user
       [(''projectId'', Json_str pid), (''userId'', Json_str target)])) (\<lambda>_.
     tx_return \<lparr>mb_createdAt = pm_createdAt m, mb_displayName = name, mb_projectId = pid, mb_role = pm_role m,
       mb_updatedAt = pm_updatedAt m, mb_userId = pm_userId m\<rparr>)))))"

definition removeProjectMember :: "db_env \<Rightarrow> string \<Rightarrow> string \<Rightarrow> string \<Rightarrow> string \<Rightarrow> bool tx" where
  "removeProjectMember env ws pid user target =
     tx_bind (requireManager env ws user) (\<lambda>_.
     tx_bind (requireProjectRow env ws pid) (\<lambda>_ db.
       let gone = (\<lambda>m. pm_workspaceId m = uuid_in env ws \<and> pm_projectId m = uuid_in env pid \<and> pm_userId m = uuid_in env target) in
       if filter gone (member_rows db) = [] then Inr (False, db)
       else tx_bind (tx_event env ws ''project.members_changed'' (actor_payload user
              [(''projectId'', Json_str pid), (''userId'', Json_str target)])) (\<lambda>_. tx_return True)
            (db\<lparr>member_rows := filter (\<lambda>m. \<not> gone m) (member_rows db)\<rparr>)))"

end
