(* ===== verification/Project_Laws.thy ===== *)
theory Project_Laws
  imports Projects
begin

text \<open>
  Laws that hold of every project operation. A relation between the tables before and after that the
  primitive statements keep is kept by every transaction built from them (the locale
  \<open>project_relation\<close>); it is interpreted for the event log, for the revision token of a project and for
  the uniqueness of the tables.
\<close>

section \<open>Relations kept by transactions\<close>

lemma not_isProjectId_Nil: "\<not> isProjectId []"
  by (simp add: isProjectId_def is_uuid_def)

locale project_relation = table_relation R for R :: "product_db \<Rightarrow> product_db \<Rightarrow> bool" +
  fixes env :: db_env
  assumes keeps_event: "tx_keeps R (tx_event env ws t p)"
    and keeps_update: "(\<And>p. pj_id (f p) = pj_id p \<and> pj_version (f p) = pj_version p + 1) \<Longrightarrow> tx_keeps R (update_project sel f e)"
    and keeps_insert_project: "pc_id input \<noteq> Some [] \<Longrightarrow> tx_keeps R (\<lambda>db. insert_project (new_project env db ws input) db)"
    and keeps_place: "R db (db\<lparr>project_rows := place_projects env ws xs (project_rows db)\<rparr>)"
    and keeps_channel: "map ch_id cs = map ch_id (channel_rows db) \<or> (\<exists>c. cs = channel_rows db @ [c] \<and> ch_id c \<notin> set (map ch_id (channel_rows db)))
      \<Longrightarrow> R db (db\<lparr>channel_rows := cs\<rparr>)"
    and keeps_member: "R db (db\<lparr>member_rows := snd (upsert_member env ws pid u role (member_rows db))\<rparr>)"
    and keeps_member_removal: "R db (db\<lparr>member_rows := filter q (member_rows db)\<rparr>)"
begin

lemmas keeps_rules = keeps_return keeps_fail keeps_check keeps_bind keeps_event

lemma keeps_swap: "tx_keeps R (swap_channel env ws sel upd c)" if "\<And>r. ch_id (upd r) = ch_id r"
  by (rule tx_keepsI)
    (auto simp: swap_channel_def Let_def update_where_def that intro!: keeps_channel split: option.splits)

lemma keeps_cascade: "tx_keeps R (cascade env ws pid user ev sel upd cs)" if "\<And>r. ch_id (upd r) = ch_id r"
proof (induction cs)
  case Nil
  show ?case by (simp add: keeps_return)
next
  case (Cons c cs)
  then show ?case by (simp add: keeps_rules keeps_swap that channel_event_def)
qed

lemma keeps_archive_channels: "tx_keeps R (archiveProjectChannels env ws pid user)"
  unfolding archiveProjectChannels_def Let_def
  by (rule keeps_reading) (simp add: keeps_rules keeps_cascade to_sleep_def)

lemma keeps_restore_channels: "tx_keeps R (restoreProjectChannels env ws pid user)"
  unfolding restoreProjectChannels_def Let_def
  by (rule keeps_reading) (simp add: keeps_rules keeps_cascade wake_def)

lemma keeps_touch: "tx_keeps R (update_project sel (\<lambda>p. g (touch env p)) e)"
  if "\<And>p. pj_id (g p) = pj_id p \<and> pj_version (g p) = pj_version p"
  by (rule keeps_update) (simp add: that touch_def)

lemma keeps_insert_channel: "tx_keeps R (insert_channel c)"
  by (rule tx_keepsI) (auto simp: insert_channel_def intro!: keeps_channel split: if_splits)

lemma keeps_existing_primary: "tx_keeps R (existing_primary env ws pid)"
  by (rule tx_keepsI)
    (auto simp: existing_primary_def Let_def update_where_def R_refl intro!: keeps_channel split: option.splits if_splits)

lemma keeps_provision: "tx_keeps R (provisionPrimaryProjectChannelInTransaction env ws pid name)"
proof (rule tx_keepsI)
  fix db a db'
  assume "provisionPrimaryProjectChannelInTransaction env ws pid name db = Inr (a, db')"
  then show "R db db'"
    using tx_keepsD [OF keeps_existing_primary]
      tx_keepsD [OF keeps_bind [OF keeps_insert_channel keeps_bind [OF keeps_event keeps_return]]]
    by (auto simp: provisionPrimaryProjectChannelInTransaction_def Let_def split: if_splits)
qed

lemma keeps_create_or_replay:
  assumes "pc_id input \<noteq> Some []"
  shows "tx_keeps R (create_or_replay env ws user input)"
proof (rule tx_keepsI)
  fix db a db'
  assume "create_or_replay env ws user input db = Inr (a, db')"
  moreover have "tx_keeps R (insert_new_project env ws user input)"
    unfolding insert_new_project_def by (intro keeps_rules keeps_insert_project keeps_provision assms)
  ultimately show "R db db'"
    using tx_keepsD [OF keeps_check] by (fastforce simp: create_or_replay_def split: option.splits dest: tx_keepsD)
qed

lemma keeps_createProject: "tx_keeps R (createProject env ws user input)"
proof (cases "pc_id input = Some []")
  case True
  then show ?thesis by (simp add: createProject_def not_isProjectId_Nil keeps_fail)
next
  case False
  then show ?thesis unfolding createProject_def requireMembership_def by (simp add: keeps_rules keeps_create_or_replay)
qed

lemma keeps_updateProject: "tx_keeps R (updateProject env ws pid user u)"
proof -
  have "tx_keeps R (update_project sel (apply_update env u) e)" for sel e
    by (rule keeps_update) (simp add: apply_update_def touch_def)
  then show ?thesis unfolding updateProject_def write_access_def by (simp add: keeps_rules)
qed

lemma keeps_archiveProject: "tx_keeps R (archiveProject env ws pid user)"
  unfolding archiveProject_def write_access_def lockProjectForStateChange_def
  by (simp add: keeps_rules keeps_archive_channels keeps_touch [of "\<lambda>p. p\<lparr>pj_lifecycle := PArchived\<rparr>"])

lemma keeps_softDeleteProject: "tx_keeps R (softDeleteProject env ws pid user)"
  unfolding softDeleteProject_def write_access_def lockProjectForStateChange_def
  by (simp add: keeps_rules keeps_archive_channels
      keeps_touch [of "\<lambda>p. p\<lparr>pj_deletedAt := Some (clock_ms env), pj_lifecycle := PArchived\<rparr>"])

lemma keeps_promoteProjectState: "tx_keeps R (promoteProjectState env ws pid user confirmed v)"
  unfolding promoteProjectState_def write_access_def lockProjectForStateChange_def
  by (auto intro!: keeps_rules keeps_restore_channels keeps_touch [of "\<lambda>p. p\<lparr>pj_lifecycle := PActive\<rparr>"] split: sum.split)

lemma keeps_reorderProjects: "tx_keeps R (reorderProjects env ws user ids)"
proof (rule tx_keepsI)
  fix db a db'
  assume "reorderProjects env ws user ids db = Inr (a, db')"
  then obtain xs db1 where "tx_event env ws ''project.reordered'' (actor_payload user [(''projectIds'', Json_arr (map Json_str ids))])
      (db\<lparr>project_rows := place_projects env ws xs (project_rows db)\<rparr>) = Inr ((), db1)" "db' = db1"
    by (auto simp: reorderProjects_def Let_def tx_bind_def split: sum.splits if_splits)
  then show "R db db'" using keeps_place tx_keepsD [OF keeps_event] R_trans by blast
qed

lemma keeps_setProjectVisibility: "tx_keeps R (setProjectVisibility env ws pid user v)"
  unfolding setProjectVisibility_def requireManager_def requireProjectRow_def
  by (intro keeps_rules) (simp add: keeps_rules keeps_touch [of "\<lambda>p. p\<lparr>pj_visibility := v\<rparr>"])

lemma keeps_setProjectMember: "tx_keeps R (setProjectMember env ws pid user role target)"
proof -
  have "tx_keeps R ((\<lambda>db. case upsert_member env ws pid target role (member_rows db) of (m, rows) \<Rightarrow> Inr (m, db\<lparr>member_rows := rows\<rparr>)) :: member_row tx)"
    using keeps_member by (auto simp: tx_keeps_def split: prod.splits) (metis snd_conv)
  then show ?thesis unfolding setProjectMember_def requireManager_def requireProjectRow_def
    by (simp add: keeps_rules)
qed

lemma keeps_removeProjectMember: "tx_keeps R (removeProjectMember env ws pid user target)"
proof -
  have "tx_keeps R (\<lambda>db. if filter q (member_rows db) = [] then Inr (False, db)
       else tx_bind (tx_event env ws t p) (\<lambda>_. tx_return True) (db\<lparr>member_rows := filter (\<lambda>m. \<not> q m) (member_rows db)\<rparr>))" for q t p
  proof (rule tx_keepsI)
    fix db a db'
    assume "(if filter q (member_rows db) = [] then Inr (False, db)
       else tx_bind (tx_event env ws t p) (\<lambda>_. tx_return True) (db\<lparr>member_rows := filter (\<lambda>m. \<not> q m) (member_rows db)\<rparr>)) = Inr (a, db')"
    then consider "db' = db"
      | b where "tx_bind (tx_event env ws t p) (\<lambda>_. tx_return True) (db\<lparr>member_rows := filter (\<lambda>m. \<not> q m) (member_rows db)\<rparr>) = Inr (b, db')"
      by (auto split: if_splits)
    then show "R db db'"
      by cases (auto intro: R_refl R_trans [OF keeps_member_removal] dest: tx_keepsD [OF keeps_bind [OF keeps_event keeps_return]])
  qed
  then show ?thesis unfolding removeProjectMember_def requireManager_def requireProjectRow_def Let_def
    by (simp add: keeps_rules)
qed

end

section \<open>The event log\<close>

lemma log_inv_tables [simp]:
  "log_inv (db\<lparr>project_rows := ps\<rparr>) = log_inv db" "log_inv (db\<lparr>channel_rows := cs\<rparr>) = log_inv db"
  "log_inv (db\<lparr>member_rows := ms\<rparr>) = log_inv db"
  by (simp_all add: log_inv_def events_of_def)

lemma tx_eventD:
  assumes "tx_event env ws t p db = Inr (a, db')"
  obtains row where "appendWorkspaceEvent env \<lparr>ei_workspaceId = ws, ei_eventType = t, ei_payload = p,
      ei_actor = None, ei_correlationId = None, ei_occurredAt = None\<rparr> db = Inr (row, db')"
  using assms by (auto simp: tx_event_def elim!: append_txE)

lemma tx_event_tables:
  assumes "tx_event env ws t p db = Inr (a, db')"
  shows "project_rows db' = project_rows db" "channel_rows db' = channel_rows db" "member_rows db' = member_rows db"
    "membership_rows db' = membership_rows db" "user_rows db' = user_rows db"
  using assms by (auto elim!: tx_eventD appendE)

interpretation log_law: project_relation "\<lambda>a b. log_inv a \<longrightarrow> log_inv b" env for env
  by unfold_locales
    (auto simp: tx_keeps_def update_project_def insert_project_def split: option.splits if_splits
      elim!: tx_eventD dest: append_keeps_log)

section \<open>The revision token\<close>

text \<open>Every project stays, and a row that changes carries a higher version.\<close>

definition revised :: "product_db \<Rightarrow> product_db \<Rightarrow> bool" where
  "revised a b \<longleftrightarrow> (\<forall>p\<in>set (project_rows a). \<exists>q\<in>set (project_rows b). pj_id q = pj_id p \<and> (q = p \<or> pj_version p < pj_version q))"

lemma revised_refl: "revised db db"
  by (auto simp: revised_def)

lemma revised_trans: "revised a b \<Longrightarrow> revised b c \<Longrightarrow> revised a c"
  unfolding revised_def by (metis less_trans)

lemma revised_same: "project_rows b = project_rows a \<Longrightarrow> revised a b"
  by (auto simp: revised_def)

lemma revised_update:
  assumes "\<And>p. pj_id (f p) = pj_id p \<and> pj_version (f p) = pj_version p + 1"
    and "project_rows b = update_where sel f (project_rows a)"
  shows "revised a b"
  unfolding revised_def
proof
  fix p assume "p \<in> set (project_rows a)"
  then have "(if sel p then f p else p) \<in> set (project_rows b)" by (simp add: assms(2) update_where_def)
  then show "\<exists>q\<in>set (project_rows b). pj_id q = pj_id p \<and> (q = p \<or> pj_version p < pj_version q)"
    by (rule rev_bexI) (simp add: assms(1))
qed

lemma revised_place: "project_rows b = place_projects env ws xs (project_rows a) \<Longrightarrow> revised a b"
proof (induction xs arbitrary: a)
  case Nil
  then show ?case by (simp add: revised_same)
next
  case (Cons x xs)
  obtain slot i where x: "x = (slot, i)" by fastforce
  let ?a = "a\<lparr>project_rows := update_where (\<lambda>p. pj_id p = uuid_in env i \<and> pj_workspaceId p = uuid_in env ws)
      (\<lambda>p. (touch env p)\<lparr>pj_sortOrder := slot\<rparr>) (project_rows a)\<rparr>"
  have "revised a ?a" by (rule revised_update [where f = "\<lambda>p. (touch env p)\<lparr>pj_sortOrder := slot\<rparr>"]) (simp_all add: touch_def)
  moreover have "revised ?a b" by (rule Cons.IH) (use Cons.prems in \<open>simp add: x\<close>)
  ultimately show ?case by (rule revised_trans)
qed

interpretation revision_law: project_relation revised env for env
proof (unfold_locales, goal_cases)
  case (3 ws t p)
  then show ?case by (auto simp: tx_keeps_def intro: revised_same dest: tx_event_tables)
next
  case (4 f sel e)
  then have "revised db (db\<lparr>project_rows := update_where sel f (project_rows db)\<rparr>)" for db
    by (rule revised_update) simp
  then show ?case by (auto simp: tx_keeps_def update_project_def split: option.splits if_splits)
next
  case (5 input ws)
  then show ?case by (auto simp: tx_keeps_def insert_project_def revised_def split: if_splits)
qed (auto intro: revised_refl revised_trans revised_place revised_same)

section \<open>The unique constraints\<close>

text \<open>What the database promises of uuid columns: reading a spelling gives its canonical form, and generated
  ids are canonical.\<close>

definition env_ok :: "db_env \<Rightarrow> bool" where
  "env_ok env \<longleftrightarrow> (\<forall>s. uuid_in env (uuid_in env s) = uuid_in env s \<and> (s \<noteq> [] \<longrightarrow> uuid_in env s \<noteq> []))
     \<and> (\<forall>n. uuid_in env (new_id env n) = new_id env n \<and> new_id env n \<noteq> [])"

definition same_keys :: "product_db \<Rightarrow> product_db \<Rightarrow> bool" where
  "same_keys a b \<longleftrightarrow> map pj_id (project_rows b) = map pj_id (project_rows a)
     \<and> map ch_id (channel_rows b) = map ch_id (channel_rows a)
     \<and> membership_rows b = membership_rows a
     \<and> map (\<lambda>m. (pm_projectId m, pm_userId m)) (member_rows b) = map (\<lambda>m. (pm_projectId m, pm_userId m)) (member_rows a)"

lemma tables_ok_keys:
  "tables_ok env db \<longleftrightarrow> distinct (map pj_id (project_rows db)) \<and> distinct (map ch_id (channel_rows db))
     \<and> distinct (map (\<lambda>m. (ms_workspaceId m, ms_userId m)) (membership_rows db))
     \<and> distinct (map (\<lambda>m. (pm_projectId m, pm_userId m)) (member_rows db))
     \<and> list_all (\<lambda>i. uuid_in env i = i \<and> i \<noteq> []) (map pj_id (project_rows db))"
  by (auto simp: tables_ok_def list_all_iff)

lemma same_keys_ok: "same_keys a b \<Longrightarrow> tables_ok env a \<longrightarrow> tables_ok env b"
  by (simp add: same_keys_def tables_ok_keys)

lemma update_where_keys: "(\<And>r. k (f r) = k r) \<Longrightarrow> map k (update_where sel f rows) = map k rows"
  by (simp add: update_where_def)

lemma place_keys: "map pj_id (place_projects env ws xs rows) = map pj_id rows"
  by (induction env ws xs rows rule: place_projects.induct) (simp_all add: update_where_keys touch_def)

lemma upsert_member_keys:
  "map (\<lambda>m. (pm_projectId m, pm_userId m)) (snd (upsert_member env ws pid u role rows)) =
     (let ks = map (\<lambda>m. (pm_projectId m, pm_userId m)) rows in
      if (uuid_in env pid, uuid_in env u) \<in> set ks then ks else ks @ [(uuid_in env pid, uuid_in env u)])"
proof (cases "find (\<lambda>m. pm_projectId m = uuid_in env pid \<and> pm_userId m = uuid_in env u) rows")
  case None
  then have "(uuid_in env pid, uuid_in env u) \<notin> (\<lambda>m. (pm_projectId m, pm_userId m)) ` set rows"
    by (auto simp: find_None_iff)
  with None show ?thesis by (simp add: upsert_member_def Let_def)
next
  case (Some m)
  then have "(uuid_in env pid, uuid_in env u) \<in> (\<lambda>m. (pm_projectId m, pm_userId m)) ` set rows"
    by (auto simp: image_iff dest!: find_Some_mem intro!: bexI [of _ m])
  with Some show ?thesis by (simp add: upsert_member_def Let_def update_where_keys)
qed

lemma insert_project_ok:
  assumes "env_ok env" "pc_id input \<noteq> Some []" "tables_ok env db"
    and "insert_project (new_project env db ws input) db = Inr (a, db')"
  shows "tables_ok env db'"
  using assms by (auto simp: insert_project_def tables_ok_def env_ok_def new_project_def split: if_splits option.splits)

interpretation tables_law: project_relation "\<lambda>a b. env_ok env \<longrightarrow> tables_ok env a \<longrightarrow> tables_ok env b" env for env
proof (unfold_locales, goal_cases)
  case (3 ws t p)
  have "same_keys db db'" if "tx_event env ws t p db = Inr (a, db')" for db a db'
    using tx_event_tables [OF that] by (simp add: same_keys_def)
  then show ?case using same_keys_ok unfolding tx_keeps_def by blast
next
  case (4 f sel e)
  then have "same_keys db (db\<lparr>project_rows := update_where sel f (project_rows db)\<rparr>)" for db
    by (simp add: same_keys_def update_where_keys)
  then show ?case by (auto simp: tx_keeps_def update_project_def dest: same_keys_ok split: option.splits if_splits)
next
  case (5 input ws)
  then show ?case by (auto simp: tx_keeps_def intro: insert_project_ok)
next
  case (6 db ws xs)
  show ?case by (simp add: tables_ok_keys place_keys)
next
  case (7 cs db)
  then show ?case by (auto simp: tables_ok_keys)
next
  case (8 db ws pid u role)
  show ?case by (auto simp: tables_ok_keys upsert_member_keys Let_def)
next
  case (9 db q)
  show ?case by (auto simp: tables_ok_keys distinct_map_filter)
qed auto

section \<open>Reachable tables\<close>

text \<open>One committed transaction of the project modules, at any time.\<close>

inductive project_step :: "db_env \<Rightarrow> product_db \<Rightarrow> product_db \<Rightarrow> bool" for env where
  create: "createProject env ws user input db = Inr (r, db') \<Longrightarrow> project_step env db db'"
| update: "updateProject env ws pid user u db = Inr (r, db') \<Longrightarrow> project_step env db db'"
| archive: "archiveProject env ws pid user db = Inr ((), db') \<Longrightarrow> project_step env db db'"
| soft_delete: "softDeleteProject env ws pid user db = Inr ((), db') \<Longrightarrow> project_step env db db'"
| promote: "promoteProjectState env ws pid user confirmed v db = Inr (r, db') \<Longrightarrow> project_step env db db'"
| reorder: "reorderProjects env ws user ids db = Inr (rs, db') \<Longrightarrow> project_step env db db'"
| visibility: "setProjectVisibility env ws pid user vis db = Inr (r, db') \<Longrightarrow> project_step env db db'"
| set_member: "setProjectMember env ws pid user role target db = Inr (m, db') \<Longrightarrow> project_step env db db'"
| remove_member: "removeProjectMember env ws pid user target db = Inr (b, db') \<Longrightarrow> project_step env db db'"

definition later :: "db_env \<Rightarrow> product_db \<Rightarrow> product_db \<Rightarrow> bool" where
  "later env = (\<lambda>a b. \<exists>t. project_step (env\<lparr>clock_ms := t\<rparr>) a b)\<^sup>*\<^sup>*"

context project_relation
begin

lemma step_keeps: "project_step env a b \<Longrightarrow> R a b"
  by (induction rule: project_step.induct)
    (blast dest: tx_keepsD [OF keeps_createProject] tx_keepsD [OF keeps_updateProject] tx_keepsD [OF keeps_archiveProject]
      tx_keepsD [OF keeps_softDeleteProject] tx_keepsD [OF keeps_promoteProjectState] tx_keepsD [OF keeps_reorderProjects]
      tx_keepsD [OF keeps_setProjectVisibility] tx_keepsD [OF keeps_setProjectMember] tx_keepsD [OF keeps_removeProjectMember])+

end

text \<open>A relation that every clock keeps, along a run.\<close>

lemma later_keeps:
  assumes "later env a b" and "R a a" and "\<And>x y z. R x y \<Longrightarrow> R y z \<Longrightarrow> R x z"
    and "\<And>t x y. project_step (env\<lparr>clock_ms := t\<rparr>) x y \<Longrightarrow> R x y"
  shows "R a b"
  using assms(1) unfolding later_def
  by (induction rule: rtranclp_induct) (use assms in blast)+

lemma env_ok_clock [simp]: "env_ok (env\<lparr>clock_ms := t\<rparr>) = env_ok env"
  by (simp add: env_ok_def)

lemma tables_ok_clock [simp]: "tables_ok (env\<lparr>clock_ms := t\<rparr>) db = tables_ok env db"
  by (simp add: tables_ok_def)

lemma later_tables_ok: "later env a b \<Longrightarrow> env_ok env \<Longrightarrow> tables_ok env a \<Longrightarrow> tables_ok env b"
  using later_keeps [where R = "\<lambda>a b. env_ok env \<longrightarrow> tables_ok env a \<longrightarrow> tables_ok env b"] tables_law.step_keeps by fastforce

lemma later_revised: "later env a b \<Longrightarrow> revised a b"
  by (rule later_keeps) (auto intro: revised_refl revised_trans revision_law.step_keeps)

lemma later_log_inv: "later env a b \<Longrightarrow> log_inv a \<Longrightarrow> log_inv b"
  using later_keeps [where R = "\<lambda>a b. log_inv a \<longrightarrow> log_inv b"] log_law.step_keeps by blast

end
