(* ===== verification/Project_Lifecycle.thy ===== *)
theory Project_Lifecycle
  imports Project_Laws
begin

text \<open>
  What the project operations promise: the revision token, the archive and promotion cascades over the
  channels of a project, and who can reach a project by which spelling of its id.
\<close>

section \<open>A cascade is one bulk update\<close>

text \<open>What a cascade does to the table, written as one update.\<close>

definition bulk :: "db_env \<Rightarrow> string \<Rightarrow> string \<Rightarrow> (channel_row \<Rightarrow> bool) \<Rightarrow> (channel_row \<Rightarrow> channel_row) \<Rightarrow> channel_row list \<Rightarrow> channel_row list" where
  "bulk env ws pid sel upd rows =
     map (\<lambda>r. if ch_workspaceId r = uuid_in env ws \<and> ch_projectId r = Some (uuid_in env pid) \<and> sel r
         then (upd r)\<lparr>ch_updatedAt := clock_ms env, ch_version := ch_version r + 1\<rparr> else r) rows"

definition stamp :: "db_env \<Rightarrow> (channel_row \<Rightarrow> channel_row) \<Rightarrow> channel_row \<Rightarrow> channel_row" where
  "stamp env upd r = (upd r)\<lparr>ch_updatedAt := clock_ms env, ch_version := ch_version r + 1\<rparr>"

lemma swap_channel_rows:
  assumes "swap_channel env ws sel upd c db = Inr (u, db')" "distinct (map ch_id (channel_rows db))"
    "c \<in> set (channel_rows db)" "sel c" "ch_workspaceId c = uuid_in env ws"
  shows "channel_rows db' = map (\<lambda>r. if ch_id r = ch_id c then stamp env upd r else r) (channel_rows db)"
    and "project_rows db' = project_rows db" "membership_rows db' = membership_rows db" "member_rows db' = member_rows db"
proof -
  have same: "r = c" if "r \<in> set (channel_rows db)" "ch_id r = ch_id c" for r
    using assms(2,3) that by (metis distinct_map inj_onD)
  have at: "(if ch_id r = ch_id c \<and> ch_workspaceId r = uuid_in env ws \<and> sel r \<and> ch_version r = ch_version c
        then (upd r)\<lparr>ch_updatedAt := clock_ms env, ch_version := ch_version c + 1\<rparr> else r)
      = (if ch_id r = ch_id c then stamp env upd r else r)" if "r \<in> set (channel_rows db)" for r
    using same [OF that] assms(4,5) by (auto simp: stamp_def)
  from assms(1) show "channel_rows db' = map (\<lambda>r. if ch_id r = ch_id c then stamp env upd r else r) (channel_rows db)"
    by (simp add: swap_channel_def Let_def update_where_def at cong: map_cong split: option.splits) (auto simp: at cong: map_cong)
  from assms(1) show "project_rows db' = project_rows db" "membership_rows db' = membership_rows db" "member_rows db' = member_rows db"
    by (auto simp: swap_channel_def Let_def split: option.splits)
qed

lemma cascade_rows:
  assumes "cascade env ws pid user ev sel upd cs db = Inr (u, db')"
    and "distinct (map ch_id (channel_rows db))" "distinct (map ch_id cs)" "set cs \<subseteq> set (channel_rows db)"
    and "\<forall>c\<in>set cs. sel c \<and> ch_workspaceId c = uuid_in env ws" and "\<And>r. ch_id (upd r) = ch_id r"
  shows "channel_rows db' = map (\<lambda>r. if ch_id r \<in> ch_id ` set cs then stamp env upd r else r) (channel_rows db)
    \<and> project_rows db' = project_rows db \<and> membership_rows db' = membership_rows db \<and> member_rows db' = member_rows db"
  using assms
proof (induction cs arbitrary: db)
  case Nil
  then show ?case by (simp add: tx_return_def)
next
  case (Cons c cs)
  from Cons.prems(1) obtain db1 db2 where swap: "swap_channel env ws sel upd c db = Inr ((), db1)"
    and ev: "tx_event env ws ev (actor_payload user [(''channelId'', Json_str (ch_id c)), (''projectId'', Json_str pid)]) db1 = Inr ((), db2)"
    and rest: "cascade env ws pid user ev sel upd cs db2 = Inr (u, db')"
    by (auto simp: tx_bind_def channel_event_def split: sum.splits)
  have rows: "channel_rows db2 = map (\<lambda>r. if ch_id r = ch_id c then stamp env upd r else r) (channel_rows db)"
    and others: "project_rows db2 = project_rows db" "membership_rows db2 = membership_rows db" "member_rows db2 = member_rows db"
    using swap_channel_rows [OF swap Cons.prems(2)] Cons.prems(4,5) tx_event_tables [OF ev] by simp_all
  have id: "ch_id (stamp env upd r) = ch_id r" for r by (simp add: stamp_def Cons.prems(6))
  have "map ch_id (channel_rows db2) = map ch_id (channel_rows db)" by (simp add: rows id)
  moreover have "set cs \<subseteq> set (channel_rows db2)"
    using Cons.prems(3,4) by (force simp: rows image_iff)
  ultimately have "channel_rows db' = map (\<lambda>r. if ch_id r \<in> ch_id ` set cs then stamp env upd r else r) (channel_rows db2)
      \<and> project_rows db' = project_rows db2 \<and> membership_rows db' = membership_rows db2 \<and> member_rows db' = member_rows db2"
    using Cons.IH [OF rest] Cons.prems by simp
  then show ?case using Cons.prems(3) others by (auto simp: rows id)
qed

text \<open>The two cascades differ only in which channels they take and what they write.\<close>

lemma project_cascade:
  assumes "tx_bind (cascade env ws pid user ev sel upd (project_channels env db ws pid sel))
      (\<lambda>_. tx_return (length (project_channels env db ws pid sel))) db = Inr (n, db')"
    and "distinct (map ch_id (channel_rows db))" and "\<And>r. ch_id (upd r) = ch_id r"
  shows "channel_rows db' = bulk env ws pid sel upd (channel_rows db)
    \<and> project_rows db' = project_rows db \<and> membership_rows db' = membership_rows db \<and> member_rows db' = member_rows db"
proof -
  let ?q = "\<lambda>c. ch_workspaceId c = uuid_in env ws \<and> ch_projectId c = Some (uuid_in env pid) \<and> sel c"
  have set: "set (project_channels env db ws pid sel) = {c \<in> set (channel_rows db). ?q c}"
    by (auto simp: project_channels_def)
  have inj: "inj_on ch_id (set (channel_rows db))" using assms(2) by (simp add: distinct_map)
  have "distinct (map ch_id (project_channels env db ws pid sel))"
    using assms(2) inj_on_subset [OF inj, of "{c \<in> set (channel_rows db). ?q c}"]
    by (simp add: distinct_map set) (simp add: project_channels_def distinct_map)
  moreover from assms(1) obtain u where "cascade env ws pid user ev sel upd (project_channels env db ws pid sel) db = Inr (u, db')"
    by (auto simp: tx_bind_def tx_return_def split: sum.splits)
  ultimately have "channel_rows db' = map (\<lambda>r. if ch_id r \<in> ch_id ` {c \<in> set (channel_rows db). ?q c} then stamp env upd r else r) (channel_rows db)
      \<and> project_rows db' = project_rows db \<and> membership_rows db' = membership_rows db \<and> member_rows db' = member_rows db"
    using cascade_rows [OF _ assms(2) _ _ _ assms(3)] by (simp add: set)
  moreover have "ch_id r \<in> ch_id ` {c \<in> set (channel_rows db). ?q c} \<longleftrightarrow> ?q r" if "r \<in> set (channel_rows db)" for r
    using inj that by (auto dest: inj_onD)
  ultimately show ?thesis by (simp add: bulk_def stamp_def)
qed

lemma archive_channels_rows:
  assumes "archiveProjectChannels env ws pid user db = Inr (n, db')" and "distinct (map ch_id (channel_rows db))"
  shows "channel_rows db' = bulk env ws pid is_awake to_sleep (channel_rows db)
    \<and> project_rows db' = project_rows db \<and> membership_rows db' = membership_rows db \<and> member_rows db' = member_rows db"
  using project_cascade [OF assms(1) [unfolded archiveProjectChannels_def Let_def] assms(2)] by (simp add: to_sleep_def)

lemma restore_channels_rows:
  assumes "restoreProjectChannels env ws pid user db = Inr (n, db')" and "distinct (map ch_id (channel_rows db))"
  shows "channel_rows db' = bulk env ws pid cascaded wake (channel_rows db)
    \<and> project_rows db' = project_rows db \<and> membership_rows db' = membership_rows db \<and> member_rows db' = member_rows db"
  using project_cascade [OF assms(1) [unfolded restoreProjectChannels_def Let_def] assms(2)] by (simp add: wake_def)

section \<open>The state changes\<close>

lemma update_projectE:
  assumes "update_project sel f e db = Inr (row, db')"
  obtains p where "find sel (project_rows db) = Some p" "row = f p" "p \<in> set (project_rows db)" "sel p"
    "db' = db\<lparr>project_rows := update_where sel f (project_rows db)\<rparr>"
  using assms by (auto simp: update_project_def returning_def split: option.splits if_splits dest!: find_Some_mem)

lemma archiveProject_rows:
  assumes "archiveProject env ws pid user db = Inr (u, db')" and "distinct (map ch_id (channel_rows db))"
  shows "channel_rows db' = bulk env ws pid is_awake to_sleep (channel_rows db)
    \<and> project_rows db' = update_where (activeProjectFilter env ws (Some pid)) (\<lambda>p. (touch env p)\<lparr>pj_lifecycle := PArchived\<rparr>) (project_rows db)
    \<and> (\<exists>p\<in>set (project_rows db). activeProjectFilter env ws (Some pid) p) \<and> isProjectId pid"
proof -
  have pid: "isProjectId pid" using assms(1) by (auto simp: archiveProject_def tx_fail_def split: if_splits)
  from assms(1) obtain n db1 p row db2 where "archiveProjectChannels env ws pid user db = Inr (n, db1)"
    and up: "update_project (activeProjectFilter env ws (Some pid)) (\<lambda>p. (touch env p)\<lparr>pj_lifecycle := PArchived\<rparr>) Project_unavailable db1 = Inr (row, db2)"
    and ev: "tx_event env ws ''project.archived'' p db2 = Inr (u, db')"
    unfolding archiveProject_def write_access_def lockProjectForStateChange_def
    by (auto simp: pid elim!: tx_bindE tx_checkE)
  with archive_channels_rows [OF _ assms(2)] have "channel_rows db1 = bulk env ws pid is_awake to_sleep (channel_rows db)"
    "project_rows db1 = project_rows db" by blast+
  moreover from up obtain q where "q \<in> set (project_rows db1)" "activeProjectFilter env ws (Some pid) q"
    "db2 = db1\<lparr>project_rows := update_where (activeProjectFilter env ws (Some pid)) (\<lambda>p. (touch env p)\<lparr>pj_lifecycle := PArchived\<rparr>) (project_rows db1)\<rparr>"
    by (rule update_projectE)
  ultimately show ?thesis using tx_event_tables [OF ev] pid by auto
qed

definition promotable :: "db_env \<Rightarrow> string \<Rightarrow> string \<Rightarrow> int \<Rightarrow> project_row \<Rightarrow> bool" where
  "promotable env ws pid v p \<longleftrightarrow> pj_id p = uuid_in env pid \<and> pj_workspaceId p = uuid_in env ws
     \<and> pj_lifecycle p = PArchived \<and> pj_deletedAt p = None \<and> pj_version p = v"

lemma promote_rows:
  assumes "promoteProjectState env ws pid user confirmed v db = Inr (r, db')" and "distinct (map ch_id (channel_rows db))"
  shows "channel_rows db' = bulk env ws pid cascaded wake (channel_rows db)
    \<and> project_rows db' = update_where (promotable env ws pid (int_of_jsval v)) (\<lambda>p. (touch env p)\<lparr>pj_lifecycle := PActive\<rparr>) (project_rows db)
    \<and> (\<exists>p\<in>set (project_rows db). promotable env ws pid (int_of_jsval v) p \<and> r = projectSummary ((touch env p)\<lparr>pj_lifecycle := PActive\<rparr>))
    \<and> is_safe_integer v \<and> confirmed"
proof -
  have pid: "isProjectId pid" using assms(1) by (auto simp: promoteProjectState_def tx_fail_def split: if_splits)
  from assms(1) obtain row plan n db1 updated db2 pl where
    plan: "decideProjectStatePromotion (Some row) ws v confirmed = Inr plan"
    and restored: "restoreProjectChannels env ws pid user db = Inr (n, db1)"
    and up: "update_project (\<lambda>p. pj_id p = uuid_in env pid \<and> pj_workspaceId p = uuid_in env ws
           \<and> pj_lifecycle p = PArchived \<and> pj_deletedAt p = None \<and> pj_version p = pp_expectedVersion plan)
         (\<lambda>p. (touch env p)\<lparr>pj_lifecycle := PActive\<rparr>) (Promotion_refused Promotion_stale) db1 = Inr (updated, db2)"
    and ev: "tx_event env ws ''project.restored'' pl db2 = Inr ((), db')" and r: "r = projectSummary updated"
    unfolding promoteProjectState_def write_access_def lockProjectForStateChange_def
    by (auto simp: pid tx_fail_def tx_return_def elim!: tx_bindE tx_checkE split: sum.splits)
  from plan have v: "pp_expectedVersion plan = int_of_jsval v" "is_safe_integer v" "confirmed"
    by (auto simp: decideProjectStatePromotion_def split: if_splits)
  then have "(\<lambda>p. pj_id p = uuid_in env pid \<and> pj_workspaceId p = uuid_in env ws
      \<and> pj_lifecycle p = PArchived \<and> pj_deletedAt p = None \<and> pj_version p = pp_expectedVersion plan)
    = promotable env ws pid (int_of_jsval v)" by (simp add: promotable_def fun_eq_iff)
  with up obtain q where "q \<in> set (project_rows db1)" "promotable env ws pid (int_of_jsval v) q"
    "updated = (touch env q)\<lparr>pj_lifecycle := PActive\<rparr>"
    "db2 = db1\<lparr>project_rows := update_where (promotable env ws pid (int_of_jsval v)) (\<lambda>p. (touch env p)\<lparr>pj_lifecycle := PActive\<rparr>) (project_rows db1)\<rparr>"
    by (auto elim!: update_projectE)
  then show ?thesis using restore_channels_rows [OF restored assms(2)] tx_event_tables [OF ev] v r by auto
qed

section \<open>Archiving and promoting is a round trip\<close>

text \<open>C12: archiving a project and then promoting it back. Exactly the channels of the project that were active
  when it was archived are active again, with their version two higher, and a channel the user had
  archived on its own stays archived and untouched; no channel of another project changes. The
  project itself is active again, unchanged but for its version and its time stamp. Before, no channel of the
  project carries the mark of an archived project.\<close>

theorem archive_promote_round_trip:
  assumes "archiveProject env ws pid user db = Inr ((), db1)"
    and "promoteProjectState (env\<lparr>clock_ms := t\<rparr>) ws pid user' confirmed v db1 = Inr (r, db2)"
    and "distinct (map ch_id (channel_rows db))" and "distinct (map pj_id (project_rows db))"
    and "list_all (\<lambda>c. ch_projectId c = Some (uuid_in env pid) \<longrightarrow> \<not> cascaded c) (channel_rows db)"
  shows "channel_rows db2 = map (\<lambda>c. if ch_workspaceId c = uuid_in env ws \<and> ch_projectId c = Some (uuid_in env pid) \<and> ch_lifecycle c = PActive
           then c\<lparr>ch_archiveSource := Individual, ch_updatedAt := t, ch_version := ch_version c + 2\<rparr> else c) (channel_rows db)
    \<and> project_rows db2 = map (\<lambda>p. if activeProjectFilter env ws (Some pid) p
           then p\<lparr>pj_updatedAt := t, pj_version := pj_version p + 2\<rparr> else p) (project_rows db)"
proof -
  let ?env = "env\<lparr>clock_ms := t\<rparr>"
  note a = archiveProject_rows [OF assms(1,3)]
  have "map ch_id (channel_rows db1) = map ch_id (channel_rows db)" using a by (simp add: bulk_def to_sleep_def)
  then have d: "distinct (map ch_id (channel_rows db1))" using assms(3) by simp
  note b = promote_rows [OF assms(2) d]
  have ne: "pid \<noteq> []" using a not_isProjectId_Nil by blast
  from a obtain p where p: "p \<in> set (project_rows db)" "activeProjectFilter env ws (Some pid) p" by blast
  have "pj_id p = uuid_in env pid" using p(2) ne by (simp add: activeProjectFilter_def)
  moreover have "inj_on pj_id (set (project_rows db))" using assms(4) by (simp add: distinct_map)
  ultimately have unique: "q = p" if "q \<in> set (project_rows db)" "pj_id q = uuid_in env pid" for q
    using that p(1) by (metis inj_onD)
  from b obtain q where q: "q \<in> set (project_rows db1)" "promotable ?env ws pid (int_of_jsval v) q" by blast
  let ?f = "\<lambda>p. (touch env p)\<lparr>pj_lifecycle := PArchived\<rparr>"
  from q(1) a obtain x where x: "x \<in> set (project_rows db)" "q = (if activeProjectFilter env ws (Some pid) x then ?f x else x)"
    by (auto simp: update_where_def)
  with q(2) have "pj_id x = uuid_in env pid" by (auto simp: promotable_def touch_def split: if_splits)
  with unique x(1) have "x = p" by blast
  with x(2) q(2) p(2) have v: "int_of_jsval v = pj_version p + 1" by (simp add: promotable_def touch_def)
  have "channel_rows db2 = map (\<lambda>c. if ch_workspaceId c = uuid_in env ws \<and> ch_projectId c = Some (uuid_in env pid) \<and> ch_lifecycle c = PActive
           then c\<lparr>ch_archiveSource := Individual, ch_updatedAt := t, ch_version := ch_version c + 2\<rparr> else c) (channel_rows db)"
    using a b assms(5)
    by (auto simp: bulk_def list_all_iff is_awake_def cascaded_def to_sleep_def wake_def)
  moreover have "project_rows db2 = map (\<lambda>p. if activeProjectFilter env ws (Some pid) p
           then p\<lparr>pj_updatedAt := t, pj_version := pj_version p + 2\<rparr> else p) (project_rows db)"
  proof -
    have "(if promotable ?env ws pid (int_of_jsval v) y then (touch ?env y)\<lparr>pj_lifecycle := PActive\<rparr> else y)
        = (if activeProjectFilter env ws (Some pid) x then x\<lparr>pj_updatedAt := t, pj_version := pj_version x + 2\<rparr> else x)"
      if x: "x \<in> set (project_rows db)" and y: "y = (if activeProjectFilter env ws (Some pid) x then ?f x else x)" for x y
    proof (cases "x = p")
      case True
      with y p(2) v ne show ?thesis by (auto simp: promotable_def touch_def activeProjectFilter_def)
    next
      case False
      with unique x have "pj_id x \<noteq> uuid_in env pid" by blast
      with y ne show ?thesis by (auto simp: promotable_def activeProjectFilter_def)
    qed
    with a b show ?thesis by (auto simp: update_where_def)
  qed
  ultimately show ?thesis by blast
qed

section \<open>The revision token\<close>

lemma revision_unique:
  assumes "later env db db'" "env_ok env" "tables_ok env db" "p \<in> set (project_rows db)" "q \<in> set (project_rows db')" "pj_id q = pj_id p"
  shows "q = p \<or> pj_version p < pj_version q"
proof -
  from later_revised [OF assms(1)] assms(4) obtain q' where q': "q' \<in> set (project_rows db')" "pj_id q' = pj_id p"
    "q' = p \<or> pj_version p < pj_version q'" by (auto simp: revised_def)
  have "distinct (map pj_id (project_rows db'))" using later_tables_ok [OF assms(1-3)] by (simp add: tables_ok_def)
  then have "q' = q" using q' assms(5,6) by (metis distinct_map inj_onD)
  with q'(3) show ?thesis by simp
qed

text \<open>C16: optimistic concurrency. A client observed a project, any number of transactions of the project
  modules committed in between, and the client now promotes the project with the version it had seen:
  if the promotion is accepted, the project is, in every field, still the one the client observed.\<close>

theorem promotion_acts_on_observed:
  assumes "env_ok env" and "tables_ok env db" and "p \<in> set (project_rows db)" and "later env db db1"
    and "promoteProjectState (env\<lparr>clock_ms := t\<rparr>) ws (pj_id p) user confirmed (JNum (NInt (pj_version p))) db1 = Inr (r, db2)"
  shows "p \<in> set (project_rows db1) \<and> r = projectSummary (p\<lparr>pj_updatedAt := t, pj_version := pj_version p + 1, pj_lifecycle := PActive\<rparr>)"
proof -
  have ok: "tables_ok env db1" by (rule later_tables_ok [OF assms(4,1,2)])
  then have "distinct (map ch_id (channel_rows db1))" by (simp add: tables_ok_def)
  from promote_rows [OF assms(5) this] obtain q where q: "q \<in> set (project_rows db1)" "pj_id q = uuid_in env (pj_id p)" "pj_version q = pj_version p"
    "r = projectSummary ((touch (env\<lparr>clock_ms := t\<rparr>) q)\<lparr>pj_lifecycle := PActive\<rparr>)" by (auto simp: promotable_def)
  have "uuid_in env (pj_id p) = pj_id p" using assms(2,3) by (simp add: tables_ok_def)
  with q revision_unique [OF assms(4,1,2,3) q(1)] show ?thesis by (auto simp: touch_def)
qed

text \<open>C4: whatever project transactions commit, in whatever order, the unique keys and canonical ids of the
  tables, the gap-free event log and every project once created are kept, and the version of a project
  never decreases and is unchanged only when the whole row is.\<close>

theorem project_history_sound:
  assumes "env_ok env" and "tables_ok env db" and "log_inv db" and "later env db db'"
  shows "tables_ok env db' \<and> log_inv db'
    \<and> list_all (\<lambda>p. list_ex (\<lambda>q. pj_id q = pj_id p) (project_rows db')) (project_rows db)
    \<and> list_all (\<lambda>p. list_all (\<lambda>q. pj_id q = pj_id p \<longrightarrow> pj_version p \<le> pj_version q \<and> (pj_version q = pj_version p \<longleftrightarrow> q = p)) (project_rows db')) (project_rows db)"
proof (intro conjI)
  show "tables_ok env db'" "log_inv db'" using later_tables_ok later_log_inv assms by blast+
  show "list_all (\<lambda>p. list_ex (\<lambda>q. pj_id q = pj_id p) (project_rows db')) (project_rows db)"
    using later_revised [OF assms(4)] unfolding revised_def list_all_iff list_ex_iff by blast
  show "list_all (\<lambda>p. list_all (\<lambda>q. pj_id q = pj_id p \<longrightarrow> pj_version p \<le> pj_version q \<and> (pj_version q = pj_version p \<longleftrightarrow> q = p)) (project_rows db')) (project_rows db)"
    using revision_unique [OF assms(4,1,2)] unfolding list_all_iff by (metis less_irrefl less_imp_le order_refl)
qed

section \<open>Who reaches a project\<close>

lemma find_by_id:
  assumes "tables_ok env db" "p \<in> set (project_rows db)"
  shows "find (\<lambda>q. pj_id q = pj_id p \<and> Q q) (project_rows db) = (if Q p then Some p else None)"
proof -
  have "inj_on pj_id (set (project_rows db))" using assms(1) by (simp add: tables_ok_def distinct_map)
  then have same: "q = p" if "q \<in> set (project_rows db)" "pj_id q = pj_id p" for q using that assms(2) by (metis inj_onD)
  show ?thesis
  proof (cases "find (\<lambda>q. pj_id q = pj_id p \<and> Q q) (project_rows db)")
    case None
    then have "\<not> Q p" using assms(2) by (auto simp: find_None_iff)
    with None show ?thesis by simp
  next
    case (Some q)
    then show ?thesis using same [of q] by (auto dest: find_Some_mem)
  qed
qed

text \<open>C22: the two reads are exact. For a member of the workspace the listing holds precisely the undeleted
  projects of the workspace the member may see, archived ones only when they are asked for, each once, in order, and
  nobody else gets a listing; fetching one project by its canonical id gives it precisely when it is in the listing.\<close>

theorem project_reads_exact:
  assumes "tables_ok env db" and "uuid_in env user = user"
  shows "listProjectsForUser env db ws user archived =
      (if role_in db (uuid_in env ws) user = None then Inl Project_unavailable
       else Inr (map projectSummary (sort_key project_order (filter (\<lambda>p. pj_workspaceId p = uuid_in env ws \<and> pj_deletedAt p = None
         \<and> may_see db (uuid_in env ws) user p \<and> (archived \<or> pj_lifecycle p = PActive)) (project_rows db)))))
    \<and> list_all (\<lambda>p. isProjectId (pj_id p) \<longrightarrow> getProjectForUser env db ws (pj_id p) user archived =
        (if pj_workspaceId p = uuid_in env ws \<and> pj_deletedAt p = None \<and> may_see db (uuid_in env ws) user p
           \<and> (archived \<or> pj_lifecycle p = PActive) then Some (projectSummary p) else None)) (project_rows db)"
proof (cases "resolveProjectAccessScope env db ws user")
  case None
  then have "role_in db (uuid_in env ws) user = None" using scope_None_iff [OF assms(2)] by blast
  with None show ?thesis
    by (auto simp: listProjectsForUser_def requireProjectAccessScope_def rbind_def getProjectForUser_def may_see_def list_all_iff)
next
  case (Some sc)
  have role: "role_in db (uuid_in env ws) user \<noteq> None" using scope_None_iff [OF assms(2), of db ws] Some by simp
  note see = scope_may_see(1) [OF assms _ _ Some]
  have id: "uuid_in env (pj_id p) = pj_id p" "pj_id p \<noteq> []" if "p \<in> set (project_rows db)" for p
    using assms(1) that by (auto simp: tables_ok_def)
  have vis: "visibleProjectCondition sc (Some (pj_id p)) = may_see db (uuid_in env ws) user p"
    if "p \<in> set (project_rows db)" "pj_workspaceId p = uuid_in env ws" for p
    using see [OF that] id(2) [OF that(1)] by (simp add: visibleProjectCondition_def canReadProject_def)
  have "filter (\<lambda>p. pj_workspaceId p = uuid_in env ws \<and> pj_deletedAt p = None \<and> visibleProjectCondition sc (Some (pj_id p))
          \<and> (archived \<or> pj_lifecycle p = PActive)) (project_rows db)
      = filter (\<lambda>p. pj_workspaceId p = uuid_in env ws \<and> pj_deletedAt p = None \<and> may_see db (uuid_in env ws) user p
          \<and> (archived \<or> pj_lifecycle p = PActive)) (project_rows db)"
    by (rule filter_cong) (auto simp: vis)
  then have "listProjectsForUser env db ws user archived = Inr (map projectSummary (sort_key project_order (filter (\<lambda>p. pj_workspaceId p = uuid_in env ws \<and> pj_deletedAt p = None
         \<and> may_see db (uuid_in env ws) user p \<and> (archived \<or> pj_lifecycle p = PActive)) (project_rows db))))"
    using Some by (simp add: listProjectsForUser_def requireProjectAccessScope_def rbind_def)
  moreover have "getProjectForUser env db ws (pj_id p) user archived =
        (if pj_workspaceId p = uuid_in env ws \<and> pj_deletedAt p = None \<and> may_see db (uuid_in env ws) user p
           \<and> (archived \<or> pj_lifecycle p = PActive) then Some (projectSummary p) else None)"
    if p: "p \<in> set (project_rows db)" and u: "isProjectId (pj_id p)" for p
    using see [OF p] u Some by (auto simp: getProjectForUser_def id [OF p] find_by_id [OF assms(1) p])
  ultimately show ?thesis using role by (simp add: list_all_iff)
qed

text \<open>C37: the access check compares spellings, the database compares values. A workspace member who may not
  see a members-only project reads it, and passes the write check, by naming it with another spelling
  of the same id (for instance in upper case, which \<open>isProjectId\<close> accepts).\<close>

theorem hidden_project_by_other_spelling:
  assumes "tables_ok env db" and "uuid_in env user = user" and "role_in db (uuid_in env ws) user \<noteq> None"
    and "p \<in> set (project_rows db)" and "pj_workspaceId p = uuid_in env ws" and "pj_deletedAt p = None" and "pj_lifecycle p = PActive"
    and "isProjectId s" and "uuid_in env s = pj_id p" and "s \<noteq> pj_id p"
  shows "getProjectForUser env db ws s user False = Some (projectSummary p)
    \<and> write_access env ws s user db = Inr ((), db)"
proof -
  obtain sc where sc: "resolveProjectAccessScope env db ws user = Some sc"
    using scope_None_iff [OF assms(2), of db ws] assms(3) by auto
  from resolve_scope_iff(1) [OF assms(2) sc] obtain m where m: "sc = scope_of (scope_join env db ws [user]) m" by blast
  have "s \<notin> members_only_ids env db ws"
    using assms(1,9,10) by (auto simp: members_only_ids_def tables_ok_def)
  then have "s \<notin> set (sc_hiddenProjectIds sc)" "s \<notin> set (sc_membersOnlyProjectIds sc)"
    using scope_join_fst [of env db ws "[user]"] by (auto simp: m scope_of_def Let_def set_js_dedupe)
  then show ?thesis
    using sc assms(5-8) find_by_id [OF assms(1,4)]
    by (simp add: getProjectForUser_def canReadProject_def canWriteProject_def write_access_def tx_check_def rbind_def
        requireProjectAccessScope_def requireProjectWrite_def assms(9))
qed

section \<open>Witnesses\<close>

text \<open>The sample workspace after its owner archives the project, lists the member on it, and promotes it again.\<close>

definition result_db :: "project_error + 'r \<times> product_db \<Rightarrow> product_db" where
  "result_db r = (case r of Inr (_, db) \<Rightarrow> db | Inl _ \<Rightarrow> sample_db)"

definition sample_archived :: product_db where
  "sample_archived = result_db (archiveProject sample_env ''w1'' (pj_id sample_project) ''u1'' sample_db)"

definition sample_shared :: product_db where
  "sample_shared = result_db (setProjectMember sample_env ''w1'' (pj_id sample_project) ''u1'' Viewer ''u2'' sample_archived)"

definition sample_archived_row :: project_row where
  "sample_archived_row = sample_project\<lparr>pj_updatedAt := 1000, pj_version := 2, pj_lifecycle := PArchived\<rparr>"

lemma result_dbI: "\<not> isl r \<Longrightarrow> r = Inr (fst (projr r), result_db r)"
  by (cases r) (auto simp: result_db_def)

lemma sample_archive: "archiveProject sample_env ''w1'' (pj_id sample_project) ''u1'' sample_db = Inr ((), sample_archived)"
proof -
  have "\<not> isl (archiveProject sample_env ''w1'' (pj_id sample_project) ''u1'' sample_db)" by code_simp
  from result_dbI [OF this] show ?thesis by (simp add: sample_archived_def)
qed

lemma sample_share: "setProjectMember sample_env ''w1'' (pj_id sample_project) ''u1'' Viewer ''u2'' sample_archived
   = Inr (fst (projr (setProjectMember sample_env ''w1'' (pj_id sample_project) ''u1'' Viewer ''u2'' sample_archived)), sample_shared)"
proof -
  have "\<not> isl (setProjectMember sample_env ''w1'' (pj_id sample_project) ''u1'' Viewer ''u2'' sample_archived)" by code_simp
  from result_dbI [OF this] show ?thesis by (simp add: sample_shared_def)
qed

lemma sample_env_ok: "env_ok sample_env"
proof -
  have "map lower_char ''0a000000-0000-4000-8000-00000000000f'' = ''0a000000-0000-4000-8000-00000000000f''" by code_simp
  then show ?thesis by (simp add: env_ok_def sample_env_def lower_char_idem comp_def)
qed

lemma later_step: "project_step env a b \<Longrightarrow> later env a b"
proof -
  assume "project_step env a b"
  then have "\<exists>t. project_step (env\<lparr>clock_ms := t\<rparr>) a b"
    by (intro exI [of _ "clock_ms env"]) simp
  then show ?thesis unfolding later_def by blast
qed

lemma sample_log_inv: "log_inv sample_db"
  by (simp add: log_inv_def sample_db_def events_of_def last_sequence_def)

theorem archive_promote_round_trip_witness:
  "\<exists>r db2. promoteProjectState (sample_env\<lparr>clock_ms := 2000\<rparr>) ''w1'' (pj_id sample_project) ''u1'' True (JNum (NInt 2)) sample_archived = Inr (r, db2)
     \<and> map ch_lifecycle (channel_rows db2) = [PActive, PArchived] \<and> map ch_version (channel_rows db2) = [3, 1]
     \<and> map pj_version (project_rows db2) = [3]"
proof -
  let ?r = "promoteProjectState (sample_env\<lparr>clock_ms := 2000\<rparr>) ''w1'' (pj_id sample_project) ''u1'' True (JNum (NInt 2)) sample_archived"
  have "\<not> isl ?r" by code_simp
  then have r: "?r = Inr (fst (projr ?r), result_db ?r)" by (rule result_dbI)
  have "distinct (map ch_id (channel_rows sample_db))" "distinct (map pj_id (project_rows sample_db))"
    "list_all (\<lambda>c. ch_projectId c = Some (uuid_in sample_env (pj_id sample_project)) \<longrightarrow> \<not> cascaded c) (channel_rows sample_db)"
    by code_simp+
  note rows = archive_promote_round_trip [OF sample_archive r this]
  have "uuid_in sample_env ''w1'' = ''w1''" "uuid_in sample_env (pj_id sample_project) = pj_id sample_project"
    "activeProjectFilter sample_env ''w1'' (Some (pj_id sample_project)) sample_project" by code_simp+
  with rows have "map ch_lifecycle (channel_rows (result_db ?r)) = [PActive, PArchived]"
    "map ch_version (channel_rows (result_db ?r)) = [3, 1]" "map pj_version (project_rows (result_db ?r)) = [3]"
    by (simp_all add: sample_db_def sample_channel_def sample_project_def)
  with r show ?thesis by (intro exI [of _ "fst (projr ?r)"] exI [of _ "result_db ?r"] conjI)
qed

theorem project_history_sound_witness:
  "tables_ok sample_env sample_archived \<and> log_inv sample_archived \<and> map pj_version (project_rows sample_archived) = [2]"
proof -
  have "later sample_env sample_db sample_archived" by (rule later_step [OF project_step.archive [OF sample_archive]])
  from project_history_sound [OF sample_env_ok sample_tables_ok sample_log_inv this]
  have "tables_ok sample_env sample_archived \<and> log_inv sample_archived" by blast
  moreover have "map pj_version (project_rows sample_archived) = [2]" by code_simp
  ultimately show ?thesis by blast
qed

theorem promotion_acts_on_observed_witness:
  "\<exists>r db2. promoteProjectState (sample_env\<lparr>clock_ms := 2000\<rparr>) ''w1'' (pj_id sample_project) ''u1'' True (JNum (NInt 2)) sample_shared = Inr (r, db2)
     \<and> sample_archived_row \<in> set (project_rows sample_shared)
     \<and> r = projectSummary (sample_archived_row\<lparr>pj_updatedAt := 2000, pj_version := 3, pj_lifecycle := PActive\<rparr>)"
proof -
  let ?r = "promoteProjectState (sample_env\<lparr>clock_ms := 2000\<rparr>) ''w1'' (pj_id sample_archived_row) ''u1'' True (JNum (NInt (pj_version sample_archived_row))) sample_shared"
  have "\<not> isl ?r" by code_simp
  then have r: "?r = Inr (fst (projr ?r), result_db ?r)" by (rule result_dbI)
  have a: "tables_ok sample_env sample_archived" "sample_archived_row \<in> set (project_rows sample_archived)" by code_simp+
  have "later sample_env sample_archived sample_shared" by (rule later_step [OF project_step.set_member [OF sample_share]])
  from promotion_acts_on_observed [OF sample_env_ok a this r] r show ?thesis
    by (auto simp: sample_archived_row_def)
qed

theorem project_reads_exact_witness:
  "listProjectsForUser sample_env sample_db ''w1'' ''u2'' True = Inr []
   \<and> getProjectForUser sample_env sample_db ''w1'' (pj_id sample_project) ''u1'' True = Some (projectSummary sample_project)"
proof -
  have u: "uuid_in sample_env ''u1'' = ''u1''" "uuid_in sample_env ''u2'' = ''u2''" "uuid_in sample_env ''w1'' = ''w1''"
    "isProjectId (pj_id sample_project)" by code_simp+
  have see: "\<not> may_see sample_db ''w1'' ''u2'' sample_project" "may_see sample_db ''w1'' ''u1'' sample_project" "role_in sample_db ''w1'' ''u2'' \<noteq> None"
    by (simp_all add: may_see_def role_in_def listed_as_def sample_db_def sample_project_def)
  have rows: "project_rows sample_db = [sample_project]" "pj_workspaceId sample_project = ''w1''" "pj_deletedAt sample_project = None"
    by (simp_all add: sample_db_def sample_project_def)
  from project_reads_exact [OF sample_tables_ok u(2), of "''w1''" True] project_reads_exact [OF sample_tables_ok u(1), of "''w1''" True]
  show ?thesis by (simp add: u see rows)
qed

theorem hidden_project_by_other_spelling_witness:
  "\<not> may_see sample_db ''w1'' ''u2'' sample_project
   \<and> getProjectForUser sample_env sample_db ''w1'' ''0A000000-0000-4000-8000-000000000001'' ''u2'' False = Some (projectSummary sample_project)"
proof -
  have u: "uuid_in sample_env ''u2'' = ''u2''" "uuid_in sample_env ''w1'' = ''w1''" "isProjectId ''0A000000-0000-4000-8000-000000000001''"
    "uuid_in sample_env ''0A000000-0000-4000-8000-000000000001'' = pj_id sample_project" "''0A000000-0000-4000-8000-000000000001'' \<noteq> pj_id sample_project"
    by code_simp+
  have see: "\<not> may_see sample_db ''w1'' ''u2'' sample_project" "role_in sample_db ''w1'' ''u2'' \<noteq> None"
    by (simp_all add: may_see_def role_in_def listed_as_def sample_db_def sample_project_def)
  have "sample_project \<in> set (project_rows sample_db)" "pj_workspaceId sample_project = uuid_in sample_env ''w1''"
    "pj_deletedAt sample_project = None" "pj_lifecycle sample_project = PActive"
    by (simp_all add: sample_db_def sample_project_def u(2) [unfolded sample_project_def])
  from hidden_project_by_other_spelling [OF sample_tables_ok u(1) _ this u(3,4,5)] see u(2) show ?thesis by simp
qed

end
