(* ===== verification/Project_Order.thy ===== *)
theory Project_Order
  imports Project_Lifecycle
begin

text \<open>
  The reordering of projects (\<open>reorderProjects\<close> of \<^verbatim>\<open>packages/db/src/projects.ts\<close>): the loop of updates as one
  assignment of slots, the order it leaves, what it does to the projects the user cannot see, and the
  size of the request it can carry.
\<close>

section \<open>The loop is one assignment\<close>

definition placed :: "db_env \<Rightarrow> (string \<rightharpoonup> int) \<Rightarrow> project_row \<Rightarrow> project_row" where
  "placed env slot p = (case slot (pj_id p) of None \<Rightarrow> p | Some s \<Rightarrow> (touch env p)\<lparr>pj_sortOrder := s\<rparr>)"

lemma place_projects_map:
  assumes "distinct (map snd xs)" and "\<forall>i\<in>snd ` set xs. uuid_in env i = i"
    and "\<forall>p\<in>set rows. pj_id p \<in> snd ` set xs \<longrightarrow> pj_workspaceId p = uuid_in env ws"
  shows "place_projects env ws xs rows = map (placed env (map_of (map prod.swap xs))) rows"
  using assms
proof (induction xs arbitrary: rows)
  case Nil
  show ?case by (simp add: placed_def)
next
  case (Cons x xs)
  obtain s i where x: "x = (s, i)" by fastforce
  let ?f = "\<lambda>p. (touch env p)\<lparr>pj_sortOrder := s\<rparr>"
  let ?rows = "update_where (\<lambda>p. pj_id p = uuid_in env i \<and> pj_workspaceId p = uuid_in env ws) ?f rows"
  have i: "uuid_in env i = i" "i \<notin> snd ` set xs" using Cons.prems(1,2) by (auto simp: x)
  have keep: "pj_id (?f p) = pj_id p" "pj_workspaceId (?f p) = pj_workspaceId p" for p by (simp_all add: touch_def)
  have "place_projects env ws xs ?rows = map (placed env (map_of (map prod.swap xs))) ?rows"
    by (rule Cons.IH) (use Cons.prems in \<open>auto simp: x update_where_def keep\<close>)
  moreover have "map_of (map prod.swap xs) i = None" using i(2) by (force simp: map_of_eq_None_iff)
  then have "placed env (map_of (map prod.swap xs)) (if pj_id p = i \<and> pj_workspaceId p = uuid_in env ws then ?f p else p)
      = placed env (map_of (map prod.swap (x # xs))) p" if "p \<in> set rows" for p
    using Cons.prems(3) that by (auto simp: placed_def x keep)
  ultimately show ?case by (simp add: x update_where_def i(1) fun_upd_def)
qed

section \<open>Requested orders\<close>

lemma sorted_zip_slots:
  fixes slots :: "int list" and ids :: "string list"
  assumes "sorted slots" "distinct slots" "length slots = length ids"
  shows "sorted (zip slots ids)"
  using assms(3,1,2)
proof (induction slots ids rule: list_induct2)
  case (Cons s slots i ids)
  have "(s, i) \<le> y" if "y \<in> set (zip slots ids)" for y
  proof -
    from that have "fst y \<in> set slots" by (metis in_set_zipE prod.collapse)
    with Cons.prems have "s < fst y" by (auto simp: order_le_less)
    then show ?thesis by (simp add: less_eq_prod_def)
  qed
  with Cons show ?case by simp
qed simp

lemma visible_active_set:
  "set (visible_active env db ws scope) =
     {p \<in> set (project_rows db). activeProjectFilter env ws None p \<and> visibleProjectCondition scope (Some (pj_id p))}"
  by (auto simp: visible_active_def)

lemma visible_active_slots: "sorted (map pj_sortOrder (visible_active env db ws scope))"
proof -
  have "sorted (map project_order (visible_active env db ws scope))" by (simp add: visible_active_def)
  then have "sorted_wrt (\<lambda>p q. project_order p \<le> project_order q) (visible_active env db ws scope)"
    by (simp add: sorted_map)
  then have "sorted_wrt (\<lambda>p q. pj_sortOrder p \<le> pj_sortOrder q) (visible_active env db ws scope)"
    by (rule sorted_wrt_mono_rel [rotated]) (auto simp: project_order_def less_eq_prod_def)
  then show ?thesis by (simp add: sorted_map)
qed

text \<open>The request passes the order check exactly as a rearrangement of the visible projects.\<close>

lemma order_check:
  assumes "tables_ok env db" "length ids = length (visible_active env db ws scope)" "distinct ids"
    "\<not> list_ex (\<lambda>p. pj_id p \<notin> set ids) (visible_active env db ws scope)"
  shows "set ids = pj_id ` set (visible_active env db ws scope)"
proof -
  let ?A = "visible_active env db ws scope"
  have "distinct (map pj_id ?A)"
    using assms(1) unfolding tables_ok_def visible_active_def
    by (simp add: distinct_map inj_on_def)
  then have "card (pj_id ` set ?A) = length ids" using assms(2) by (metis distinct_card length_map set_map)
  moreover have "pj_id ` set ?A \<subseteq> set ids" using assms(4) by (auto simp: list_ex_iff)
  moreover have "card (set ids) = length ids" using assms(3) by (rule distinct_card)
  ultimately show ?thesis by (metis List.finite_set card_subset_eq)
qed

lemma reorderE:
  assumes "reorderProjects env ws user ids db = Inr (rs, db')"
  obtains scope slots where "requireProjectAccessScope env db ws user = Inr scope"
    "length ids = length (visible_active env db ws scope)" "distinct ids"
    "\<not> list_ex (\<lambda>p. pj_id p \<notin> set ids) (visible_active env db ws scope)"
    "slots = (if sc_hiddenProjectIds scope \<noteq> [] then map pj_sortOrder (visible_active env db ws scope) else map int [0..<length ids])"
    "project_rows db' = place_projects env ws (zip slots ids) (project_rows db)"
    "rs = map projectSummary (sort_key project_order (filter (\<lambda>p. pj_workspaceId p = uuid_in env ws
        \<and> pj_id p \<in> set (map (uuid_in env) ids)) (project_rows db')))"
    "channel_rows db' = channel_rows db" "member_rows db' = member_rows db" "membership_rows db' = membership_rows db"
proof -
  from assms obtain scope where sc: "requireProjectAccessScope env db ws user = Inr scope"
    by (auto simp: reorderProjects_def split: sum.splits)
  let ?A = "visible_active env db ws scope"
  define slots where "slots = (if sc_hiddenProjectIds scope \<noteq> [] then map pj_sortOrder ?A else map int [0..<length ids])"
  from assms sc have c: "length ids = length ?A" "distinct ids" "\<not> list_ex (\<lambda>p. pj_id p \<notin> set ids) ?A"
    by (auto simp: reorderProjects_def Let_def split: if_splits)
  with assms sc obtain db1 t pl where ev: "tx_event env ws t pl (db\<lparr>project_rows := place_projects env ws (zip slots ids) (project_rows db)\<rparr>) = Inr ((), db1)"
    and rs: "rs = map projectSummary (sort_key project_order (filter (\<lambda>p. pj_workspaceId p = uuid_in env ws
        \<and> pj_id p \<in> set (map (uuid_in env) ids)) (project_rows db1)))" "db' = db1"
    by (auto simp: reorderProjects_def Let_def slots_def elim!: tx_bindE)
  show thesis using that [OF sc c slots_def] tx_event_tables [OF ev] rs by simp
qed

text \<open>What a successful reorder does to the rows: the visible projects get the slots in the requested order.\<close>

lemma reorder_rows:
  assumes "tables_ok env db" and "reorderProjects env ws user ids db = Inr (rs, db')"
    and "requireProjectAccessScope env db ws user = Inr scope"
  defines "slots \<equiv> (if sc_hiddenProjectIds scope \<noteq> [] then map pj_sortOrder (visible_active env db ws scope) else map int [0..<length ids])"
  shows "project_rows db' = map (placed env (map_of (zip ids slots))) (project_rows db)"
    and "set ids = pj_id ` set (visible_active env db ws scope)" and "length slots = length ids" and "distinct ids"
    and "rs = map projectSummary (sort_key project_order (filter (\<lambda>p. pj_workspaceId p = uuid_in env ws \<and> pj_id p \<in> set ids) (project_rows db')))"
proof -
  from assms(2,3) have c: "length ids = length (visible_active env db ws scope)" "distinct ids"
    "\<not> list_ex (\<lambda>p. pj_id p \<notin> set ids) (visible_active env db ws scope)"
    and rows: "project_rows db' = place_projects env ws (zip slots ids) (project_rows db)"
    and rs: "rs = map projectSummary (sort_key project_order (filter (\<lambda>p. pj_workspaceId p = uuid_in env ws
        \<and> pj_id p \<in> set (map (uuid_in env) ids)) (project_rows db')))"
    by (auto elim!: reorderE simp: slots_def)
  show set: "set ids = pj_id ` set (visible_active env db ws scope)" by (rule order_check [OF assms(1) c])
  show len: "length slots = length ids" using c(1) by (simp add: slots_def)
  show "distinct ids" by (rule c(2))
  have canon: "uuid_in env i = i" if "i \<in> set ids" for i
    using that assms(1) by (auto simp: set visible_active_set tables_ok_def)
  have inj: "inj_on pj_id (set (project_rows db))" using assms(1) by (simp add: tables_ok_def distinct_map)
  have home: "pj_workspaceId p = uuid_in env ws" if p: "p \<in> set (project_rows db)" "pj_id p \<in> set ids" for p
  proof -
    from p(2) obtain q where "q \<in> set (project_rows db)" "activeProjectFilter env ws None q" "pj_id q = pj_id p"
      by (auto simp: set visible_active_set)
    moreover then have "q = p" using inj p(1) by (metis inj_onD)
    ultimately show ?thesis by (simp add: activeProjectFilter_def)
  qed
  have "place_projects env ws (zip slots ids) (project_rows db) = map (placed env (map_of (map prod.swap (zip slots ids)))) (project_rows db)"
    by (rule place_projects_map) (use c(2) len canon home in \<open>auto dest: set_zip_rightD\<close>)
  moreover have "map prod.swap (zip slots ids) = zip ids slots" by (simp add: zip_commute [of ids] prod.swap_def case_prod_beta)
  ultimately show "project_rows db' = map (placed env (map_of (zip ids slots))) (project_rows db)" by (simp add: rows)
  show "rs = map projectSummary (sort_key project_order (filter (\<lambda>p. pj_workspaceId p = uuid_in env ws \<and> pj_id p \<in> set ids) (project_rows db')))"
    using rs canon by (simp add: image_iff cong: conj_cong)
qed

section \<open>The order it leaves\<close>

lemma placed_order: "project_order (placed env slot p) = (case slot (pj_id p) of None \<Rightarrow> project_order p | Some s \<Rightarrow> (s, pj_id p))"
  by (simp add: placed_def project_order_def touch_def split: option.split)

lemma placed_keys: "pj_id (placed env slot p) = pj_id p" "pj_workspaceId (placed env slot p) = pj_workspaceId p"
  by (simp_all add: placed_def touch_def split: option.split)

lemma summary_id: "ps_id (projectSummary p) = pj_id p"
  by (simp add: projectSummary_def)

text \<open>An accepted reorder is a rearrangement of exactly the active projects the user sees, and, unless two
  visible projects share a slot, it is returned in the very order requested. Every other row of the
  table, the hidden projects included, is unchanged; when there are hidden projects the visible ones
  take exactly the slots they had between them.\<close>

theorem reorder_exact:
  assumes "tables_ok env db" and "reorderProjects env ws user ids db = Inr (rs, db')"
    and "requireProjectAccessScope env db ws user = Inr scope"
    and "sc_hiddenProjectIds scope = [] \<or> distinct (map pj_sortOrder (visible_active env db ws scope))"
  shows "map ps_id rs = ids \<and> set ids = pj_id ` set (visible_active env db ws scope)
    \<and> filter (\<lambda>p. pj_id p \<notin> set ids) (project_rows db') = filter (\<lambda>p. pj_id p \<notin> set ids) (project_rows db)
    \<and> map ps_sortOrder rs = (if sc_hiddenProjectIds scope = [] then map int [0..<length ids] else map pj_sortOrder (visible_active env db ws scope))"
proof -
  define slots where "slots = (if sc_hiddenProjectIds scope \<noteq> [] then map pj_sortOrder (visible_active env db ws scope) else map int [0..<length ids])"
  note r = reorder_rows [OF assms(1-3), folded slots_def]
  let ?R = "filter (\<lambda>p. pj_workspaceId p = uuid_in env ws \<and> pj_id p \<in> set ids) (project_rows db')"
  have slots: "sorted slots" "distinct slots"
    using assms(4) visible_active_slots by (auto simp: slots_def distinct_map inj_on_def sorted_map sorted_wrt_upt)
  have of_id: "map_of (zip ids slots) i = Some s \<longleftrightarrow> (s, i) \<in> set (zip slots ids)" for i s
    using r(3,4) by (auto simp: map_of_zip_is_Some set_zip in_set_conv_nth nth_eq_iff_index_eq dest!: map_of_SomeD)
  have ids: "map_of (zip ids slots) i \<noteq> None \<longleftrightarrow> i \<in> set ids" for i using r(3) by (simp add: map_of_zip_is_None)
  have "project_order ` set ?R = set (zip slots ids)"
  proof (rule set_eqI)
    fix y :: "int \<times> string"
    obtain s i where y: "y = (s, i)" by fastforce
    have "y \<in> project_order ` set ?R \<longleftrightarrow>
        (\<exists>p\<in>set (project_rows db). pj_workspaceId p = uuid_in env ws \<and> pj_id p \<in> set ids \<and> y = project_order (placed env (map_of (zip ids slots)) p))"
      by (auto simp: r(1) placed_keys)
    also have "\<dots> \<longleftrightarrow> (\<exists>p\<in>set (project_rows db). pj_workspaceId p = uuid_in env ws \<and> pj_id p = i \<and> map_of (zip ids slots) i = Some s)"
    proof -
      have "pj_id p \<in> set ids \<and> y = project_order (placed env (map_of (zip ids slots)) p) \<longleftrightarrow> pj_id p = i \<and> map_of (zip ids slots) i = Some s" for p
        using ids [of "pj_id p"] by (auto simp: y placed_order split: option.splits)
      then show ?thesis by blast
    qed
    also have "\<dots> \<longleftrightarrow> map_of (zip ids slots) i = Some s"
    proof -
      have "\<exists>p\<in>set (project_rows db). pj_workspaceId p = uuid_in env ws \<and> pj_id p = i" if "i \<in> set ids"
        using that by (auto simp: r(2) visible_active_set activeProjectFilter_def)
      then show ?thesis using ids [of i] by auto
    qed
    finally show "y \<in> project_order ` set ?R \<longleftrightarrow> y \<in> set (zip slots ids)" by (simp add: of_id y)
  qed
  moreover have "distinct (map project_order ?R)"
  proof -
    have "distinct (map pj_id (project_rows db'))" using assms(1) by (simp add: r(1) placed_keys comp_def tables_ok_def)
    then have "distinct (map pj_id ?R)" by (rule distinct_map_filter)
    then show ?thesis by (simp add: project_order_def distinct_map inj_on_def)
  qed
  moreover have "distinct (zip slots ids)" using slots(2) by (simp add: distinct_zipI1)
  ultimately have order: "map project_order (sort_key project_order ?R) = zip slots ids"
    by (intro sorted_distinct_set_unique) (simp_all add: sorted_zip_slots slots r(3) distinct_map)
  then have "map snd (map project_order (sort_key project_order ?R)) = ids" "map fst (map project_order (sort_key project_order ?R)) = slots"
    using r(3) by simp_all
  then have "map ps_id rs = ids" "map ps_sortOrder rs = slots"
    by (simp_all add: r(5) project_order_def projectSummary_def comp_def)
  moreover have "filter (\<lambda>p. pj_id p \<notin> set ids) (project_rows db') = filter (\<lambda>p. pj_id p \<notin> set ids) (project_rows db)"
  proof -
    have "placed env (map_of (zip ids slots)) p = p" if "pj_id p \<notin> set ids" for p
      using that ids [of "pj_id p"] by (simp add: placed_def)
    then show ?thesis by (simp add: r(1) filter_map placed_keys comp_def cong: filter_cong) (auto intro: map_idI)
  qed
  ultimately show ?thesis using r(2) by (simp add: slots_def)
qed

section \<open>The size of a request\<close>

lemma stringify_string_length: "length s + 2 \<le> length (stringify (Json_str s))"
proof -
  have "1 \<le> length (json_escape c)" for c by (simp add: json_escape_def)
  then have "length s + 1 \<le> length (json_chars s)"
    by (induction s) (auto simp: add_mono Suc_le_eq intro: order_less_le_trans)
  then show ?thesis by (simp add: json_string_def)
qed

lemma utf8_length_ge: "int (length s) \<le> utf8_length s"
  by (induction s) (auto simp: utf8_length_Cons utf8_length_code(1))

lemma id_array_length:
  assumes "list_all (\<lambda>i. length i = 36) ids"
  shows "39 * length ids + 1 \<le> length (stringify_rest (map Json_str ids))"
  using assms
proof (induction ids)
  case (Cons i ids)
  then show ?case using stringify_string_length [of i] by simp
qed simp

lemma reorder_payload_length:
  assumes "list_all (\<lambda>i. length i = 36) ids" and "length user = 36" and "ids \<noteq> []"
  shows "69 + 39 * length ids \<le> length (stringify (Json_obj (actor_payload user [(''projectIds'', Json_arr (map Json_str ids))])))"
proof -
  obtain i rest where ids: "ids = i # rest" using assms(3) by (cases ids) auto
  have "39 * length rest + 1 \<le> length (stringify_rest (map Json_str rest))"
    by (rule id_array_length) (use assms(1) ids in simp)
  moreover have "38 \<le> length (json_string i)" "38 \<le> length (json_string user)"
    using stringify_string_length [of i] stringify_string_length [of user] assms(1,2) by (simp_all add: ids)
  moreover have "length (json_string ''actorUserId'') = 13" "length (json_string ''projectIds'') = 12" by code_simp+
  ultimately show ?thesis by (simp add: actor_payload_def ids)
qed

text \<open>The event of a reorder carries every id and is bounded by 8192 bytes, so with the 36 characters of a
  uuid no reorder of 209 or more projects ever succeeds: a workspace with that many visible active
  projects can no longer be reordered.\<close>

theorem reorder_size_limit:
  assumes "209 \<le> length ids" and "list_all (\<lambda>i. length i = 36) ids" and "length user = 36"
  shows "isl (reorderProjects env ws user ids db)"
proof (rule ccontr)
  let ?p = "actor_payload user [(''projectIds'', Json_arr (map Json_str ids))]"
  assume "\<not> isl (reorderProjects env ws user ids db)"
  then obtain rs db' where "reorderProjects env ws user ids db = Inr (rs, db')" by (cases "reorderProjects env ws user ids db") auto
  then obtain db0 db1 where "tx_event env ws ''project.reordered'' ?p db0 = Inr ((), db1)"
    by (auto simp: reorderProjects_def Let_def split: sum.splits if_splits elim!: tx_bindE)
  then obtain c where "map_of WORKSPACE_EVENT_CONTRACTS ''project.reordered'' = Some c"
    "assertCloudSafeEventPayload ''project.reordered'' ?p = Inr ()" by (auto elim!: tx_eventD appendE)
  from assert_safeE(2) [OF this(2,1)] have "utf8_length (stringify (Json_obj ?p)) \<le> 8192" by (simp add: MAX_EVENT_PAYLOAD_BYTES_def)
  moreover have "69 + 39 * length ids \<le> length (stringify (Json_obj ?p))"
    by (rule reorder_payload_length) (use assms in auto)
  ultimately show False using utf8_length_ge [of "stringify (Json_obj ?p)"] assms(1) by linarith
qed

section \<open>Witnesses\<close>

text \<open>A second project, seen by everyone, and the owner who swaps the two.\<close>

definition sample_two :: product_db where
  "sample_two = sample_db\<lparr>project_rows := [sample_project, sample_project\<lparr>pj_id := ''0a000000-0000-4000-8000-000000000002'',
     pj_sortOrder := 1, pj_visibility := Workspace_visible\<rparr>]\<rparr>"

theorem reorder_exact_witness:
  "\<exists>rs db'. reorderProjects sample_env ''w1'' ''u1'' [''0a000000-0000-4000-8000-000000000002'', ''0a000000-0000-4000-8000-000000000001''] sample_two = Inr (rs, db')
     \<and> map ps_id rs = [''0a000000-0000-4000-8000-000000000002'', ''0a000000-0000-4000-8000-000000000001'']"
proof -
  let ?ids = "[''0a000000-0000-4000-8000-000000000002'', ''0a000000-0000-4000-8000-000000000001'']"
  let ?r = "reorderProjects sample_env ''w1'' ''u1'' ?ids sample_two"
  have "\<not> isl ?r" by code_simp
  then have r: "?r = Inr (fst (projr ?r), result_db ?r)" by (rule result_dbI)
  then obtain scope where sc: "requireProjectAccessScope sample_env sample_two ''w1'' ''u1'' = Inr scope" by (rule reorderE) blast
  moreover have "case requireProjectAccessScope sample_env sample_two ''w1'' ''u1'' of Inl _ \<Rightarrow> False | Inr s \<Rightarrow> sc_hiddenProjectIds s = []" by code_simp
  ultimately have "sc_hiddenProjectIds scope = []" by simp
  moreover have "tables_ok sample_env sample_two" by code_simp
  ultimately have "map ps_id (fst (projr ?r)) = ?ids" using reorder_exact [OF _ r sc] by blast
  with r show ?thesis by (intro exI [of _ "fst (projr ?r)"] exI [of _ "result_db ?r"] conjI)
qed

theorem reorder_size_limit_witness:
  "distinct (map (\<lambda>n. replicate 33 (CHR ''a'') @ show_nat n) [100..<309])
   \<and> isl (reorderProjects sample_env ''w1'' (pj_id sample_project) (map (\<lambda>n. replicate 33 (CHR ''a'') @ show_nat n) [100..<309]) sample_db)"
proof
  show "distinct (map (\<lambda>n. replicate 33 (CHR ''a'') @ show_nat n) [100..<309])"
  proof -
    have "m = n" if "show_nat m = show_nat n" for m n
      using show_nat_split [of m "[]" n "[]"] that by (simp add: no_digit_first_def)
    then have "inj_on (\<lambda>n. replicate 33 (CHR ''a'') @ show_nat n) A" for A by (auto intro: inj_onI)
    then show ?thesis by (simp only: distinct_map distinct_upt simp_thms)
  qed
  show "isl (reorderProjects sample_env ''w1'' (pj_id sample_project) (map (\<lambda>n. replicate 33 (CHR ''a'') @ show_nat n) [100..<309]) sample_db)"
  proof (rule reorder_size_limit)
    show "list_all (\<lambda>i. length i = 36) (map (\<lambda>n. replicate 33 (CHR ''a'') @ show_nat n) [100..<309])" by code_simp
  qed (simp_all add: sample_project_def)
qed

end
