(* ===== verification/Invitations.thy ===== *)
theory Invitations
  imports Project_Access
begin

text \<open>
  Workspace invitations, \<^verbatim>\<open>packages/db/src/workspace-invitations.ts\<close>, with the tables of
  \<^verbatim>\<open>schema/workspaces.ts\<close>. A token is stored as its digest only; the digest function \<open>sha\<close>, the random token
  of a creation and the clock are arguments. Text is in Latin-1, where \<open>toLowerCase\<close> is \<open>js_lower_char\<close>. Of the
  constraints of the table the unique id, the unique digest and the single open invitation per address are
  modelled: an insertion that meets one fails.
\<close>

section \<open>Data\<close>

datatype invitation_role = Invite_admin | Invite_member

datatype invitation_state = Inv_accepted | Inv_revoked | Inv_expired | Inv_pending

record invitation_row =
  iv_id :: string
  iv_workspaceId :: string
  iv_email :: string
  iv_role :: invitation_role
  iv_tokenDigest :: string
  iv_invitedByUserId :: string
  iv_expiresAt :: int
  iv_acceptedAt :: "int option"
  iv_acceptedByUserId :: "string option"
  iv_revokedAt :: "int option"
  iv_createdAt :: int
  iv_updatedAt :: int

record workspace_row =
  wk_id :: string
  wk_name :: string
  wk_ownerUserId :: string
  wk_deletedAt :: "int option"

record invite_db = product_db +
  workspace_rows :: "workspace_row list"
  invitation_rows :: "invitation_row list"

datatype invitation_error =
    Invitation_invalid
  | Invitation_unavailable
  | Invitation_already_accepted
  | Workspace_unavailable
  | Invitation_constraint
  | Invitation_event event_error

type_synonym 'r inv_tx = "(invite_db, invitation_error, 'r) trans"

definition INVITATION_LIFETIME_MS :: int where
  "INVITATION_LIFETIME_MS = 7 * 24 * 60 * 60 * 1000"

section \<open>Input\<close>

text \<open>\<open>toLowerCase\<close> on Latin-1: the letters at 65 to 90, 192 to 214 and 216 to 222.\<close>

definition js_lower_char :: "char \<Rightarrow> char" where
  "js_lower_char c = (let n = (of_char c :: nat) in
     if 65 \<le> n \<and> n \<le> 90 \<or> 192 \<le> n \<and> n \<le> 222 \<and> n \<noteq> 215 then char_of (n + 32) else c)"

text \<open>The pattern of one \<open>@\<close> between two parts without white space or \<open>@\<close>.\<close>

definition EMAIL_PATTERN :: "string \<Rightarrow> bool" where
  "EMAIL_PATTERN s =
     (case split_on (CHR ''@'') s of
        [a, b] \<Rightarrow> a \<noteq> [] \<and> b \<noteq> [] \<and> list_all (\<lambda>c. \<not> is_js_space c) (a @ b)
      | _ \<Rightarrow> False)"

definition normalizeInvitationEmail :: "jsval \<Rightarrow> string option" where
  "normalizeInvitationEmail v =
     (if \<not> is_string v then None
      else let email = map js_lower_char (js_trim (string_of_jsval v)) in
        if 3 \<le> length email \<and> length email \<le> 320 \<and> EMAIL_PATTERN email then Some email else None)"

fun invitation_role_of :: "jsval \<Rightarrow> invitation_role option" where
  "invitation_role_of (JStr s) = (if s = ''admin'' then Some Invite_admin else if s = ''member'' then Some Invite_member else None)"
| "invitation_role_of _ = None"

definition isWorkspaceInvitationRole :: "jsval \<Rightarrow> bool" where
  "isWorkspaceInvitationRole v \<longleftrightarrow> invitation_role_of v \<noteq> None"

definition isInvitationToken :: "jsval \<Rightarrow> bool" where
  "isInvitationToken v \<longleftrightarrow> is_string v \<and> length (string_of_jsval v) = 43 \<and> list_all token_char (string_of_jsval v)"

section \<open>Summaries and roles\<close>

definition invitationState :: "invitation_row \<Rightarrow> int \<Rightarrow> invitation_state" where
  "invitationState row now =
     (if iv_acceptedAt row \<noteq> None then Inv_accepted
      else if iv_revokedAt row \<noteq> None then Inv_revoked
      else if iv_expiresAt row \<le> now then Inv_expired else Inv_pending)"

record invitation_summary =
  is_acceptedAt :: "int option"
  is_createdAt :: int
  is_email :: string
  is_expiresAt :: int
  is_id :: string
  is_invitedByUserId :: string
  is_revokedAt :: "int option"
  is_role :: invitation_role
  is_state :: invitation_state
  is_workspaceId :: string

definition invitationSummary :: "invitation_row \<Rightarrow> int \<Rightarrow> invitation_summary" where
  "invitationSummary row now = \<lparr>is_acceptedAt = iv_acceptedAt row, is_createdAt = iv_createdAt row, is_email = iv_email row,
     is_expiresAt = iv_expiresAt row, is_id = iv_id row, is_invitedByUserId = iv_invitedByUserId row, is_revokedAt = iv_revokedAt row,
     is_role = iv_role row, is_state = invitationState row now, is_workspaceId = iv_workspaceId row\<rparr>"

fun member_role_of :: "invitation_role \<Rightarrow> workspace_role" where
  "member_role_of Invite_admin = Admin"
| "member_role_of Invite_member = Member"

definition membership_of :: "string \<Rightarrow> string \<Rightarrow> 'a product_db_scheme \<Rightarrow> membership_row option" where
  "membership_of ws user db = find (\<lambda>m. ms_workspaceId m = ws \<and> ms_userId m = user) (membership_rows db)"

definition live_workspace :: "string \<Rightarrow> invite_db \<Rightarrow> workspace_row option" where
  "live_workspace ws db = find (\<lambda>w. wk_id w = ws \<and> wk_deletedAt w = None) (workspace_rows db)"

definition is_manager :: "db_env \<Rightarrow> string \<Rightarrow> string \<Rightarrow> invite_db \<Rightarrow> bool" where
  "is_manager env ws user db \<longleftrightarrow> live_workspace (uuid_in env ws) db \<noteq> None
     \<and> (case membership_of (uuid_in env ws) (uuid_in env user) db of None \<Rightarrow> False | Some m \<Rightarrow> ms_role m \<noteq> Member)"

definition requireMembershipManager :: "db_env \<Rightarrow> string \<Rightarrow> string \<Rightarrow> unit inv_tx" where
  "requireMembershipManager env ws user =
     tx_check (\<lambda>db. if is_manager env ws user db then Inr () else Inl Invitation_unavailable)"

definition inv_event :: "db_env \<Rightarrow> string \<Rightarrow> string \<Rightarrow> payload \<Rightarrow> unit inv_tx" where
  "inv_event = append_tx Invitation_event"

section \<open>Listing members\<close>

definition listWorkspaceMembersForUser ::
  "db_env \<Rightarrow> invite_db \<Rightarrow> string \<Rightarrow> string \<Rightarrow> invitation_error + (string option \<times> workspace_role \<times> string) list" where
  "listWorkspaceMembersForUser env db ws user =
     (if membership_of (uuid_in env ws) (uuid_in env user) db = None then Inl Workspace_unavailable
      else Inr (List.map_filter (\<lambda>m. map_option (\<lambda>name. (name, ms_role m, ms_userId m)) (map_of (user_rows db) (ms_userId m)))
        (sort_key (\<lambda>m. (ms_createdAt m, ms_userId m)) (filter (\<lambda>m. ms_workspaceId m = uuid_in env ws) (membership_rows db)))))"

section \<open>Creating, listing and revoking\<close>

definition open_for :: "db_env \<Rightarrow> string \<Rightarrow> string \<Rightarrow> invitation_row \<Rightarrow> bool" where
  "open_for env ws email r \<longleftrightarrow> iv_workspaceId r = uuid_in env ws \<and> iv_email r = email \<and> iv_acceptedAt r = None \<and> iv_revokedAt r = None"

definition withdraw :: "int \<Rightarrow> invitation_row \<Rightarrow> invitation_row" where
  "withdraw now r = r\<lparr>iv_revokedAt := Some now, iv_updatedAt := now\<rparr>"

fun revoked_events :: "db_env \<Rightarrow> string \<Rightarrow> string \<Rightarrow> string list \<Rightarrow> unit inv_tx" where
  "revoked_events env ws user [] = tx_return ()"
| "revoked_events env ws user (i # ids) =
     tx_bind (inv_event env ws ''workspace.invitation_revoked'' [(''actorUserId'', Json_str user), (''invitationId'', Json_str i)])
       (\<lambda>_. revoked_events env ws user ids)"

definition insert_invitation :: "invitation_row \<Rightarrow> invitation_row inv_tx" where
  "insert_invitation r db =
     (if iv_tokenDigest r \<in> set (map iv_tokenDigest (invitation_rows db)) \<or> iv_id r \<in> set (map iv_id (invitation_rows db))
        \<or> list_ex (\<lambda>q. iv_workspaceId q = iv_workspaceId r \<and> iv_email q = iv_email r \<and> iv_acceptedAt q = None \<and> iv_revokedAt q = None) (invitation_rows db)
      then Inl Invitation_constraint else Inr (r, db\<lparr>invitation_rows := invitation_rows db @ [r]\<rparr>))"

definition withdraw_open :: "db_env \<Rightarrow> string \<Rightarrow> string \<Rightarrow> int \<Rightarrow> string list inv_tx" where
  "withdraw_open env ws email now db =
     Inr (map iv_id (filter (open_for env ws email) (invitation_rows db)),
          db\<lparr>invitation_rows := update_where (open_for env ws email) (withdraw now) (invitation_rows db)\<rparr>)"

definition new_invitation :: "db_env \<Rightarrow> (string \<Rightarrow> string) \<Rightarrow> string \<Rightarrow> string \<Rightarrow> string \<Rightarrow> invitation_role \<Rightarrow> string \<Rightarrow> int \<Rightarrow> invite_db \<Rightarrow> invitation_row" where
  "new_invitation env sha ws user email role token now db =
     \<lparr>iv_id = new_id env (length (invitation_rows db)), iv_workspaceId = uuid_in env ws, iv_email = email, iv_role = role,
      iv_tokenDigest = sha token, iv_invitedByUserId = uuid_in env user, iv_expiresAt = now + INVITATION_LIFETIME_MS,
      iv_acceptedAt = None, iv_acceptedByUserId = None, iv_revokedAt = None, iv_createdAt = clock_ms env, iv_updatedAt = clock_ms env\<rparr>"

definition createWorkspaceInvitation ::
  "db_env \<Rightarrow> (string \<Rightarrow> string) \<Rightarrow> string \<Rightarrow> string \<Rightarrow> jsval \<Rightarrow> jsval \<Rightarrow> string \<Rightarrow> int \<Rightarrow> (invitation_summary \<times> string) inv_tx" where
  "createWorkspaceInvitation env sha ws user email0 role0 token now =
     (case (normalizeInvitationEmail email0, invitation_role_of role0) of
        (Some email, Some role) \<Rightarrow>
          tx_bind (requireMembershipManager env ws user) (\<lambda>_.
          tx_bind (withdraw_open env ws email now) (\<lambda>replaced.
          tx_bind (revoked_events env ws user replaced) (\<lambda>_.
          tx_bind (\<lambda>db. insert_invitation (new_invitation env sha ws user email role token now db) db) (\<lambda>created.
          tx_bind (inv_event env ws ''workspace.member_invited'' [(''actorUserId'', Json_str user), (''invitationId'', Json_str (iv_id created))]) (\<lambda>_.
          tx_return (invitationSummary created now, token))))))
      | _ \<Rightarrow> tx_fail Invitation_invalid)"

definition listWorkspaceInvitationsForUser ::
  "db_env \<Rightarrow> invite_db \<Rightarrow> string \<Rightarrow> string \<Rightarrow> int \<Rightarrow> invitation_error + invitation_summary list" where
  "listWorkspaceInvitationsForUser env db ws user now =
     (if \<not> is_manager env ws user db then Inl Invitation_unavailable
      else Inr (map (\<lambda>r. invitationSummary r now) (take 200
        (sort_key (\<lambda>r. (- iv_createdAt r, iv_id r)) (filter (\<lambda>r. iv_workspaceId r = uuid_in env ws) (invitation_rows db))))))"

definition withdraw_one :: "db_env \<Rightarrow> string \<Rightarrow> int \<Rightarrow> invitation_row inv_tx" where
  "withdraw_one env invitationId now db =
     (let sel = (\<lambda>r. iv_id r = uuid_in env invitationId \<and> iv_acceptedAt r = None) in
      case returning sel (withdraw now) (invitation_rows db) of
        None \<Rightarrow> Inl Invitation_already_accepted
      | Some r \<Rightarrow> Inr (r, db\<lparr>invitation_rows := update_where sel (withdraw now) (invitation_rows db)\<rparr>))"

definition revokeWorkspaceInvitation :: "db_env \<Rightarrow> string \<Rightarrow> string \<Rightarrow> string \<Rightarrow> int \<Rightarrow> invitation_summary inv_tx" where
  "revokeWorkspaceInvitation env ws invitationId user now =
     tx_bind (requireMembershipManager env ws user) (\<lambda>_.
     tx_bind (tx_check (\<lambda>db. case find (\<lambda>r. iv_id r = uuid_in env invitationId \<and> iv_workspaceId r = uuid_in env ws) (invitation_rows db) of
         None \<Rightarrow> Inl Invitation_unavailable
       | Some r \<Rightarrow> if iv_acceptedAt r \<noteq> None then Inl Invitation_already_accepted else Inr r)) (\<lambda>existing.
     if iv_revokedAt existing \<noteq> None then tx_return (invitationSummary existing now)
     else tx_bind (withdraw_one env invitationId now) (\<lambda>revoked.
       tx_bind (inv_event env ws ''workspace.invitation_revoked'' [(''actorUserId'', Json_str user), (''invitationId'', Json_str invitationId)]) (\<lambda>_.
       tx_return (invitationSummary revoked now)))))"

section \<open>Preview and acceptance\<close>

definition by_token :: "(string \<Rightarrow> string) \<Rightarrow> jsval \<Rightarrow> invite_db \<Rightarrow> invitation_row option" where
  "by_token sha token db = find (\<lambda>r. iv_tokenDigest r = sha (string_of_jsval token)) (invitation_rows db)"

text \<open>The gate of an invitation that is not yet accepted.\<close>

definition acceptable :: "invitation_row \<Rightarrow> string option \<Rightarrow> int \<Rightarrow> bool" where
  "acceptable r email now \<longleftrightarrow> iv_revokedAt r = None \<and> \<not> iv_expiresAt r \<le> now \<and> email = Some (iv_email r)"

record invitation_preview =
  pv_alreadyMember :: bool
  pv_expiresAt :: int
  pv_memberCount :: nat
  pv_ownerName :: "string option"
  pv_role :: workspace_role
  pv_workspaceName :: string

definition owner_name :: "invite_db \<Rightarrow> workspace_row \<Rightarrow> string option" where
  "owner_name db w = (case map_of (user_rows db) (wk_ownerUserId w) of
       Some (Some n) \<Rightarrow> if js_trim n = [] then None else Some (js_trim n)
     | _ \<Rightarrow> None)"

definition previewWorkspaceInvitation ::
  "db_env \<Rightarrow> (string \<Rightarrow> string) \<Rightarrow> invite_db \<Rightarrow> string \<Rightarrow> jsval \<Rightarrow> jsval \<Rightarrow> int \<Rightarrow> invitation_error + invitation_preview" where
  "previewWorkspaceInvitation env sha db user email0 token now =
     (if \<not> isInvitationToken token then Inl Invitation_unavailable
      else (case by_token sha token db of
              None \<Rightarrow> Inl Invitation_unavailable
            | Some r \<Rightarrow>
                if iv_acceptedAt r \<noteq> None \<and> iv_acceptedByUserId r \<noteq> Some user then Inl Invitation_unavailable
                else if iv_acceptedAt r = None \<and> \<not> acceptable r (normalizeInvitationEmail email0) now then Inl Invitation_unavailable
                else let membership = membership_of (iv_workspaceId r) (uuid_in env user) db in
                  if iv_acceptedAt r \<noteq> None \<and> membership = None then Inl Invitation_unavailable
                  else (case live_workspace (iv_workspaceId r) db of
                          None \<Rightarrow> Inl Invitation_unavailable
                        | Some w \<Rightarrow> Inr \<lparr>pv_alreadyMember = (membership \<noteq> None), pv_expiresAt = iv_expiresAt r,
                            pv_memberCount = length (filter (\<lambda>m. ms_workspaceId m = iv_workspaceId r) (membership_rows db)),
                            pv_ownerName = owner_name db w,
                            pv_role = (case membership of None \<Rightarrow> member_role_of (iv_role r) | Some m \<Rightarrow> ms_role m),
                            pv_workspaceName = wk_name w\<rparr>)))"

text \<open>The position of a joiner's new workspace in their own list.\<close>

definition next_position :: "string \<Rightarrow> 'a product_db_scheme \<Rightarrow> int" where
  "next_position user db =
     (let own = map ms_sortOrder (filter (\<lambda>m. ms_userId m = user) (membership_rows db)) in
      if own = [] then 0 else Max (set own) + 1)"

definition join_workspace :: "db_env \<Rightarrow> invitation_row \<Rightarrow> string \<Rightarrow> bool inv_tx" where
  "join_workspace env r user db =
     (if membership_of (iv_workspaceId r) (uuid_in env user) db \<noteq> None then Inr (False, db)
      else Inr (True, db\<lparr>membership_rows := membership_rows db @
        [\<lparr>ms_workspaceId = iv_workspaceId r, ms_userId = uuid_in env user, ms_role = member_role_of (iv_role r),
          ms_sortOrder = next_position (uuid_in env user) db, ms_createdAt = clock_ms env\<rparr>]\<rparr>))"

definition settle :: "db_env \<Rightarrow> invitation_row \<Rightarrow> string \<Rightarrow> int \<Rightarrow> unit inv_tx" where
  "settle env r user now db =
     Inr ((), db\<lparr>invitation_rows := update_where (\<lambda>q. iv_id q = iv_id r)
       (\<lambda>q. q\<lparr>iv_acceptedAt := Some now, iv_acceptedByUserId := Some (uuid_in env user), iv_updatedAt := now\<rparr>) (invitation_rows db)\<rparr>)"

definition accept_open :: "db_env \<Rightarrow> invitation_row \<Rightarrow> string \<Rightarrow> int \<Rightarrow> (bool \<times> string) inv_tx" where
  "accept_open env r user now =
     tx_bind (tx_check (\<lambda>db. if live_workspace (iv_workspaceId r) db = None then Inl Invitation_unavailable else Inr ())) (\<lambda>_.
     tx_bind (join_workspace env r user) (\<lambda>joined.
     tx_bind (settle env r user now) (\<lambda>_.
     tx_bind (if joined then inv_event env (iv_workspaceId r) ''workspace.member_joined''
         [(''actorUserId'', Json_str user), (''invitationId'', Json_str (iv_id r)), (''userId'', Json_str user)] else tx_return ()) (\<lambda>_.
     tx_return (joined, iv_workspaceId r)))))"

definition acceptWorkspaceInvitation ::
  "db_env \<Rightarrow> (string \<Rightarrow> string) \<Rightarrow> string \<Rightarrow> jsval \<Rightarrow> jsval \<Rightarrow> int \<Rightarrow> (bool \<times> string) inv_tx" where
  "acceptWorkspaceInvitation env sha user email0 token now =
     (if \<not> isInvitationToken token then tx_fail Invitation_unavailable
      else tx_bind (tx_check (\<lambda>db. case by_token sha token db of None \<Rightarrow> Inl Invitation_unavailable | Some r \<Rightarrow> Inr r)) (\<lambda>r.
        if iv_acceptedAt r \<noteq> None then
          (if iv_acceptedByUserId r = Some user then tx_return (False, iv_workspaceId r) else tx_fail Invitation_unavailable)
        else if \<not> acceptable r (normalizeInvitationEmail email0) now then tx_fail Invitation_unavailable
        else accept_open env r user now))"

section \<open>Life of an invitation\<close>

text \<open>The history of one row: it keeps its identity, is settled once, and stays settled.\<close>

definition row_evolves :: "invitation_row \<Rightarrow> invitation_row \<Rightarrow> bool" where
  "row_evolves r q \<longleftrightarrow> iv_id q = iv_id r \<and> iv_tokenDigest q = iv_tokenDigest r \<and> iv_workspaceId q = iv_workspaceId r
     \<and> iv_email q = iv_email r \<and> iv_role q = iv_role r \<and> iv_expiresAt q = iv_expiresAt r
     \<and> (iv_acceptedAt r \<noteq> None \<longrightarrow> iv_acceptedAt q = iv_acceptedAt r \<and> iv_acceptedByUserId q = iv_acceptedByUserId r \<and> iv_revokedAt q = iv_revokedAt r)
     \<and> (iv_revokedAt r \<noteq> None \<longrightarrow> iv_revokedAt q \<noteq> None \<and> iv_acceptedAt q = iv_acceptedAt r)"

text \<open>The check constraints of a row: an accepted row names its acceptor, and no row is settled twice.\<close>

definition row_ok :: "invitation_row \<Rightarrow> bool" where
  "row_ok r \<longleftrightarrow> (iv_acceptedAt r = None) = (iv_acceptedByUserId r = None) \<and> (iv_acceptedAt r = None \<or> iv_revokedAt r = None)"

text \<open>Unique keys, the settled-once and acceptance constraints, and one open invitation per address.\<close>

definition invitations_ok :: "invite_db \<Rightarrow> bool" where
  "invitations_ok db \<longleftrightarrow> distinct (map iv_id (invitation_rows db)) \<and> distinct (map iv_tokenDigest (invitation_rows db))
     \<and> list_all row_ok (invitation_rows db)
     \<and> distinct (map (\<lambda>r. (iv_workspaceId r, iv_email r)) (filter (\<lambda>r. iv_acceptedAt r = None \<and> iv_revokedAt r = None) (invitation_rows db)))"

definition evolves :: "invite_db \<Rightarrow> invite_db \<Rightarrow> bool" where
  "evolves a b \<longleftrightarrow> (invitations_ok a \<longrightarrow> invitations_ok b \<and> list_all2 row_evolves (invitation_rows a) (take (length (invitation_rows a)) (invitation_rows b)))"

lemma row_evolves_refl: "row_evolves r r"
  by (simp add: row_evolves_def)

lemma row_evolves_trans: "row_evolves a b \<Longrightarrow> row_evolves b c \<Longrightarrow> row_evolves a c"
  unfolding row_evolves_def by (metis option.distinct(1))

lemma list_all2_refl': "(\<And>x. x \<in> set xs \<Longrightarrow> R x (g x)) \<Longrightarrow> list_all2 (\<lambda>x y. R x (g y)) xs xs"
  by (simp add: list_all2_same)

lemma evolves_same: "invitation_rows b = invitation_rows a \<Longrightarrow> evolves a b"
  by (simp add: evolves_def invitations_ok_def list_all2_same row_evolves_refl)

lemma list_all2_prefix_trans:
  assumes "list_all2 R xs (take (length xs) ys)" "list_all2 R ys (take (length ys) zs)"
    and "\<And>a b c. R a b \<Longrightarrow> R b c \<Longrightarrow> R a c"
  shows "list_all2 R xs (take (length xs) zs)"
proof -
  have len: "length xs \<le> length ys" using list_all2_lengthD [OF assms(1)] by simp
  have "list_all2 R (take (length xs) ys) (take (length xs) (take (length ys) zs))"
    using list_all2_takeI [OF assms(2)] by blast
  then have "list_all2 R (take (length xs) ys) (take (length xs) zs)" using len by (simp add: min_def)
  with assms(1) show ?thesis unfolding list_all2_conv_all_nth using assms(3) by metis
qed

lemma evolves_trans:
  assumes "evolves a b" "evolves b c"
  shows "evolves a c"
  using assms list_all2_prefix_trans [of row_evolves "invitation_rows a" "invitation_rows b" "invitation_rows c"] row_evolves_trans
  unfolding evolves_def by blast

text \<open>An update in place that keeps the keys and only settles rows.\<close>

lemma evolves_update:
  assumes "invitation_rows b = update_where sel f (invitation_rows a)"
    and step: "\<And>r. r \<in> set (invitation_rows a) \<Longrightarrow> sel r \<Longrightarrow> invitations_ok a \<Longrightarrow> row_evolves r (f r) \<and> row_ok (f r)
      \<and> \<not> (iv_acceptedAt (f r) = None \<and> iv_revokedAt (f r) = None)"
  shows "evolves a b"
  unfolding evolves_def
proof
  let ?g = "\<lambda>r. if sel r then f r else r"
  let ?open = "\<lambda>r. iv_acceptedAt r = None \<and> iv_revokedAt r = None"
  assume ok: "invitations_ok a"
  have ev: "row_evolves r (?g r)" if "r \<in> set (invitation_rows a)" for r
    using step [OF that _ ok] by (simp add: row_evolves_refl)
  have rows: "invitation_rows b = map ?g (invitation_rows a)" by (simp add: assms(1) update_where_def)
  have "map iv_id (invitation_rows b) = map iv_id (invitation_rows a)" "map iv_tokenDigest (invitation_rows b) = map iv_tokenDigest (invitation_rows a)"
    using ev by (auto simp: rows row_evolves_def)
  moreover have "list_all row_ok (invitation_rows b)"
    using ok step [OF _ _ ok] by (auto simp: rows list_all_iff invitations_ok_def)
  moreover have "distinct (map (\<lambda>r. (iv_workspaceId r, iv_email r)) (filter ?open (invitation_rows b)))"
  proof -
    have "filter ?open (invitation_rows b) = filter (\<lambda>r. \<not> sel r \<and> ?open r) (invitation_rows a)"
    proof -
      have "?open (?g r) \<longleftrightarrow> \<not> sel r \<and> ?open r" if "r \<in> set (invitation_rows a)" for r
        using step [OF that _ ok] by (cases "sel r") simp_all
      then have "filter (\<lambda>r. ?open (?g r)) (invitation_rows a) = filter (\<lambda>r. \<not> sel r \<and> ?open r) (invitation_rows a)"
        by (rule filter_cong [OF refl])
      moreover have "map ?g (filter (\<lambda>r. \<not> sel r \<and> ?open r) (invitation_rows a)) = filter (\<lambda>r. \<not> sel r \<and> ?open r) (invitation_rows a)"
        by (rule map_idI) simp
      ultimately show ?thesis by (simp only: rows filter_map comp_def)
    qed
    moreover have "distinct (map (\<lambda>r. (iv_workspaceId r, iv_email r)) (filter ?open (invitation_rows a)))"
      using ok by (simp add: invitations_ok_def)
    ultimately show ?thesis
      using distinct_map_filter [of "\<lambda>r. (iv_workspaceId r, iv_email r)" "filter ?open (invitation_rows a)" "\<lambda>r. \<not> sel r"] by (simp add: conj_ac)
  qed
  ultimately have "invitations_ok b" using ok by (simp add: invitations_ok_def)
  moreover have "list_all2 row_evolves (invitation_rows a) (invitation_rows b)"
    unfolding rows list_all2_map2 by (rule list_all2_refl') (rule ev)
  ultimately show "invitations_ok b \<and> list_all2 row_evolves (invitation_rows a) (take (length (invitation_rows a)) (invitation_rows b))"
    by (simp add: rows)
qed

interpretation life: table_relation evolves
  by unfold_locales (auto intro: evolves_same evolves_trans)

lemma inv_event_tables:
  assumes "inv_event env ws t p db = Inr (a, db')"
  shows "invitation_rows db' = invitation_rows db" "membership_rows db' = membership_rows db" "workspace_rows db' = workspace_rows db"
    "user_rows db' = user_rows db"
  using assms by (auto simp: inv_event_def elim!: append_txE appendE)

lemma keeps_inv_event: "tx_keeps evolves (inv_event env ws t p)"
  by (rule tx_keepsI) (auto intro: evolves_same dest: inv_event_tables)

lemma keeps_revoked_events: "tx_keeps evolves (revoked_events env ws user ids)"
  by (induction ids) (simp_all add: life.keeps_return life.keeps_bind keeps_inv_event)

lemma keeps_withdraw_open: "tx_keeps evolves (withdraw_open env ws email now)"
proof (rule tx_keepsI)
  fix db a db'
  assume "withdraw_open env ws email now db = Inr (a, db')"
  then have "invitation_rows db' = update_where (open_for env ws email) (withdraw now) (invitation_rows db)"
    by (auto simp: withdraw_open_def)
  then show "evolves db db'"
    by (rule evolves_update) (auto simp: open_for_def withdraw_def row_evolves_def row_ok_def invitations_ok_def list_all_iff)
qed

lemma keeps_withdraw_one: "tx_keeps evolves (withdraw_one env i now)"
proof (rule tx_keepsI)
  fix db a db'
  assume "withdraw_one env i now db = Inr (a, db')"
  then have "invitation_rows db' = update_where (\<lambda>r. iv_id r = uuid_in env i \<and> iv_acceptedAt r = None) (withdraw now) (invitation_rows db)"
    by (auto simp: withdraw_one_def Let_def split: option.splits)
  then show "evolves db db'"
    by (rule evolves_update) (auto simp: withdraw_def row_evolves_def row_ok_def invitations_ok_def list_all_iff)
qed

lemma keeps_insert_invitation:
  "tx_keeps evolves (\<lambda>db. insert_invitation (new_invitation env sha ws user email role token now db) db)"
proof (rule tx_keepsI)
  fix db a db'
  assume "insert_invitation (new_invitation env sha ws user email role token now db) db = Inr (a, db')"
  then show "evolves db db'"
    by (auto simp: evolves_def insert_invitation_def new_invitation_def invitations_ok_def row_ok_def list_all2_same row_evolves_refl
        list_ex_iff split: if_splits) (metis option.distinct(1))
qed

lemma keeps_create: "tx_keeps evolves (createWorkspaceInvitation env sha ws user email0 role0 token now)"
  unfolding createWorkspaceInvitation_def requireMembershipManager_def
  by (auto split: option.split intro!: life.keeps_return life.keeps_bind life.keeps_fail life.keeps_check keeps_inv_event keeps_revoked_events
      keeps_withdraw_open keeps_insert_invitation)

lemma keeps_revoke: "tx_keeps evolves (revokeWorkspaceInvitation env ws i user now)"
  unfolding revokeWorkspaceInvitation_def requireMembershipManager_def
  by (auto intro!: life.keeps_return life.keeps_bind life.keeps_check keeps_inv_event keeps_withdraw_one)

text \<open>What an acceptance does, on each of its two paths.\<close>

lemma acceptE:
  assumes "acceptWorkspaceInvitation env sha user email0 token now db = Inr (res, db')"
  obtains (replay) r where "by_token sha token db = Some r" "iv_acceptedAt r \<noteq> None" "iv_acceptedByUserId r = Some user"
      "res = (False, iv_workspaceId r)" "db' = db"
  | (fresh) r w where "by_token sha token db = Some r" "iv_acceptedAt r = None" "acceptable r (normalizeInvitationEmail email0) now"
      "live_workspace (iv_workspaceId r) db = Some w" "isInvitationToken token"
      "res = (membership_of (iv_workspaceId r) (uuid_in env user) db = None, iv_workspaceId r)"
      "membership_rows db' = (if membership_of (iv_workspaceId r) (uuid_in env user) db = None then membership_rows db @
        [\<lparr>ms_workspaceId = iv_workspaceId r, ms_userId = uuid_in env user, ms_role = member_role_of (iv_role r),
          ms_sortOrder = next_position (uuid_in env user) db, ms_createdAt = clock_ms env\<rparr>] else membership_rows db)"
      "invitation_rows db' = update_where (\<lambda>q. iv_id q = iv_id r)
        (\<lambda>q. q\<lparr>iv_acceptedAt := Some now, iv_acceptedByUserId := Some (uuid_in env user), iv_updatedAt := now\<rparr>) (invitation_rows db)"
proof -
  from assms obtain r where tok: "isInvitationToken token" and r: "by_token sha token db = Some r"
    and rest: "(if iv_acceptedAt r \<noteq> None then
          (if iv_acceptedByUserId r = Some user then tx_return (False, iv_workspaceId r) else tx_fail Invitation_unavailable)
        else if \<not> acceptable r (normalizeInvitationEmail email0) now then tx_fail Invitation_unavailable
        else accept_open env r user now) db = Inr (res, db')"
    by (auto simp: acceptWorkspaceInvitation_def tx_fail_def split: if_splits option.splits elim!: tx_bindE tx_checkE)
  show thesis
  proof (cases "iv_acceptedAt r")
    case (Some t)
    with rest r show thesis by (intro replay) (auto simp: tx_return_def tx_fail_def split: if_splits)
  next
    case None
    with rest have ok: "acceptable r (normalizeInvitationEmail email0) now" and "accept_open env r user now db = Inr (res, db')"
      by (auto simp: tx_fail_def split: if_splits)
    then obtain joined db1 db2 where live: "live_workspace (iv_workspaceId r) db \<noteq> None"
      and join: "join_workspace env r user db = Inr (joined, db1)" and set: "settle env r user now db1 = Inr ((), db2)"
      and ev: "(if joined then inv_event env (iv_workspaceId r) ''workspace.member_joined''
         [(''actorUserId'', Json_str user), (''invitationId'', Json_str (iv_id r)), (''userId'', Json_str user)] else tx_return ()) db2 = Inr ((), db')"
      and res: "res = (joined, iv_workspaceId r)"
      by (auto simp: accept_open_def tx_return_def split: if_splits elim!: tx_bindE tx_checkE)
    have tables: "membership_rows db' = membership_rows db2" "invitation_rows db' = invitation_rows db2"
      using ev inv_event_tables by (auto simp: tx_return_def split: if_splits)
    from live obtain w where "live_workspace (iv_workspaceId r) db = Some w" by blast
    from fresh [OF r None ok this tok] show thesis using join set res tables
      by (auto simp: join_workspace_def settle_def split: if_splits)
  qed
qed

lemma by_token_mem: "by_token sha token db = Some r \<Longrightarrow> r \<in> set (invitation_rows db) \<and> iv_tokenDigest r = sha (string_of_jsval token)"
  by (auto simp: by_token_def dest: find_Some_mem)

lemma by_token_unique:
  assumes "invitations_ok db" "r \<in> set (invitation_rows db)" "iv_tokenDigest r = sha (string_of_jsval token)"
  shows "by_token sha token db = Some r"
  unfolding by_token_def
  by (rule find_unique [where f = iv_tokenDigest]) (use assms in \<open>auto simp: invitations_ok_def\<close>)

lemma keeps_accept: "tx_keeps evolves (acceptWorkspaceInvitation env sha user email0 token now)"
proof (rule tx_keepsI)
  fix db res db'
  assume "acceptWorkspaceInvitation env sha user email0 token now db = Inr (res, db')"
  then show "evolves db db'"
  proof (cases rule: acceptE)
    case replay
    then show ?thesis by (simp add: evolves_same)
  next
    case (fresh r)
    have open_row: "q = r" if "q \<in> set (invitation_rows db)" "iv_id q = iv_id r" "invitations_ok db" for q
    proof -
      have "inj_on iv_id (set (invitation_rows db))" using that(3) by (simp add: invitations_ok_def distinct_map)
      then show ?thesis using that(1,2) by_token_mem [OF fresh(1)] by (metis inj_onD)
    qed
    show ?thesis
      by (rule evolves_update [OF fresh(8)])
        (use fresh(2,3) in \<open>auto dest!: open_row simp: acceptable_def row_evolves_def row_ok_def\<close>)
  qed
qed

section \<open>Histories\<close>

text \<open>One committed transaction of the invitation module, or any change that leaves the invitations alone.\<close>

inductive invite_step :: "(string \<Rightarrow> string) \<Rightarrow> invite_db \<Rightarrow> invite_db \<Rightarrow> bool" for sha where
  invite: "createWorkspaceInvitation env sha ws user email role token now db = Inr (r, db') \<Longrightarrow> invite_step sha db db'"
| revoke: "revokeWorkspaceInvitation env ws i user now db = Inr (r, db') \<Longrightarrow> invite_step sha db db'"
| accept: "acceptWorkspaceInvitation env sha user email token now db = Inr (r, db') \<Longrightarrow> invite_step sha db db'"
| other: "invitation_rows db' = invitation_rows db \<Longrightarrow> invite_step sha db db'"

lemma invite_step_evolves: "invite_step sha a b \<Longrightarrow> evolves a b"
  by (induction rule: invite_step.induct)
    (blast intro: evolves_same dest: tx_keepsD [OF keeps_create] tx_keepsD [OF keeps_revoke] tx_keepsD [OF keeps_accept])+

lemma invite_steps_evolve: "(invite_step sha)\<^sup>*\<^sup>* a b \<Longrightarrow> evolves a b"
  by (induction rule: rtranclp_induct) (auto intro: evolves_same evolves_trans invite_step_evolves)

lemma evolves_row:
  assumes "evolves a b" "invitations_ok a" "r \<in> set (invitation_rows a)"
  obtains q where "q \<in> set (invitation_rows b)" "row_evolves r q"
proof -
  from assms have "list_all2 row_evolves (invitation_rows a) (take (length (invitation_rows a)) (invitation_rows b))"
    by (simp add: evolves_def)
  with assms(3) obtain q where "q \<in> set (take (length (invitation_rows a)) (invitation_rows b))" "row_evolves r q"
    by (metis in_set_conv_nth list_all2_conv_all_nth)
  then show thesis by (meson in_set_takeD that)
qed

section \<open>Single use\<close>

lemma accepted_row:
  assumes "invitations_ok db" "acceptWorkspaceInvitation env sha user email token now db = Inr (res, db1)" "uuid_in env user = user"
  obtains r where "r \<in> set (invitation_rows db1)" "iv_tokenDigest r = sha (string_of_jsval token)" "iv_acceptedAt r \<noteq> None"
    "iv_acceptedByUserId r = Some user" "iv_workspaceId r = snd res"
  using assms(2)
proof (cases rule: acceptE)
  case (replay r)
  then show thesis using by_token_mem [OF replay(1)] by (intro that [of r]) auto
next
  case (fresh r)
  let ?q = "r\<lparr>iv_acceptedAt := Some now, iv_acceptedByUserId := Some user, iv_updatedAt := now\<rparr>"
  have "?q \<in> set (invitation_rows db1)" using by_token_mem [OF fresh(1)] assms(3) by (auto simp: fresh(8) update_where_def image_iff)
  then show thesis using by_token_mem [OF fresh(1)] fresh(6) by (intro that [of ?q]) auto
qed

text \<open>C15: a token lets one account in. Once an invitation was accepted, whatever happens in between, any later
  acceptance with the same token is by the same account, reports no new joining and changes nothing.\<close>

theorem invitation_single_use:
  assumes "invitations_ok db" and "acceptWorkspaceInvitation env sha user email token now db = Inr (res, db1)"
    and "uuid_in env user = user" and "(invite_step sha)\<^sup>*\<^sup>* db1 db2"
    and "acceptWorkspaceInvitation env2 sha user2 email2 token now2 db2 = Inr (res2, db3)"
  shows "user2 = user \<and> res2 = (False, snd res) \<and> db3 = db2"
proof -
  have ok1: "invitations_ok db1" using tx_keepsD [OF keeps_accept assms(2)] assms(1) by (simp add: evolves_def)
  from assms(4) have ev: "evolves db1 db2" by (rule invite_steps_evolve)
  with ok1 have ok2: "invitations_ok db2" by (simp add: evolves_def)
  obtain r where r: "r \<in> set (invitation_rows db1)" "iv_tokenDigest r = sha (string_of_jsval token)" "iv_acceptedAt r \<noteq> None"
    "iv_acceptedByUserId r = Some user" "iv_workspaceId r = snd res" by (rule accepted_row [OF assms(1-3)])
  obtain q where q: "q \<in> set (invitation_rows db2)" "row_evolves r q" by (rule evolves_row [OF ev ok1 r(1)])
  with r have q': "iv_acceptedAt q \<noteq> None" "iv_acceptedByUserId q = Some user" "iv_workspaceId q = snd res" "iv_tokenDigest q = sha (string_of_jsval token)"
    by (auto simp: row_evolves_def)
  with by_token_unique [OF ok2 q(1)] have found: "by_token sha token db2 = Some q" by blast
  from assms(5) show ?thesis
    by (cases rule: acceptE) (use found q' in auto)
qed

text \<open>C30: revocation is final. After an invitation was revoked, whatever happens in between, no acceptance with
  its token succeeds, for any account and any address.\<close>

theorem revoked_never_accepted:
  assumes "invitations_ok db" and "revokeWorkspaceInvitation env ws i user now db = Inr (sm, db1)"
    and "(invite_step sha)\<^sup>*\<^sup>* db1 db2" and "r \<in> set (invitation_rows db)" and "iv_id r = uuid_in env i"
    and "iv_tokenDigest r = sha (string_of_jsval token)"
  shows "acceptWorkspaceInvitation env2 sha user2 email2 token now2 db2 = Inl Invitation_unavailable"
proof -
  have ok1: "invitations_ok db1" and ev1: "evolves db db1"
    using tx_keepsD [OF keeps_revoke assms(2)] assms(1) by (simp_all add: evolves_def)
  have ev2: "evolves db1 db2" using assms(3) by (rule invite_steps_evolve)
  with ok1 have ok2: "invitations_ok db2" by (simp add: evolves_def)
  have unique: "q = r" if "q \<in> set (invitation_rows db)" "iv_id q = uuid_in env i" for q
    using that assms(1,4,5) unfolding invitations_ok_def distinct_map by (metis inj_onD)
  obtain q where q: "q \<in> set (invitation_rows db1)" "iv_revokedAt q \<noteq> None" "iv_tokenDigest q = iv_tokenDigest r"
  proof -
    from assms(2) obtain e where e: "find (\<lambda>r. iv_id r = uuid_in env i \<and> iv_workspaceId r = uuid_in env ws) (invitation_rows db) = Some e"
      "iv_acceptedAt e = None"
      and rest: "(if iv_revokedAt e \<noteq> None then tx_return (invitationSummary e now)
        else tx_bind (withdraw_one env i now) (\<lambda>revoked.
          tx_bind (inv_event env ws ''workspace.invitation_revoked'' [(''actorUserId'', Json_str user), (''invitationId'', Json_str i)]) (\<lambda>_.
          tx_return (invitationSummary revoked now)))) db = Inr (sm, db1)"
      by (auto simp: revokeWorkspaceInvitation_def requireMembershipManager_def split: option.splits if_splits elim!: tx_bindE tx_checkE)
    from find_Some_mem [OF e(1)] unique have "e = r" by blast
    show thesis
    proof (cases "iv_revokedAt r")
      case (Some t)
      with rest \<open>e = r\<close> assms(4) that show thesis by (auto simp: tx_return_def)
    next
      case None
      with rest \<open>e = r\<close> obtain db0 row pl where "withdraw_one env i now db = Inr (row, db0)"
        and ev: "inv_event env ws ''workspace.invitation_revoked'' pl db0 = Inr ((), db1)"
        by (auto simp: tx_return_def elim!: tx_bindE)
      then have "invitation_rows db0 = map (\<lambda>r. if iv_id r = uuid_in env i \<and> iv_acceptedAt r = None then withdraw now r else r) (invitation_rows db)"
        by (auto simp: withdraw_one_def Let_def update_where_def split: option.splits)
      then have "withdraw now r \<in> set (invitation_rows db0)" using assms(4,5) e(2) \<open>e = r\<close>
        by (simp only: set_map) (rule image_eqI [of _ _ r], simp_all)
      then show thesis using inv_event_tables(1) [OF ev] by (intro that [of "withdraw now r"]) (auto simp: withdraw_def)
    qed
  qed
  obtain p where p: "p \<in> set (invitation_rows db2)" "row_evolves q p" by (rule evolves_row [OF ev2 ok1 q(1)])
  with q assms(6) have p': "iv_revokedAt p \<noteq> None" "iv_tokenDigest p = sha (string_of_jsval token)" by (auto simp: row_evolves_def)
  then have found: "by_token sha token db2 = Some p" using by_token_unique [OF ok2 p(1)] by blast
  have "row_ok p" using ok2 p(1) by (simp add: invitations_ok_def list_all_iff)
  then have "iv_acceptedAt p = None \<or> iv_revokedAt p = None" unfolding row_ok_def by (rule conjunct2)
  with p'(1) have "iv_acceptedAt p = None" by auto
  then show ?thesis using found p'(1)
    by (auto simp: acceptWorkspaceInvitation_def tx_bind_def tx_check_def tx_fail_def acceptable_def)
qed

section \<open>Preview\<close>

lemma role_after_join:
  "find (\<lambda>m. ms_workspaceId m = w \<and> ms_userId m = u) (rows @ [m]) = (case find (\<lambda>m. ms_workspaceId m = w \<and> ms_userId m = u) rows of
     Some x \<Rightarrow> Some x | None \<Rightarrow> if ms_workspaceId m = w \<and> ms_userId m = u then Some m else None)"
  by (induction rows) auto

text \<open>C40: the preview tells the truth. An account that can preview an invitation and then accepts it ends up with
  exactly the role the preview named, joins exactly when the preview said it was not yet a member, and
  no other membership changes; and whoever accepts can preview it, unless it was accepted by that user before and nothing changes.\<close>

theorem preview_matches_accept:
  assumes "acceptWorkspaceInvitation env sha user email token now db = Inr (res, db')"
  shows "(case previewWorkspaceInvitation env sha db user email token now of
      Inr pv \<Rightarrow> fst res = (\<not> pv_alreadyMember pv)
        \<and> map_option ms_role (membership_of (snd res) (uuid_in env user) db') = Some (pv_role pv)
        \<and> filter (\<lambda>m. \<not> (ms_workspaceId m = snd res \<and> ms_userId m = uuid_in env user)) (membership_rows db')
          = filter (\<lambda>m. \<not> (ms_workspaceId m = snd res \<and> ms_userId m = uuid_in env user)) (membership_rows db)
    | Inl _ \<Rightarrow> list_ex (\<lambda>r. iv_tokenDigest r = sha (string_of_jsval token) \<and> iv_acceptedByUserId r = Some user) (invitation_rows db) \<and> db' = db)"
  using assms
proof (cases rule: acceptE)
  case (replay r)
  then show ?thesis using by_token_mem [OF replay(1)]
    by (auto simp: previewWorkspaceInvitation_def Let_def list_ex_iff split: option.splits)
next
  case (fresh r w)
  then show ?thesis
    by (auto simp: previewWorkspaceInvitation_def Let_def membership_of_def role_after_join split: option.splits)
qed

section \<open>Inviting again\<close>

lemma withdraw_closed: "\<not> open_for env ws email (withdraw now r)"
  by (simp add: open_for_def withdraw_def)

lemma revoked_events_rows: "revoked_events env ws user ids db = Inr (u, db') \<Longrightarrow> invitation_rows db' = invitation_rows db"
  by (induction ids arbitrary: db) (auto simp: tx_return_def elim!: tx_bindE dest: inv_event_tables(1))

text \<open>Inviting replaces. A successful invitation leaves exactly one open invitation for that address in that
  workspace, the new one, valid for seven days, under the digest of the returned token and with the
  requested role; every other invitation of the table is unchanged, and the replaced one is revoked.
  Only an owner or an admin of a live workspace can do this, and never with the role of an owner.\<close>

theorem invite_replaces:
  assumes "createWorkspaceInvitation env sha ws user email0 role0 token now db = Inr ((sm, tok), db')"
  shows "tok = token \<and> is_manager env ws user db \<and> normalizeInvitationEmail email0 = Some (is_email sm)
    \<and> invitation_role_of role0 = Some (is_role sm) \<and> is_expiresAt sm = now + INVITATION_LIFETIME_MS
    \<and> map (\<lambda>r. (iv_id r, iv_tokenDigest r)) (filter (open_for env ws (is_email sm)) (invitation_rows db')) = [(is_id sm, sha token)]
    \<and> filter (\<lambda>r. iv_tokenDigest r \<noteq> sha token) (invitation_rows db')
      = map (\<lambda>r. if open_for env ws (is_email sm) r then withdraw now r else r) (invitation_rows db)"
proof -
  from assms obtain email role where in_ok: "normalizeInvitationEmail email0 = Some email" "invitation_role_of role0 = Some role"
    by (auto simp: createWorkspaceInvitation_def tx_fail_def split: option.splits)
  from assms have "tx_bind (requireMembershipManager env ws user) (\<lambda>_.
      tx_bind (withdraw_open env ws email now) (\<lambda>replaced.
      tx_bind (revoked_events env ws user replaced) (\<lambda>_.
      tx_bind (\<lambda>db. insert_invitation (new_invitation env sha ws user email role token now db) db) (\<lambda>created.
      tx_bind (inv_event env ws ''workspace.member_invited'' [(''actorUserId'', Json_str user), (''invitationId'', Json_str (iv_id created))]) (\<lambda>_.
      tx_return (invitationSummary created now, token)))))) db = Inr ((sm, tok), db')"
    by (simp only: createWorkspaceInvitation_def in_ok prod.case option.case)
  then obtain u db0 where "requireMembershipManager env ws user db = Inr (u, db0)" and rest0: "tx_bind (withdraw_open env ws email now) (\<lambda>replaced.
      tx_bind (revoked_events env ws user replaced) (\<lambda>_.
      tx_bind (\<lambda>db. insert_invitation (new_invitation env sha ws user email role token now db) db) (\<lambda>created.
      tx_bind (inv_event env ws ''workspace.member_invited'' [(''actorUserId'', Json_str user), (''invitationId'', Json_str (iv_id created))]) (\<lambda>_.
      tx_return (invitationSummary created now, token))))) db0 = Inr ((sm, tok), db')" by (rule tx_bindE)
  then have man: "is_manager env ws user db" and db0: "db0 = db"
    by (auto simp: requireMembershipManager_def tx_check_def split: if_splits)
  from rest0 obtain ids db1 where wd: "withdraw_open env ws email now db = Inr (ids, db1)" and rest1: "tx_bind (revoked_events env ws user ids) (\<lambda>_.
      tx_bind (\<lambda>db. insert_invitation (new_invitation env sha ws user email role token now db) db) (\<lambda>created.
      tx_bind (inv_event env ws ''workspace.member_invited'' [(''actorUserId'', Json_str user), (''invitationId'', Json_str (iv_id created))]) (\<lambda>_.
      tx_return (invitationSummary created now, token)))) db1 = Inr ((sm, tok), db')" unfolding db0 by (rule tx_bindE)
  from rest1 obtain u2 db2 where evs: "revoked_events env ws user ids db1 = Inr (u2, db2)" and rest2: "tx_bind (\<lambda>db. insert_invitation (new_invitation env sha ws user email role token now db) db) (\<lambda>created.
      tx_bind (inv_event env ws ''workspace.member_invited'' [(''actorUserId'', Json_str user), (''invitationId'', Json_str (iv_id created))]) (\<lambda>_.
      tx_return (invitationSummary created now, token))) db2 = Inr ((sm, tok), db')" by (rule tx_bindE)
  from rest2 obtain r db3 where ins: "insert_invitation (new_invitation env sha ws user email role token now db2) db2 = Inr (r, db3)"
    and rest3: "tx_bind (inv_event env ws ''workspace.member_invited'' [(''actorUserId'', Json_str user), (''invitationId'', Json_str (iv_id r))]) (\<lambda>_.
      tx_return (invitationSummary r now, token)) db3 = Inr ((sm, tok), db')" by (rule tx_bindE)
  from rest3 obtain u4 where ev: "inv_event env ws ''workspace.member_invited'' [(''actorUserId'', Json_str user), (''invitationId'', Json_str (iv_id r))] db3 = Inr (u4, db')"
    and sm: "sm = invitationSummary r now" "tok = token" by (rule tx_bindE) (auto simp: tx_return_def)
  let ?g = "\<lambda>r. if open_for env ws email r then withdraw now r else r"
  have rows: "invitation_rows db2 = map ?g (invitation_rows db)"
    using wd revoked_events_rows [OF evs] by (auto simp: withdraw_open_def update_where_def)
  have r: "r = new_invitation env sha ws user email role token now db2" "invitation_rows db' = map ?g (invitation_rows db) @ [r]"
    "sha token \<notin> iv_tokenDigest ` set (map ?g (invitation_rows db))"
    using ins inv_event_tables(1) [OF ev] rows by (auto simp: insert_invitation_def new_invitation_def split: if_splits)
  have new: "iv_email r = email" "iv_role r = role" "iv_tokenDigest r = sha token" "iv_expiresAt r = now + INVITATION_LIFETIME_MS"
    "open_for env ws email r" by (simp_all add: r(1) new_invitation_def open_for_def)
  have "filter (open_for env ws email) (map ?g (invitation_rows db)) = []"
  proof -
    have "\<not> open_for env ws email (?g r)" for r by (simp add: withdraw_closed)
    then show ?thesis unfolding filter_empty_conv set_map by blast
  qed
  moreover have "filter (\<lambda>r. iv_tokenDigest r \<noteq> sha token) (map ?g (invitation_rows db)) = map ?g (invitation_rows db)"
    by (rule filter_True) (use r(3) in \<open>metis image_eqI\<close>)
  ultimately show ?thesis using in_ok man sm new by (simp add: r(2) invitationSummary_def)
qed

section \<open>Witnesses\<close>

definition sample_token :: string where
  "sample_token = replicate 43 (CHR ''t'')"

definition invite_sample :: invite_db where
  "invite_sample = product_db.extend sample_db \<lparr>workspace_rows = [\<lparr>wk_id = ''w1'', wk_name = ''Lab'', wk_ownerUserId = ''u1'', wk_deletedAt = None\<rparr>],
     invitation_rows = []\<rparr>"

definition invite_result :: "invitation_error + 'r \<times> invite_db \<Rightarrow> invite_db" where
  "invite_result r = (case r of Inr (_, db) \<Rightarrow> db | Inl _ \<Rightarrow> invite_sample)"

lemma invite_resultI: "\<not> isl r \<Longrightarrow> r = Inr (fst (projr r), invite_result r)"
  by (cases r) (auto simp: invite_result_def)

definition sample_digest :: "string \<Rightarrow> string" where
  "sample_digest s = ''digest-'' @ s"

definition sample_invited :: invite_db where
  "sample_invited = invite_result (createWorkspaceInvitation sample_env sample_digest ''w1'' ''u1'' (JStr '' Eve@x.org'') (JStr ''admin'') sample_token 1000 invite_sample)"

definition sample_accepted :: invite_db where
  "sample_accepted = invite_result (acceptWorkspaceInvitation sample_env sample_digest ''u3'' (JStr ''eve@X.org'') (JStr sample_token) 2000 sample_invited)"

lemma sample_invite_ok: "\<not> isl (createWorkspaceInvitation sample_env sample_digest ''w1'' ''u1'' (JStr '' Eve@x.org'') (JStr ''admin'') sample_token 1000 invite_sample)"
  by code_simp

lemma sample_accept_ok: "\<not> isl (acceptWorkspaceInvitation sample_env sample_digest ''u3'' (JStr ''eve@X.org'') (JStr sample_token) 2000 sample_invited)"
  by code_simp

lemma sample_invited_ok: "invitations_ok sample_invited"
  by code_simp

lemma sample_accept: "acceptWorkspaceInvitation sample_env sample_digest ''u3'' (JStr ''eve@X.org'') (JStr sample_token) 2000 sample_invited
   = Inr ((True, ''w1''), sample_accepted)"
proof -
  have "fst (projr (acceptWorkspaceInvitation sample_env sample_digest ''u3'' (JStr ''eve@X.org'') (JStr sample_token) 2000 sample_invited)) = (True, ''w1'')"
    by code_simp
  with invite_resultI [OF sample_accept_ok] show ?thesis by (simp add: sample_accepted_def)
qed

theorem invitation_single_use_witness:
  "\<exists>db3. acceptWorkspaceInvitation sample_env sample_digest ''u3'' JNull (JStr sample_token) 9000 sample_accepted = Inr ((False, ''w1''), db3) \<and> db3 = sample_accepted"
proof -
  let ?r = "acceptWorkspaceInvitation sample_env sample_digest ''u3'' JNull (JStr sample_token) 9000 sample_accepted"
  have "\<not> isl ?r" by code_simp
  then have r: "?r = Inr (fst (projr ?r), invite_result ?r)" by (rule invite_resultI)
  have u: "uuid_in sample_env ''u3'' = ''u3''" by code_simp
  from invitation_single_use [OF sample_invited_ok sample_accept u rtranclp.rtrancl_refl r] r show ?thesis by auto
qed

theorem revoked_never_accepted_witness:
  "\<exists>sm db1. revokeWorkspaceInvitation sample_env ''w1'' ''0a000000-0000-4000-8000-00000000000f'' ''u1'' 1500 sample_invited = Inr (sm, db1)
     \<and> acceptWorkspaceInvitation sample_env sample_digest ''u3'' (JStr ''eve@X.org'') (JStr sample_token) 2000 db1 = Inl Invitation_unavailable"
proof -
  let ?r = "revokeWorkspaceInvitation sample_env ''w1'' ''0a000000-0000-4000-8000-00000000000f'' ''u1'' 1500 sample_invited"
  have "\<not> isl ?r" by code_simp
  then have r: "?r = Inr (fst (projr ?r), invite_result ?r)" by (rule invite_resultI)
  have "list_ex (\<lambda>r. iv_id r = uuid_in sample_env ''0a000000-0000-4000-8000-00000000000f'' \<and> iv_tokenDigest r = sample_digest (string_of_jsval (JStr sample_token)))
      (invitation_rows sample_invited)" by code_simp
  then obtain q where "q \<in> set (invitation_rows sample_invited)" "iv_id q = uuid_in sample_env ''0a000000-0000-4000-8000-00000000000f''"
    "iv_tokenDigest q = sample_digest (string_of_jsval (JStr sample_token))" unfolding list_ex_iff by blast
  from revoked_never_accepted [where sha = sample_digest and token = "JStr sample_token", OF sample_invited_ok r rtranclp.rtrancl_refl this,
      of sample_env "''u3''" "JStr ''eve@X.org''" 2000] r
  show ?thesis by (intro exI [of _ "fst (projr ?r)"] exI [of _ "invite_result ?r"] conjI)
qed

theorem preview_matches_accept_witness:
  "\<exists>pv. previewWorkspaceInvitation sample_env sample_digest sample_invited ''u3'' (JStr ''eve@X.org'') (JStr sample_token) 2000 = Inr pv
     \<and> pv_alreadyMember pv = False \<and> map_option ms_role (membership_of ''w1'' ''u3'' sample_accepted) = Some (pv_role pv)"
proof -
  have "\<not> isl (previewWorkspaceInvitation sample_env sample_digest sample_invited ''u3'' (JStr ''eve@X.org'') (JStr sample_token) 2000)" by code_simp
  then obtain pv where pv: "previewWorkspaceInvitation sample_env sample_digest sample_invited ''u3'' (JStr ''eve@X.org'') (JStr sample_token) 2000 = Inr pv"
    by (metis isl_def old.sum.exhaust)
  have "uuid_in sample_env ''u3'' = ''u3''" by code_simp
  with preview_matches_accept [OF sample_accept] pv show ?thesis by simp
qed

theorem invite_replaces_witness:
  "map (\<lambda>r. iv_tokenDigest r) (filter (open_for sample_env ''w1'' ''eve@x.org'') (invitation_rows sample_invited)) = [sample_digest sample_token]"
proof -
  let ?r = "createWorkspaceInvitation sample_env sample_digest ''w1'' ''u1'' (JStr '' Eve@x.org'') (JStr ''admin'') sample_token 1000 invite_sample"
  have "?r = Inr ((fst (fst (projr ?r)), snd (fst (projr ?r))), sample_invited)"
    using invite_resultI [OF sample_invite_ok] by (simp add: sample_invited_def)
  note w = invite_replaces [OF this]
  moreover have "normalizeInvitationEmail (JStr '' Eve@x.org'') = Some ''eve@x.org''" by code_simp
  ultimately have e: "is_email (fst (fst (projr ?r))) = ''eve@x.org''" by simp
  from w have "map snd (map (\<lambda>r. (iv_id r, iv_tokenDigest r)) (filter (open_for sample_env ''w1'' (is_email (fst (fst (projr ?r))))) (invitation_rows sample_invited)))
      = map snd [(is_id (fst (fst (projr ?r))), sample_digest sample_token)]" by presburger
  then show ?thesis by (simp add: e comp_def)
qed

end
