(* ===== verification/Event_Replay.thy ===== *)
theory Event_Replay
  imports Event_Log
begin

text \<open>
  Reads and maintenance of the workspace event log, \<^verbatim>\<open>packages/db/src/event-log.ts\<close>, the decision where a
  subscriber starts (\<open>decideReplay\<close> of \<^verbatim>\<open>apps/web/src/server/workspace-event-stream.ts\<close>). Sequence numbers a caller passes are integers.
\<close>

section \<open>Reads\<close>

record event_view =
  vw_aggregateId :: "string option"
  vw_aggregateType :: string
  vw_actor :: "(actor_kind \<times> string) option"
  vw_correlationId :: "string option"
  vw_eventId :: string
  vw_eventType :: string
  vw_occurredAt :: int
  vw_payload :: payload
  vw_schemaVersion :: nat
  vw_workspaceSequence :: nat

definition WORKSPACE_EVENT_PAGE_LIMIT :: int where
  "WORKSPACE_EVENT_PAGE_LIMIT = 200"

definition toView :: "event_row \<Rightarrow> event_view" where
  "toView row = \<lparr>vw_aggregateId = ev_aggregateId row, vw_aggregateType = ev_aggregateType row,
     vw_actor = (case ev_actor row of Some (k, i) \<Rightarrow> if i = [] then None else Some (k, i) | None \<Rightarrow> None),
     vw_correlationId = ev_correlationId row, vw_eventId = ev_id row, vw_eventType = ev_eventType row,
     vw_occurredAt = ev_occurredAt row, vw_payload = ev_payload row, vw_schemaVersion = ev_schemaVersion row,
     vw_workspaceSequence = ev_workspaceSequence row\<rparr>"

definition rows_after :: "db_env \<Rightarrow> 'a event_db_scheme \<Rightarrow> string \<Rightarrow> int \<Rightarrow> event_row list" where
  "rows_after env db ws after =
     sort_key ev_workspaceSequence (filter (\<lambda>e. ev_workspaceId e = uuid_in env ws \<and> int (ev_workspaceSequence e) > after) (event_rows db))"

definition listWorkspaceEventsAfter :: "db_env \<Rightarrow> 'a event_db_scheme \<Rightarrow> string \<Rightarrow> int \<Rightarrow> int \<Rightarrow> event_view list" where
  "listWorkspaceEventsAfter env db ws after limit =
     map toView (take (nat (max 1 (min limit WORKSPACE_EVENT_PAGE_LIMIT))) (rows_after env db ws after))"

definition prepareWorkspaceEventsAfter :: "db_env \<Rightarrow> string \<Rightarrow> int \<Rightarrow> 'a event_db_scheme \<Rightarrow> int \<Rightarrow> event_view list" where
  "prepareWorkspaceEventsAfter env ws limit =
     (let n = nat (max 1 (min limit WORKSPACE_EVENT_PAGE_LIMIT)) in
      (\<lambda>db cursor. map toView (take n (rows_after env db ws cursor))))"

record event_window =
  win_earliest :: "nat option"
  win_latest :: nat

definition workspaceEventWindow :: "db_env \<Rightarrow> 'a event_db_scheme \<Rightarrow> string \<Rightarrow> event_window" where
  "workspaceEventWindow env db ws =
     (let seqs = map ev_workspaceSequence (filter (\<lambda>e. ev_workspaceId e = uuid_in env ws) (event_rows db)) in
      if seqs = [] then \<lparr>win_earliest = None, win_latest = 0\<rparr>
      else \<lparr>win_earliest = Some (Min (set seqs)), win_latest = Max (set seqs)\<rparr>)"

definition countWorkspaceEvents :: "db_env \<Rightarrow> 'a event_db_scheme \<Rightarrow> string \<Rightarrow> nat" where
  "countWorkspaceEvents env db ws = length (filter (\<lambda>e. ev_workspaceId e = uuid_in env ws) (event_rows db))"

definition latestWorkspaceEvents :: "db_env \<Rightarrow> 'a event_db_scheme \<Rightarrow> string \<Rightarrow> nat \<Rightarrow> event_view list" where
  "latestWorkspaceEvents env db ws limit =
     map toView (take limit (sort_key (\<lambda>e. - int (ev_workspaceSequence e)) (filter (\<lambda>e. ev_workspaceId e = uuid_in env ws) (event_rows db))))"

section \<open>Maintenance\<close>

definition doomed_rows :: "db_env \<Rightarrow> 'a event_db_scheme \<Rightarrow> string \<Rightarrow> int \<Rightarrow> int \<Rightarrow> event_row list" where
  "doomed_rows env db ws before limit =
     take (nat (max 1 limit)) (sort_key ev_workspaceSequence
       (filter (\<lambda>e. ev_workspaceId e = uuid_in env ws \<and> int (ev_workspaceSequence e) \<le> before) (event_rows db)))"

text \<open>Deleting an event deletes its publication record.\<close>

definition pruneWorkspaceEventsBefore :: "db_env \<Rightarrow> string \<Rightarrow> int \<Rightarrow> int \<Rightarrow> 'a event_db_scheme \<Rightarrow> nat \<times> 'a event_db_scheme" where
  "pruneWorkspaceEventsBefore env ws before limit db =
     (let doomed = map ev_id (doomed_rows env db ws before limit) in
      if doomed = [] then (0, db)
      else (length doomed, db\<lparr>event_rows := filter (\<lambda>e. ev_id e \<notin> set doomed) (event_rows db),
              dispatch_rows := filter (\<lambda>d. ds_eventId d \<notin> set doomed) (dispatch_rows db)\<rparr>))"

definition pendingEventDispatches :: "db_env \<Rightarrow> 'a event_db_scheme \<Rightarrow> string \<Rightarrow> nat \<Rightarrow> (string \<times> nat) list" where
  "pendingEventDispatches env db ws limit =
     map (\<lambda>d. (ds_eventId d, ds_workspaceSequence d)) (take limit (sort_key ds_workspaceSequence
       (filter (\<lambda>d. ds_workspaceId d = uuid_in env ws \<and> ds_notifiedAt d = None) (dispatch_rows db))))"

definition unnotified :: "db_env \<Rightarrow> string \<Rightarrow> int \<Rightarrow> dispatch_row \<Rightarrow> bool" where
  "unnotified env ws through d \<longleftrightarrow>
     ds_workspaceId d = uuid_in env ws \<and> int (ds_workspaceSequence d) \<le> through \<and> ds_notifiedAt d = None"

definition markEventDispatchesNotified :: "db_env \<Rightarrow> string \<Rightarrow> int \<Rightarrow> 'a event_db_scheme \<Rightarrow> nat \<times> 'a event_db_scheme" where
  "markEventDispatchesNotified env ws through db =
     (length (filter (unnotified env ws through) (dispatch_rows db)),
      db\<lparr>dispatch_rows := map (\<lambda>d. if unnotified env ws through d
         then d\<lparr>ds_attempts := ds_attempts d + 1, ds_notifiedAt := Some (clock_ms env)\<rparr> else d) (dispatch_rows db)\<rparr>)"

section \<open>Where a subscriber starts\<close>

datatype resync_reason =
    Cursor_expired
  | Cursor_foreign_workspace
  | Cursor_malformed
  | Cursor_unavailable
  | Cursor_ahead_of_head
  | Cursor_behind_retained_window

datatype replay_decision = Live_from_head int | Replay_from int | Resync resync_reason

definition decideReplay :: "int option \<Rightarrow> event_window \<Rightarrow> replay_decision" where
  "decideReplay requested window =
     (case requested of
        None \<Rightarrow> Live_from_head (int (win_latest window))
      | Some s \<Rightarrow>
          if s > int (win_latest window) then Resync Cursor_ahead_of_head
          else if (case win_earliest window of None \<Rightarrow> False | Some e \<Rightarrow> s < int e - 1) then Resync Cursor_behind_retained_window
          else Replay_from s)"

lemma rows_after_set: "e \<in> set (rows_after env db ws start) \<longleftrightarrow> e \<in> set (event_rows db) \<and> ev_workspaceId e = uuid_in env ws \<and> start < int (ev_workspaceSequence e)"
  by (auto simp: rows_after_def)

section \<open>What stays in the log\<close>

lemma upsert_total: "sum_list (map snd (upsert_sequence ws rows)) = sum_list (map snd rows) + 1"
  by (induction ws rows rule: upsert_sequence.induct) simp_all

text \<open>In each workspace the retained events are the last ones, without gap, in log order; ids are unique.\<close>

definition log_window :: "db_env \<Rightarrow> 'a event_db_scheme \<Rightarrow> bool" where
  "log_window env db \<longleftrightarrow>
     (\<forall>ws. \<exists>k \<le> last_sequence ws (sequence_rows db). map ev_workspaceSequence (events_of ws db) = [Suc k..<Suc (last_sequence ws (sequence_rows db))])
     \<and> distinct (map ev_id (event_rows db)) \<and> ev_id ` set (event_rows db) \<subseteq> new_id env ` {..<events_ever db}"

lemma append_window:
  assumes "inj (new_id env)" "log_window env db" "appendWorkspaceEvent env event db = Inr (row, db')"
  shows "log_window env db'"
  using assms(3)
proof (rule appendE)
  fix c
  assume row: "row = row_of env c (events_ever db) (last_sequence (ev_workspaceId row) (sequence_rows db) + 1) event"
    and db': "db' = db\<lparr>sequence_rows := upsert_sequence (ev_workspaceId row) (sequence_rows db), event_rows := event_rows db @ [row],
       dispatch_rows := dispatch_rows db @ [\<lparr>ds_eventId = ev_id row, ds_workspaceId = ev_workspaceId row,
         ds_workspaceSequence = ev_workspaceSequence row, ds_notifiedAt = None, ds_attempts = 0\<rparr>]\<rparr>"
  have seq: "ev_workspaceSequence row = last_sequence (ev_workspaceId row) (sequence_rows db) + 1" and id: "ev_id row = new_id env (events_ever db)"
    by (subst row, simp add: row_of_def)+
  have ever: "events_ever db' = Suc (events_ever db)" by (simp add: events_ever_def db' upsert_total)
  have "\<exists>k \<le> last_sequence ws (sequence_rows db'). map ev_workspaceSequence (events_of ws db') = [Suc k..<Suc (last_sequence ws (sequence_rows db'))]" for ws
  proof -
    from assms(2) obtain k where k: "k \<le> last_sequence ws (sequence_rows db)"
      "map ev_workspaceSequence (events_of ws db) = [Suc k..<Suc (last_sequence ws (sequence_rows db))]"
      unfolding log_window_def by blast
    then have "map ev_workspaceSequence (events_of ws db') = [Suc k..<Suc (last_sequence ws (sequence_rows db'))]"
      by (auto simp: db' events_of_def last_sequence_upsert seq)
    moreover have "k \<le> last_sequence ws (sequence_rows db')" using k(1) by (auto simp: db' last_sequence_upsert)
    ultimately show ?thesis by blast
  qed
  moreover have "ev_id row \<notin> ev_id ` set (event_rows db)"
    using assms(1,2) unfolding log_window_def id by (auto dest: injD)
  moreover have "ev_id ` set (event_rows db') \<subseteq> new_id env ` {..<events_ever db'}"
    using assms(2) unfolding log_window_def ever by (auto simp: db' id less_Suc_eq)
  ultimately show ?thesis using assms(2) by (simp add: log_window_def db')
qed

lemma events_of_sorted:
  assumes "log_window env db"
  shows "sorted_wrt (\<lambda>a b. ev_workspaceSequence a < ev_workspaceSequence b) (events_of ws db)"
proof -
  from assms obtain k where k: "map ev_workspaceSequence (events_of ws db) = [Suc k..<Suc (last_sequence ws (sequence_rows db))]"
    unfolding log_window_def by blast
  have "sorted_wrt (<) (map ev_workspaceSequence (events_of ws db))" unfolding k by (rule sorted_wrt_upt)
  then show ?thesis by (simp only: sorted_wrt_map)
qed

lemma sort_filter_events:
  assumes "log_window env db"
  shows "sort_key ev_workspaceSequence (filter P (events_of ws db)) = filter P (events_of ws db)"
proof (rule sort_key_id_if_sorted)
  have "sorted_wrt (\<lambda>a b. ev_workspaceSequence a < ev_workspaceSequence b) (filter P (events_of ws db))"
    by (rule sorted_wrt_filter [OF events_of_sorted [OF assms]])
  then have "sorted_wrt (\<lambda>a b. ev_workspaceSequence a \<le> ev_workspaceSequence b) (filter P (events_of ws db))"
    by (rule sorted_wrt_mono_rel [rotated]) simp
  then show "sorted (map ev_workspaceSequence (filter P (events_of ws db)))" by (simp only: sorted_wrt_map)
qed

lemma rows_after_window:
  assumes "log_window env db"
  shows "rows_after env db ws start = filter (\<lambda>e. start < int (ev_workspaceSequence e)) (events_of (uuid_in env ws) db)"
  using sort_filter_events [OF assms, of "\<lambda>e. start < int (ev_workspaceSequence e)" "uuid_in env ws"]
  by (simp add: rows_after_def events_of_def conj_commute)

text \<open>The condition of a prune holds on a prefix, so a prune removes a prefix.\<close>

lemma filter_prefix:
  assumes "sorted_wrt (\<lambda>a b. f a < f b) xs"
  shows "filter (\<lambda>e. int (f e) \<le> n) xs = takeWhile (\<lambda>e. int (f e) \<le> n) xs"
  using assms
proof (induction xs)
  case (Cons x xs)
  have "filter (\<lambda>e. int (f e) \<le> n) xs = []" if "\<not> int (f x) \<le> n"
    using Cons.prems that by (auto simp: filter_empty_conv)
  with Cons show ?case by auto
qed simp

lemma doomed_prefix:
  assumes "log_window env db"
  obtains m where "doomed_rows env db ws before limit = take m (events_of (uuid_in env ws) db)"
proof -
  let ?E = "events_of (uuid_in env ws) db" and ?P = "\<lambda>e. int (ev_workspaceSequence e) \<le> before"
  have "doomed_rows env db ws before limit = take (nat (max 1 limit)) (filter ?P ?E)"
    using sort_filter_events [OF assms, of ?P "uuid_in env ws"] by (simp add: doomed_rows_def events_of_def conj_commute)
  also have "\<dots> = take (nat (max 1 limit)) (takeWhile ?P ?E)" by (simp only: filter_prefix [OF events_of_sorted [OF assms]])
  also have "\<dots> = take (min (nat (max 1 limit)) (length (takeWhile ?P ?E))) ?E" by (metis take_take takeWhile_eq_take)
  finally show thesis by (rule that)
qed

lemma filter_not_prefix:
  assumes "distinct (map f xs)"
  shows "filter (\<lambda>x. f x \<notin> f ` set (take m xs)) xs = drop m xs"
  using assms
proof (induction xs arbitrary: m)
  case (Cons x xs)
  show ?case
  proof (cases m)
    case 0
    then show ?thesis by simp
  next
    case (Suc n)
    have "filter (\<lambda>y. f y \<noteq> f x \<and> f y \<notin> f ` set (take n xs)) xs = filter (\<lambda>y. f y \<notin> f ` set (take n xs)) xs"
      using Cons.prems by (intro filter_cong refl) (auto simp: image_iff)
    with Cons Suc show ?thesis by simp
  qed
qed simp

lemma prune_events_of:
  assumes "log_window env db" and "pruneWorkspaceEventsBefore env ws before limit db = (n, db')"
  obtains m where "events_of (uuid_in env ws) db' = drop m (events_of (uuid_in env ws) db)"
    "\<And>w. w \<noteq> uuid_in env ws \<Longrightarrow> events_of w db' = events_of w db" "sequence_rows db' = sequence_rows db"
    "event_rows db' = filter (\<lambda>e. ev_id e \<notin> ev_id ` set (take m (events_of (uuid_in env ws) db))) (event_rows db)"
proof -
  let ?E = "events_of (uuid_in env ws) db"
  obtain m where m: "doomed_rows env db ws before limit = take m ?E" by (rule doomed_prefix [OF assms(1)])
  have d: "distinct (map ev_id (event_rows db))" using assms(1) by (simp add: log_window_def)
  have rows: "event_rows db' = filter (\<lambda>e. ev_id e \<notin> ev_id ` set (take m ?E)) (event_rows db)" and seqs: "sequence_rows db' = sequence_rows db"
    using assms(2) by (auto simp: pruneWorkspaceEventsBefore_def m Let_def split: if_splits)
  have "events_of w db' = filter (\<lambda>e. ev_id e \<notin> ev_id ` set (take m ?E)) (events_of w db)" for w
    by (simp add: events_of_def rows conj_commute)
  moreover have "distinct (map ev_id ?E)" using d by (simp add: events_of_def distinct_map_filter)
  moreover have "filter (\<lambda>e. ev_id e \<notin> ev_id ` set (take m ?E)) (events_of w db) = events_of w db" if "w \<noteq> uuid_in env ws" for w
  proof (rule filter_True, rule ballI)
    fix e assume e: "e \<in> set (events_of w db)"
    show "ev_id e \<notin> ev_id ` set (take m ?E)"
    proof
      assume "ev_id e \<in> ev_id ` set (take m ?E)"
      then obtain e' where "e' \<in> set ?E" "ev_id e' = ev_id e" by (metis imageE in_set_takeD)
      moreover have "inj_on ev_id (set (event_rows db))" using d by (simp add: distinct_map)
      ultimately have "e' = e" using e by (auto simp: events_of_def dest: inj_onD)
      with \<open>e' \<in> set ?E\<close> e that show False by (simp add: events_of_def)
    qed
  qed
  ultimately show thesis using that [of m] rows seqs filter_not_prefix [of ev_id ?E m] by simp
qed

lemma prune_window:
  assumes "log_window env db" and "pruneWorkspaceEventsBefore env ws before limit db = (n, db')"
  shows "log_window env db'"
  using assms
proof (rule prune_events_of)
  fix m
  let ?ws = "uuid_in env ws"
  assume e: "events_of ?ws db' = drop m (events_of ?ws db)" and o: "\<And>w. w \<noteq> ?ws \<Longrightarrow> events_of w db' = events_of w db"
    and s: "sequence_rows db' = sequence_rows db"
    and r: "event_rows db' = filter (\<lambda>e. ev_id e \<notin> ev_id ` set (take m (events_of ?ws db))) (event_rows db)"
  have "\<exists>k \<le> last_sequence w (sequence_rows db'). map ev_workspaceSequence (events_of w db') = [Suc k..<Suc (last_sequence w (sequence_rows db'))]" for w
  proof -
    let ?n = "last_sequence w (sequence_rows db)"
    from assms(1) obtain k where k: "k \<le> ?n" "map ev_workspaceSequence (events_of w db) = [Suc k..<Suc ?n]"
      unfolding log_window_def by blast
    show ?thesis
    proof (cases "w = ?ws")
      case True
      then have "map ev_workspaceSequence (events_of w db') = [Suc k + m..<Suc ?n]" using k(2) by (simp only: e drop_map [symmetric] drop_upt)
      then show ?thesis using k(1) by (intro exI [of _ "min (k + m) ?n"]) (auto simp: s min_def)
    next
      case False
      then show ?thesis using k by (auto simp: o s)
    qed
  qed
  then show ?thesis using assms(1) by (auto simp: log_window_def r s events_ever_def distinct_map_filter)
qed

lemma mark_window: "log_window env (snd (markEventDispatchesNotified env2 ws through db)) = log_window env db"
  by (simp add: log_window_def markEventDispatchesNotified_def events_of_def events_ever_def)

section \<open>Replay\<close>

text \<open>One operation on the log.\<close>

inductive log_step :: "db_env \<Rightarrow> 'a event_db_scheme \<Rightarrow> 'a event_db_scheme \<Rightarrow> bool" for env where
  append: "appendWorkspaceEvent (env\<lparr>clock_ms := t\<rparr>) event db = Inr (row, db') \<Longrightarrow> log_step env db db'"
| prune: "pruneWorkspaceEventsBefore env ws before limit db = (n, db') \<Longrightarrow> log_step env db db'"
| notify: "markEventDispatchesNotified (env\<lparr>clock_ms := t\<rparr>) ws through db = (n, db') \<Longrightarrow> log_step env db db'"

lemma log_window_clock [simp]: "log_window (env\<lparr>clock_ms := t\<rparr>) db = log_window env db"
  by (simp add: log_window_def)

lemma log_step_window: "log_step env a b \<Longrightarrow> inj (new_id env) \<Longrightarrow> log_window env a \<Longrightarrow> log_window env b"
proof (induction rule: log_step.induct)
  case (append t event db row db')
  then show ?case using append_window [of "env\<lparr>clock_ms := t\<rparr>" db event row db'] by simp
next
  case (prune ws before limit db n db')
  then show ?case using prune_window by blast
next
  case (notify t ws through db n db')
  then show ?case using mark_window [of env "env\<lparr>clock_ms := t\<rparr>" ws through db] by simp
qed

definition no_events :: "'a event_db_scheme \<Rightarrow> bool" where
  "no_events db \<longleftrightarrow> event_rows db = [] \<and> sequence_rows db = []"

lemma log_steps_window:
  assumes "(log_step env)\<^sup>*\<^sup>* db0 db" "inj (new_id env)" "no_events db0"
  shows "log_window env db"
  using assms(1)
proof (induction rule: rtranclp_induct)
  case base
  show ?case using assms(3) by (simp add: log_window_def no_events_def events_of_def last_sequence_def)
next
  case (step a b)
  then show ?case using log_step_window assms(2) by blast
qed

lemma empty_log_no_events: "no_events empty_log"
  by (simp add: no_events_def empty_log_def)

lemma drop_page:
  assumes "sorted_wrt (\<lambda>a b. f a < (f b :: nat)) xs" "take n xs \<noteq> []"
  shows "filter (\<lambda>e. int (f (last (take n xs))) < int (f e)) xs = drop n xs"
  using assms
proof (induction xs arbitrary: n)
  case (Cons x xs)
  then obtain m where n: "n = Suc m" by (cases n) auto
  show ?case
  proof (cases "take m xs = []")
    case True
    then have "drop m xs = xs" by (cases m) auto
    moreover have "filter (\<lambda>e. f x < f e) xs = xs" using Cons.prems(1) by (auto simp: filter_id_conv)
    ultimately show ?thesis using True by (simp add: n)
  next
    case False
    have "last (take m xs) \<in> set xs" using False by (meson in_set_takeD last_in_set)
    then have "f x < f (last (take m xs))" using Cons.prems(1) by simp
    then show ?thesis using False Cons.IH [of m] Cons.prems(1) by (simp add: n)
  qed
qed simp

text \<open>What comes after a page is what the page left out.\<close>

lemma rows_after_page:
  assumes w: "log_window env db" and ne: "take n (rows_after env db ws start) \<noteq> []"
  shows "rows_after env db ws (int (ev_workspaceSequence (last (take n (rows_after env db ws start))))) = drop n (rows_after env db ws start)"
proof -
  let ?rows = "rows_after env db ws start" and ?last = "int (ev_workspaceSequence (last (take n (rows_after env db ws start))))"
  have "start < ?last" using ne rows_after_set [of "last (take n ?rows)" env db ws start] by (meson in_set_takeD last_in_set)
  then have "rows_after env db ws ?last = filter (\<lambda>e. ?last < int (ev_workspaceSequence e)) ?rows"
    unfolding rows_after_window [OF w] filter_filter by (intro filter_cong) auto
  also have "\<dots> = drop n ?rows"
    by (rule drop_page [OF _ ne]) (unfold rows_after_window [OF w], rule sorted_wrt_filter [OF events_of_sorted [OF w]])
  finally show ?thesis .
qed

lemma window_of_events:
  assumes "map ev_workspaceSequence (events_of (uuid_in env ws) db) = [Suc k..<Suc n]"
  shows "workspaceEventWindow env db ws =
    (if k < n then \<lparr>win_earliest = Some (Suc k), win_latest = n\<rparr> else \<lparr>win_earliest = None, win_latest = 0\<rparr>)"
proof -
  have s: "map ev_workspaceSequence (filter (\<lambda>e. ev_workspaceId e = uuid_in env ws) (event_rows db)) = [Suc k..<Suc n]"
    using assms by (simp only: events_of_def)
  have "Min {Suc k..<Suc n} = Suc k" "Max {Suc k..<Suc n} = n" if "k < n"
    using that by (auto intro!: Min_eqI Max_eqI)
  then show ?thesis unfolding workspaceEventWindow_def s by (auto simp: Let_def simp del: upt_Suc)
qed

lemma sequences_after:
  assumes w: "log_window env db" and s: "map ev_workspaceSequence (events_of (uuid_in env ws) db) = [Suc k..<Suc n]" and "int k \<le> c"
  shows "map ev_workspaceSequence (rows_after env db ws c) = [Suc (nat c)..<Suc n]"
proof -
  have "map ev_workspaceSequence (rows_after env db ws c) = filter (\<lambda>i. c < int i) (map ev_workspaceSequence (events_of (uuid_in env ws) db))"
    unfolding rows_after_window [OF w] filter_map comp_def ..
  also have "\<dots> = filter (\<lambda>i. nat c < i) [Suc k..<Suc n]" unfolding s by (intro filter_cong) (auto simp: nat_less_iff)
  also have "\<dots> = [Suc (nat c)..<Suc n]"
  proof (cases "nat c \<le> n")
    case True
    then have "[Suc k..<Suc n] = [Suc k..<Suc (nat c)] @ [Suc (nat c)..<Suc n]"
      using assms(3) upt_add_eq_append [of "Suc k" "Suc (nat c)" "n - nat c"] by simp
    moreover have "filter (\<lambda>i. nat c < i) [Suc k..<Suc (nat c)] = []" by (simp only: filter_empty_conv) auto
    moreover have "filter (\<lambda>i. nat c < i) [Suc (nat c)..<Suc n] = [Suc (nat c)..<Suc n]" by (simp only: filter_id_conv) auto
    ultimately show ?thesis by simp
  next
    case False
    then show ?thesis by (auto simp: filter_empty_conv)
  qed
  finally show ?thesis .
qed

lemma replayed_sequences:
  assumes w: "log_window env db" and "0 \<le> c" and d: "decideReplay (Some c) (workspaceEventWindow env db ws) = Replay_from s"
  shows "s = c" and "map ev_workspaceSequence (rows_after env db ws c) = [Suc (nat c)..<Suc (win_latest (workspaceEventWindow env db ws))]"
    and "c \<le> int (win_latest (workspaceEventWindow env db ws))"
proof -
  obtain k n where k: "k \<le> n" "map ev_workspaceSequence (events_of (uuid_in env ws) db) = [Suc k..<Suc n]"
    using w unfolding log_window_def by blast
  note win = window_of_events [OF k(2)]
  show "s = c" and "c \<le> int (win_latest (workspaceEventWindow env db ws))" using d by (auto simp: decideReplay_def split: if_splits)
  show "map ev_workspaceSequence (rows_after env db ws c) = [Suc (nat c)..<Suc (win_latest (workspaceEventWindow env db ws))]"
  proof (cases "k < n")
    case True
    then have "int k \<le> c" using d by (simp add: win decideReplay_def split: if_splits)
    with True show ?thesis using sequences_after [OF w k(2)] by (simp add: win del: upt_Suc)
  next
    case False
    then have "events_of (uuid_in env ws) db = []" using k by simp
    then show ?thesis using False by (simp add: rows_after_window [OF w] win)
  qed
qed

text \<open>C27: a cursor is replayed exactly when every event numbered after it, up to the last number ever
  given out, is still in the log; otherwise the subscriber is told to resynchronise, because the cursor is ahead
  of the head or because the next event was pruned. That is so while the workspace retains an event; when it
  retains none, because none was ever logged or because all were pruned, the cursor 0 is replayed and every other
  one is taken to be ahead of the head.\<close>

theorem replay_iff_retained:
  assumes "inj (new_id env)" and "(log_step env)\<^sup>*\<^sup>* empty_log db" and "0 \<le> c"
  shows "decideReplay (Some c) (workspaceEventWindow env db ws) =
    (if events_of (uuid_in env ws) db = [] then (if c = 0 then Replay_from 0 else Resync Cursor_ahead_of_head)
     else if int (last_sequence (uuid_in env ws) (sequence_rows db)) < c then Resync Cursor_ahead_of_head
     else if {Suc (nat c)..last_sequence (uuid_in env ws) (sequence_rows db)} \<subseteq> ev_workspaceSequence ` set (events_of (uuid_in env ws) db)
       then Replay_from c else Resync Cursor_behind_retained_window)"
proof -
  let ?n = "last_sequence (uuid_in env ws) (sequence_rows db)"
  obtain k where k: "k \<le> ?n" "map ev_workspaceSequence (events_of (uuid_in env ws) db) = [Suc k..<Suc ?n]"
    using log_steps_window [OF assms(2,1) empty_log_no_events] unfolding log_window_def by blast
  have none: "events_of (uuid_in env ws) db = [] \<longleftrightarrow> \<not> k < ?n" using arg_cong [OF k(2), of length] by (auto simp del: upt_Suc)
  have "ev_workspaceSequence ` set (events_of (uuid_in env ws) db) = {Suc k..?n}"
    unfolding set_map [symmetric] k(2) by auto
  then show ?thesis using assms(3) none by (auto simp: window_of_events [OF k(2)] decideReplay_def)
qed

text \<open>A log with three events of one workspace, the first of them pruned, and one with all pruned.\<close>

definition replay_env :: db_env where
  "replay_env = \<lparr>uuid_in = id, new_id = (\<lambda>n. replicate n (CHR ''e'')), clock_ms = 5\<rparr>"

definition sample_event :: event_input where
  "sample_event = \<lparr>ei_workspaceId = ''w1'', ei_eventType = ''workspace.updated'', ei_payload = [], ei_actor = None,
     ei_correlationId = None, ei_occurredAt = None\<rparr>"

definition sample_log :: event_db where
  "sample_log = snd (pruneWorkspaceEventsBefore replay_env ''w1'' 1 200
     (run_appends replay_env [sample_event, sample_event, sample_event] empty_log))"

definition emptied_log :: event_db where
  "emptied_log = snd (pruneWorkspaceEventsBefore replay_env ''w1'' 3 200
     (run_appends replay_env [sample_event, sample_event, sample_event] empty_log))"

lemma run_appends_steps: "(log_step env)\<^sup>*\<^sup>* db (run_appends env es db)"
proof (induction es arbitrary: db)
  case (Cons e es)
  show ?case
  proof (cases "appendWorkspaceEvent env e db")
    case (Inr r)
    then obtain row db' where r: "appendWorkspaceEvent env e db = Inr (row, db')" by (cases r) simp
    then have "log_step env db db'" using log_step.append [where env = env and t = "clock_ms env"] by simp
    then show ?thesis using Cons [of db'] by (simp add: r converse_rtranclp_into_rtranclp)
  qed (simp add: Cons)
qed simp

lemma sample_log_reached: "(log_step replay_env)\<^sup>*\<^sup>* empty_log sample_log" "(log_step replay_env)\<^sup>*\<^sup>* empty_log emptied_log"
proof -
  let ?db = "run_appends replay_env [sample_event, sample_event, sample_event] empty_log"
  have "log_step replay_env ?db (snd (pruneWorkspaceEventsBefore replay_env ''w1'' before 200 ?db))" for before
    by (rule log_step.prune [of _ "''w1''" before 200 _ "fst (pruneWorkspaceEventsBefore replay_env ''w1'' before 200 ?db)"]) simp
  with run_appends_steps have "(log_step replay_env)\<^sup>*\<^sup>* empty_log (snd (pruneWorkspaceEventsBefore replay_env ''w1'' before 200 ?db))" for before
    by (rule rtranclp.rtrancl_into_rtrancl)
  then show "(log_step replay_env)\<^sup>*\<^sup>* empty_log sample_log" "(log_step replay_env)\<^sup>*\<^sup>* empty_log emptied_log"
    by (simp_all only: sample_log_def emptied_log_def)
qed

lemma replay_env_ids: "inj (new_id replay_env)"
  by (rule injI) (simp add: replay_env_def replicate_eq_replicate)

theorem replay_iff_retained_witness:
  "decideReplay (Some 0) (workspaceEventWindow replay_env sample_log ''w1'') = Resync Cursor_behind_retained_window
   \<and> decideReplay (Some 3) (workspaceEventWindow replay_env emptied_log ''w1'') = Resync Cursor_ahead_of_head
   \<and> last_sequence ''w1'' (sequence_rows emptied_log) = 3"
proof -
  have "events_of (uuid_in replay_env ''w1'') sample_log \<noteq> []" by code_simp
  moreover have "1 \<notin> ev_workspaceSequence ` set (events_of (uuid_in replay_env ''w1'') sample_log)" by code_simp
  moreover have "last_sequence (uuid_in replay_env ''w1'') (sequence_rows sample_log) = 3" by code_simp
  moreover have "events_of (uuid_in replay_env ''w1'') emptied_log = []" by code_simp
  moreover have "last_sequence ''w1'' (sequence_rows emptied_log) = 3" by code_simp
  ultimately show ?thesis using replay_iff_retained [OF replay_env_ids sample_log_reached(1), of 0 "''w1''"]
      replay_iff_retained [OF replay_env_ids sample_log_reached(2), of 3 "''w1''"] by (auto simp: subset_iff)
qed

end
