(* ===== verification/Event_Visibility.thy ===== *)
theory Event_Visibility
  imports Event_Replay Project_Access
begin

text \<open>
  What of the shared event log reaches one subscriber: \<open>classifyWorkspaceEventsForUser\<close> of
  \<^verbatim>\<open>packages/db/src/event-visibility.ts\<close>. The rows its five queries read are tables; the three authorization
  conditions computed by other modules are arguments: whether the user can read a channel
  (\<open>userChannelVisibility\<close>), whether the history window of a group shows a message, and whether a message
  survives \<open>filterVisibleMessageRows\<close>. Payload fields are read by their own spelling.
\<close>

section \<open>Tables and lookups\<close>

record message_row =
  mg_id :: string
  mg_workspaceId :: string
  mg_channelId :: string

record task_row =
  tk_id :: string
  tk_workspaceId :: string
  tk_projectId :: "string option"

record artifact_row =
  af_id :: string
  af_workspaceId :: string
  af_taskId :: "string option"

record content_row =
  cr_id :: string
  cr_workspaceId :: string
  cr_taskId :: "string option"
  cr_messageId :: "string option"

record related_tables =
  message_rows :: "message_row list"
  task_rows :: "task_row list"
  artifact_rows :: "artifact_row list"
  content_rows :: "content_row list"

record read_checks =
  reads_channel :: "string \<Rightarrow> bool"
  reads_history :: "string \<Rightarrow> bool"
  reads_message :: "string \<Rightarrow> bool"

datatype event_delivery =
    Deliver event_view
  | Redacted event_view
  | Audience_changed nat
  | Withheld nat

definition ACCESS_CHANGE_EVENTS :: "string list" where
  "ACCESS_CHANGE_EVENTS = [''project.members_changed'', ''project.visibility_changed'', ''task.project_changed'']"

definition stringField :: "payload \<Rightarrow> string \<Rightarrow> string option" where
  "stringField p key = (case map_of p key of Some (Json_str s) \<Rightarrow> Some s | _ \<Rightarrow> None)"

definition family_of :: "string \<Rightarrow> string" where
  "family_of eventType = hd (split_on (CHR ''.'') eventType)"

record event_references =
  rf_channelIds :: "string list"
  rf_messageIds :: "string list"
  rf_contentRefIds :: "string list"

definition references_of :: "event_view \<Rightarrow> string list \<Rightarrow> string \<Rightarrow> string list" where
  "references_of event keys aggregateType =
     (let ids = filter (\<lambda>i. i \<noteq> []) (List.map_filter (stringField (vw_payload event)) keys) in
      js_dedupe [] (ids @ (if vw_aggregateType event = aggregateType
        then (case vw_aggregateId event of Some i \<Rightarrow> if i = [] then [] else [i] | None \<Rightarrow> []) else [])))"

definition conversationReferences :: "event_view \<Rightarrow> event_references" where
  "conversationReferences event =
     \<lparr>rf_channelIds = references_of event [''channelId''] ''channel'',
      rf_messageIds = references_of event [''messageId'', ''threadRootMessageId'', ''replyToMessageId''] ''message'',
      rf_contentRefIds = references_of event [''contentRefId''] ''content_ref''\<rparr>"

text \<open>A nonempty string field, as \<open>if (id)\<close> tests it.\<close>

definition named :: "payload \<Rightarrow> string \<Rightarrow> string list" where
  "named p key = (case stringField p key of Some i \<Rightarrow> if i = [] then [] else [i] | None \<Rightarrow> [])"

definition artifact_named :: "event_view \<Rightarrow> string list" where
  "artifact_named event = (if family_of (vw_eventType event) = ''artifact'' then named (vw_payload event) ''artifactId'' else [])"

text \<open>The rows of the five queries. A row is found by its id among the ids named on the page, read as uuids.\<close>

definition asked :: "db_env \<Rightarrow> string list \<Rightarrow> string \<Rightarrow> bool" where
  "asked env ids i \<longleftrightarrow> i \<in> set (map (uuid_in env) ids)"

definition channel_in :: "db_env \<Rightarrow> product_db \<Rightarrow> string \<Rightarrow> string \<Rightarrow> channel_row option" where
  "channel_in env db ws cid = find (\<lambda>c. ch_id c = cid \<and> ch_workspaceId c = uuid_in env ws) (channel_rows db)"

definition task_in :: "db_env \<Rightarrow> related_tables \<Rightarrow> string \<Rightarrow> string \<Rightarrow> task_row option" where
  "task_in env rel ws tid = find (\<lambda>t. tk_id t = tid \<and> tk_workspaceId t = uuid_in env ws) (task_rows rel)"

definition message_in :: "db_env \<Rightarrow> related_tables \<Rightarrow> string \<Rightarrow> string \<Rightarrow> message_row option" where
  "message_in env rel ws mid = find (\<lambda>m. mg_id m = mid \<and> mg_workspaceId m = uuid_in env ws) (message_rows rel)"

record channel_fact = chf_id :: string chf_projectId :: "string option" chf_canRead :: bool
record message_fact = mf_id :: string mf_projectId :: "string option" mf_canRead :: bool mf_historyVisible :: bool
record project_fact = pf_id :: string pf_projectId :: "string option"
record content_fact =
  xf_id :: string
  xf_taskProjectId :: "string option"
  xf_channelProjectId :: "string option"
  xf_contentRefMessageId :: "string option"
  xf_messageId :: "string option"
  xf_canRead :: bool
  xf_historyVisible :: bool

definition channelRows :: "db_env \<Rightarrow> read_checks \<Rightarrow> product_db \<Rightarrow> string \<Rightarrow> string list \<Rightarrow> channel_fact list" where
  "channelRows env ck db ws ids =
     map (\<lambda>c. \<lparr>chf_id = ch_id c, chf_projectId = ch_projectId c, chf_canRead = reads_channel ck (ch_id c)\<rparr>)
       (filter (\<lambda>c. ch_workspaceId c = uuid_in env ws \<and> asked env ids (ch_id c)) (channel_rows db))"

text \<open>An inner join with the channel of the message.\<close>

definition messageRows :: "db_env \<Rightarrow> read_checks \<Rightarrow> product_db \<Rightarrow> related_tables \<Rightarrow> string \<Rightarrow> string list \<Rightarrow> message_fact list" where
  "messageRows env ck db rel ws ids =
     List.map_filter (\<lambda>m. map_option (\<lambda>c. \<lparr>mf_id = mg_id m, mf_projectId = ch_projectId c,
         mf_canRead = reads_channel ck (ch_id c), mf_historyVisible = reads_history ck (mg_id m)\<rparr>)
         (channel_in env db ws (mg_channelId m)))
       (filter (\<lambda>m. mg_workspaceId m = uuid_in env ws \<and> asked env ids (mg_id m)) (message_rows rel))"

definition taskRows :: "db_env \<Rightarrow> related_tables \<Rightarrow> string \<Rightarrow> string list \<Rightarrow> project_fact list" where
  "taskRows env rel ws ids =
     map (\<lambda>t. \<lparr>pf_id = tk_id t, pf_projectId = tk_projectId t\<rparr>)
       (filter (\<lambda>t. tk_workspaceId t = uuid_in env ws \<and> asked env ids (tk_id t)) (task_rows rel))"

text \<open>The left join with tasks here does not mention the workspace.\<close>

definition artifactRows :: "db_env \<Rightarrow> related_tables \<Rightarrow> string \<Rightarrow> string list \<Rightarrow> project_fact list" where
  "artifactRows env rel ws ids =
     map (\<lambda>a. \<lparr>pf_id = af_id a, pf_projectId =
         (case af_taskId a of None \<Rightarrow> None
          | Some tid \<Rightarrow> Option.bind (find (\<lambda>t. tk_id t = tid) (task_rows rel)) tk_projectId)\<rparr>)
       (filter (\<lambda>a. af_workspaceId a = uuid_in env ws \<and> asked env ids (af_id a)) (artifact_rows rel))"

definition contentRows :: "db_env \<Rightarrow> read_checks \<Rightarrow> product_db \<Rightarrow> related_tables \<Rightarrow> string \<Rightarrow> string list \<Rightarrow> content_fact list" where
  "contentRows env ck db rel ws ids =
     map (\<lambda>x. let t = Option.bind (cr_taskId x) (task_in env rel ws);
                  m = Option.bind (cr_messageId x) (message_in env rel ws);
                  c = Option.bind m (\<lambda>m. channel_in env db ws (mg_channelId m)) in
         \<lparr>xf_id = cr_id x, xf_taskProjectId = Option.bind t tk_projectId, xf_channelProjectId = Option.bind c ch_projectId,
          xf_contentRefMessageId = cr_messageId x, xf_messageId = map_option mg_id m,
          xf_canRead = (case c of None \<Rightarrow> False | Some c \<Rightarrow> reads_channel ck (ch_id c)),
          xf_historyVisible = (case (m, c) of (Some m, Some _) \<Rightarrow> reads_history ck (mg_id m) | _ \<Rightarrow> False)\<rparr>)
       (filter (\<lambda>x. cr_workspaceId x = uuid_in env ws \<and> asked env ids (cr_id x)) (content_rows rel))"

section \<open>Classification\<close>

text \<open>What the page names, the hidden projects and the maps built from the rows (the last row of an id wins).\<close>

record page_facts =
  pg_hidden :: "string list"
  pg_channels :: "channel_fact list"
  pg_messages :: "message_fact list"
  pg_tasks :: "project_fact list"
  pg_artifacts :: "project_fact list"
  pg_contents :: "content_fact list"

definition last_with :: "('a \<Rightarrow> string) \<Rightarrow> 'a list \<Rightarrow> string \<Rightarrow> 'a option" where
  "last_with key rows i = find (\<lambda>r. key r = i) (rev rows)"

definition page_facts_of :: "db_env \<Rightarrow> read_checks \<Rightarrow> product_db \<Rightarrow> related_tables \<Rightarrow> string \<Rightarrow> access_scope \<Rightarrow> event_view list \<Rightarrow> page_facts" where
  "page_facts_of env ck db rel ws scope events =
     (let hidden = sc_hiddenProjectIds scope; refs = map conversationReferences events;
          cids = js_dedupe [] (concat (map rf_channelIds refs)); mids = js_dedupe [] (concat (map rf_messageIds refs));
          xids = js_dedupe [] (concat (map rf_contentRefIds refs));
          tids = js_dedupe [] (concat (map (\<lambda>e. named (vw_payload e) ''taskId'') events));
          aids = js_dedupe [] (concat (map artifact_named events)) in
      \<lparr>pg_hidden = hidden,
       pg_channels = (if cids = [] then [] else channelRows env ck db ws cids),
       pg_messages = (if mids = [] then [] else messageRows env ck db rel ws mids),
       pg_tasks = (if hidden = [] \<or> tids = [] then [] else taskRows env rel ws tids),
       pg_artifacts = (if hidden = [] \<or> aids = [] then [] else artifactRows env rel ws aids),
       pg_contents = (if xids = [] then [] else contentRows env ck db rel ws xids)\<rparr>)"

definition readableChannel :: "page_facts \<Rightarrow> string \<Rightarrow> bool option" where
  "readableChannel pg i = map_option chf_canRead (last_with chf_id (pg_channels pg) i)"

definition readableMessage :: "read_checks \<Rightarrow> page_facts \<Rightarrow> string \<Rightarrow> bool" where
  "readableMessage ck pg i = (case last_with mf_id (pg_messages pg) i of
     None \<Rightarrow> False | Some r \<Rightarrow> mf_canRead r \<and> mf_historyVisible r \<and> reads_message ck (mf_id r))"

definition readableContent :: "read_checks \<Rightarrow> page_facts \<Rightarrow> string \<Rightarrow> bool" where
  "readableContent ck pg i = (case last_with xf_id (pg_contents pg) i of
     None \<Rightarrow> False
   | Some r \<Rightarrow> xf_contentRefMessageId r = None
       \<or> (case xf_messageId r of None \<Rightarrow> False | Some m \<Rightarrow> xf_canRead r \<and> xf_historyVisible r \<and> reads_message ck m))"

definition unreadable :: "read_checks \<Rightarrow> page_facts \<Rightarrow> event_view \<Rightarrow> bool" where
  "unreadable ck pg event =
     (let refs = conversationReferences event in
      (vw_aggregateType event = ''channel'' \<and> rf_channelIds refs = [])
      \<or> (vw_aggregateType event = ''message'' \<and> rf_messageIds refs = [])
      \<or> (vw_aggregateType event = ''content_ref'' \<and> rf_contentRefIds refs = [])
      \<or> list_ex (\<lambda>i. readableChannel pg i \<noteq> Some True) (rf_channelIds refs)
      \<or> list_ex (\<lambda>i. \<not> readableMessage ck pg i) (rf_messageIds refs)
      \<or> list_ex (\<lambda>i. \<not> readableContent ck pg i) (rf_contentRefIds refs))"

text \<open>A channel that was open to the workspace became private.\<close>

definition audience_narrowed :: "page_facts \<Rightarrow> event_view \<Rightarrow> bool" where
  "audience_narrowed pg event =
     (let refs = conversationReferences event in
      case rf_channelIds refs of
        [cid] \<Rightarrow>
          vw_eventType event = ''channel.updated'' \<and> vw_schemaVersion event = 2
          \<and> stringField (vw_payload event) ''previousVisibility'' = Some ''workspace''
          \<and> stringField (vw_payload event) ''visibility'' = Some ''participants''
          \<and> vw_aggregateType event = ''channel'' \<and> vw_aggregateId event = Some cid
          \<and> rf_messageIds refs = [] \<and> rf_contentRefIds refs = []
          \<and> readableChannel pg cid = Some False
          \<and> (case last_with chf_id (pg_channels pg) cid of
               None \<Rightarrow> False | Some r \<Rightarrow> (case chf_projectId r of None \<Rightarrow> [] | Some p \<Rightarrow> p) \<notin> set (pg_hidden pg))
      | _ \<Rightarrow> False)"

definition touched_projects :: "page_facts \<Rightarrow> event_view \<Rightarrow> string option list" where
  "touched_projects pg event =
     (let refs = conversationReferences event in
      [stringField (vw_payload event) ''projectId'']
      @ (if vw_aggregateType event = ''project'' then [vw_aggregateId event] else [])
      @ map (\<lambda>i. Option.bind (last_with chf_id (pg_channels pg) i) chf_projectId) (rf_channelIds refs)
      @ map (\<lambda>i. Option.bind (last_with mf_id (pg_messages pg) i) mf_projectId) (rf_messageIds refs)
      @ map (\<lambda>i. Option.bind (last_with pf_id (pg_tasks pg) i) pf_projectId) (named (vw_payload event) ''taskId'')
      @ map (\<lambda>i. Option.bind (last_with pf_id (pg_artifacts pg) i) pf_projectId) (artifact_named event)
      @ concat (map (\<lambda>i. case last_with xf_id (pg_contents pg) i of None \<Rightarrow> []
           | Some r \<Rightarrow> [xf_taskProjectId r, xf_channelProjectId r]) (rf_contentRefIds refs)))"

definition hides :: "page_facts \<Rightarrow> string option \<Rightarrow> bool" where
  "hides pg p \<longleftrightarrow> (case p of None \<Rightarrow> False | Some i \<Rightarrow> i \<noteq> [] \<and> i \<in> set (pg_hidden pg))"

definition visible_entry :: "page_facts \<Rightarrow> json \<Rightarrow> bool" where
  "visible_entry pg v = (case v of Json_str i \<Rightarrow> i \<notin> set (pg_hidden pg) | _ \<Rightarrow> True)"

text \<open>\<open>{...payload, projectIds}\<close> replaces the value in its place.\<close>

definition narrow_reordered :: "(json \<Rightarrow> bool) \<Rightarrow> json list \<Rightarrow> event_view \<Rightarrow> event_view" where
  "narrow_reordered keep ids event =
     event\<lparr>vw_payload := map (\<lambda>(k, v). if k = ''projectIds'' then (k, Json_arr (filter keep ids)) else (k, v))
       (vw_payload event)\<rparr>"

definition redact :: "event_view \<Rightarrow> event_view" where
  "redact event = event\<lparr>vw_actor := None, vw_aggregateId := None, vw_correlationId := None, vw_payload := []\<rparr>"

definition reordered_ids :: "event_view \<Rightarrow> json list option" where
  "reordered_ids event =
     (if vw_eventType event = ''project.reordered''
      then (case map_of (vw_payload event) ''projectIds'' of Some (Json_arr vs) \<Rightarrow> Some vs | _ \<Rightarrow> None) else None)"

definition classify_event :: "read_checks \<Rightarrow> page_facts \<Rightarrow> event_view \<Rightarrow> event_delivery" where
  "classify_event ck pg event =
     (if unreadable ck pg event then
        (if audience_narrowed pg event then Audience_changed (vw_workspaceSequence event) else Withheld (vw_workspaceSequence event))
      else (case reordered_ids event of
        Some ids \<Rightarrow> Deliver (narrow_reordered (visible_entry pg) ids event)
      | None \<Rightarrow>
          if \<not> list_ex (hides pg) (touched_projects pg event) then Deliver event
          else if vw_eventType event \<in> set ACCESS_CHANGE_EVENTS \<or> family_of (vw_eventType event) = ''agent'' then Redacted (redact event)
          else Withheld (vw_workspaceSequence event)))"

definition classifyWorkspaceEventsForUser ::
  "db_env \<Rightarrow> read_checks \<Rightarrow> product_db \<Rightarrow> related_tables \<Rightarrow> string \<Rightarrow> string \<Rightarrow> event_view list \<Rightarrow> event_delivery list option" where
  "classifyWorkspaceEventsForUser env ck db rel workspaceId userId events =
     (case resolveProjectAccessScope env db workspaceId userId of
        None \<Rightarrow> None
      | Some scope \<Rightarrow>
          if events = [] then Some []
          else Some (map (classify_event ck (page_facts_of env ck db rel workspaceId scope events)) events))"

fun delivery_sequence :: "event_delivery \<Rightarrow> nat" where
  "delivery_sequence (Deliver e) = vw_workspaceSequence e"
| "delivery_sequence (Redacted e) = vw_workspaceSequence e"
| "delivery_sequence (Audience_changed n) = n"
| "delivery_sequence (Withheld n) = n"

lemma classify_sequence: "delivery_sequence (classify_event ck pg event) = vw_workspaceSequence event"
  by (simp add: classify_event_def narrow_reordered_def redact_def split: option.splits)

section \<open>Reference: what an event concerns and who may see it\<close>

definition artifact_in :: "db_env \<Rightarrow> related_tables \<Rightarrow> string \<Rightarrow> string \<Rightarrow> artifact_row option" where
  "artifact_in env rel ws i = find (\<lambda>a. af_id a = i \<and> af_workspaceId a = uuid_in env ws) (artifact_rows rel)"

definition content_in :: "db_env \<Rightarrow> related_tables \<Rightarrow> string \<Rightarrow> string \<Rightarrow> content_row option" where
  "content_in env rel ws i = find (\<lambda>x. cr_id x = i \<and> cr_workspaceId x = uuid_in env ws) (content_rows rel)"

definition project_of_channel :: "db_env \<Rightarrow> product_db \<Rightarrow> string \<Rightarrow> string \<Rightarrow> string option" where
  "project_of_channel env db ws cid = Option.bind (channel_in env db ws cid) ch_projectId"

definition project_of_message :: "db_env \<Rightarrow> product_db \<Rightarrow> related_tables \<Rightarrow> string \<Rightarrow> string \<Rightarrow> string option" where
  "project_of_message env db rel ws mid =
     Option.bind (message_in env rel ws mid) (\<lambda>m. project_of_channel env db ws (mg_channelId m))"

definition project_links :: "db_env \<Rightarrow> product_db \<Rightarrow> related_tables \<Rightarrow> string \<Rightarrow> event_view \<Rightarrow> string option list" where
  "project_links env db rel ws event =
     (let refs = conversationReferences event in
      [stringField (vw_payload event) ''projectId'']
      @ (if vw_aggregateType event = ''project'' then [vw_aggregateId event] else [])
      @ map (project_of_channel env db ws) (rf_channelIds refs)
      @ map (project_of_message env db rel ws) (rf_messageIds refs)
      @ map (\<lambda>i. Option.bind (task_in env rel ws i) tk_projectId) (named (vw_payload event) ''taskId'')
      @ map (\<lambda>i. Option.bind (Option.bind (artifact_in env rel ws i) af_taskId)
               (\<lambda>tid. Option.bind (find (\<lambda>t. tk_id t = tid) (task_rows rel)) tk_projectId)) (artifact_named event)
      @ concat (map (\<lambda>i. case content_in env rel ws i of None \<Rightarrow> []
           | Some x \<Rightarrow> [Option.bind (Option.bind (cr_taskId x) (task_in env rel ws)) tk_projectId,
                        Option.bind (cr_messageId x) (project_of_message env db rel ws)]) (rf_contentRefIds refs)))"

definition reads_posted :: "db_env \<Rightarrow> read_checks \<Rightarrow> product_db \<Rightarrow> related_tables \<Rightarrow> string \<Rightarrow> string \<Rightarrow> bool" where
  "reads_posted env ck db rel ws mid =
     (case message_in env rel ws mid of
        None \<Rightarrow> False
      | Some m \<Rightarrow> (case channel_in env db ws (mg_channelId m) of
            None \<Rightarrow> False | Some c \<Rightarrow> reads_channel ck (ch_id c) \<and> reads_history ck (mg_id m) \<and> reads_message ck (mg_id m)))"

text \<open>Every channel, message and content the event names exists and is readable, and an event about one names one.\<close>

definition audience_ok :: "db_env \<Rightarrow> read_checks \<Rightarrow> product_db \<Rightarrow> related_tables \<Rightarrow> string \<Rightarrow> event_view \<Rightarrow> bool" where
  "audience_ok env ck db rel ws event =
     (let refs = conversationReferences event in
      (vw_aggregateType event = ''channel'' \<longrightarrow> rf_channelIds refs \<noteq> [])
      \<and> (vw_aggregateType event = ''message'' \<longrightarrow> rf_messageIds refs \<noteq> [])
      \<and> (vw_aggregateType event = ''content_ref'' \<longrightarrow> rf_contentRefIds refs \<noteq> [])
      \<and> list_all (\<lambda>i. case channel_in env db ws i of None \<Rightarrow> False | Some c \<Rightarrow> reads_channel ck (ch_id c)) (rf_channelIds refs)
      \<and> list_all (reads_posted env ck db rel ws) (rf_messageIds refs)
      \<and> list_all (\<lambda>i. case content_in env rel ws i of None \<Rightarrow> False
           | Some x \<Rightarrow> (case cr_messageId x of None \<Rightarrow> True | Some m \<Rightarrow> reads_posted env ck db rel ws m)) (rf_contentRefIds refs))"

definition concealed_id :: "db_env \<Rightarrow> product_db \<Rightarrow> string \<Rightarrow> string \<Rightarrow> string \<Rightarrow> bool" where
  "concealed_id env db ws user pid =
     list_ex (\<lambda>p. pj_id p = pid \<and> pj_workspaceId p = uuid_in env ws \<and> \<not> may_see db (uuid_in env ws) user p) (project_rows db)"

definition concealed :: "db_env \<Rightarrow> product_db \<Rightarrow> related_tables \<Rightarrow> string \<Rightarrow> string \<Rightarrow> event_view \<Rightarrow> bool" where
  "concealed env db rel ws user event =
     list_ex (\<lambda>l. case l of None \<Rightarrow> False | Some pid \<Rightarrow> concealed_id env db ws user pid) (project_links env db rel ws event)"

definition related_ok :: "db_env \<Rightarrow> product_db \<Rightarrow> related_tables \<Rightarrow> bool" where
  "related_ok env db rel \<longleftrightarrow>
     distinct (map mg_id (message_rows rel)) \<and> distinct (map tk_id (task_rows rel))
     \<and> distinct (map af_id (artifact_rows rel)) \<and> distinct (map cr_id (content_rows rel))
     \<and> list_all (\<lambda>i. uuid_in env i = i) (map ch_id (channel_rows db) @ map mg_id (message_rows rel) @ map tk_id (task_rows rel)
          @ map af_id (artifact_rows rel) @ map cr_id (content_rows rel))"

section \<open>The maps built for a page are lookups in the tables\<close>

lemma find_filter: "find Q (filter P xs) = find (\<lambda>x. P x \<and> Q x) xs"
  by (induction xs) auto

lemma find_map: "find Q (map f xs) = map_option f (find (\<lambda>x. Q (f x)) xs)"
  by (induction xs) auto

lemma find_cong_set: "(\<And>x. x \<in> set xs \<Longrightarrow> P x = Q x) \<Longrightarrow> find P xs = find Q xs"
  by (induction xs) auto

lemma last_with_unique:
  assumes "distinct (map key xs)"
  shows "last_with key xs i = find (\<lambda>r. key r = i) xs"
proof (cases "find (\<lambda>r. key r = i) xs")
  case None
  then have "find (\<lambda>r. key r = i) (rev xs) = None" by (simp add: find_None_iff)
  with None show ?thesis by (simp add: last_with_def)
next
  case (Some r)
  then have r: "r \<in> set (rev xs)" "key r = i" using find_Some_mem [OF Some] by auto
  have "find (\<lambda>r. key r = i) (rev xs) = Some r"
    by (rule find_unique [of key]) (use assms r in \<open>simp_all add: rev_map [symmetric]\<close>)
  then show ?thesis using Some by (simp add: last_with_def)
qed

text \<open>A row of a table, found among the rows asked for.\<close>

lemma asked_lookup:
  assumes "distinct (map key rows)" "i \<in> set ids" "list_all (\<lambda>j. uuid_in env j = j) (map key rows)" "\<And>r. P r \<Longrightarrow> key' (f r) = key r"
  shows "last_with key' (map f (filter (\<lambda>r. P r \<and> asked env ids (key r)) rows)) i = map_option f (find (\<lambda>r. key r = i \<and> P r) rows)"
proof -
  let ?rows = "filter (\<lambda>r. P r \<and> asked env ids (key r)) rows"
  have "map key' (map f ?rows) = map key ?rows" using assms(4) by simp
  then have "distinct (map key' (map f ?rows))" using assms(1) by (metis distinct_map_filter)
  then have "last_with key' (map f ?rows) i = find (\<lambda>r. key' r = i) (map f ?rows)" by (rule last_with_unique)
  also have "\<dots> = map_option f (find (\<lambda>r. (P r \<and> asked env ids (key r)) \<and> key r = i) rows)"
    unfolding find_map find_filter using assms(4) by (intro arg_cong [where f = "map_option f"] find_cong_set) auto
  also have "find (\<lambda>r. (P r \<and> asked env ids (key r)) \<and> key r = i) rows = find (\<lambda>r. key r = i \<and> P r) rows"
    by (rule find_cong_set) (use assms(2,3) in \<open>auto simp: asked_def list_all_iff intro: image_eqI [OF sym]\<close>)
  finally show ?thesis .
qed

lemma find_bind:
  assumes "distinct (map key rows)"
  shows "map_option (the \<circ> g) (find (\<lambda>r. key r = i \<and> P r \<and> g r \<noteq> None) rows) = Option.bind (find (\<lambda>r. key r = i \<and> P r) rows) g"
  using assms
proof (induction rows)
  case (Cons x rows)
  have "find (\<lambda>r. key r = i \<and> P r \<and> g r \<noteq> None) rows = None" if "key x = i"
    using Cons.prems that by (auto simp: find_None_iff) (metis image_eqI)
  with Cons show ?case by auto
qed simp

definition page_for :: "db_env \<Rightarrow> read_checks \<Rightarrow> product_db \<Rightarrow> related_tables \<Rightarrow> string \<Rightarrow> access_scope \<Rightarrow> event_view \<Rightarrow> page_facts \<Rightarrow> bool" where
  "page_for env ck db rel ws scope event pg \<longleftrightarrow> tables_ok env db \<and> related_ok env db rel
     \<and> (\<exists>events. event \<in> set events \<and> pg = page_facts_of env ck db rel ws scope events)"

lemma page_forE:
  assumes "page_for env ck db rel ws scope event pg"
  obtains events where "tables_ok env db" "related_ok env db rel" "event \<in> set events" "pg = page_facts_of env ck db rel ws scope events"
  using assms by (auto simp: page_for_def)

lemma pg_channel:
  assumes "page_for env ck db rel ws scope event pg" and "i \<in> set (rf_channelIds (conversationReferences event))"
  shows "last_with chf_id (pg_channels pg) i =
    map_option (\<lambda>c. \<lparr>chf_id = ch_id c, chf_projectId = ch_projectId c, chf_canRead = reads_channel ck (ch_id c)\<rparr>) (channel_in env db ws i)"
  using assms(1)
proof (rule page_forE)
  fix events
  assume ok: "tables_ok env db" "related_ok env db rel" and e: "event \<in> set events" and pg: "pg = page_facts_of env ck db rel ws scope events"
  let ?ids = "js_dedupe [] (concat (map rf_channelIds (map conversationReferences events)))"
  have i: "i \<in> set ?ids" using assms(2) e by (auto simp: set_js_dedupe)
  then have "pg_channels pg = channelRows env ck db ws ?ids" by (auto simp: pg page_facts_of_def Let_def)
  then show ?thesis unfolding channelRows_def channel_in_def
    by (simp only:) (rule asked_lookup [OF _ i], use ok in \<open>auto simp: tables_ok_def related_ok_def\<close>)
qed

definition message_fact_of :: "db_env \<Rightarrow> read_checks \<Rightarrow> product_db \<Rightarrow> string \<Rightarrow> message_row \<Rightarrow> message_fact option" where
  "message_fact_of env ck db ws m =
     map_option (\<lambda>c. \<lparr>mf_id = mg_id m, mf_projectId = ch_projectId c, mf_canRead = reads_channel ck (ch_id c),
       mf_historyVisible = reads_history ck (mg_id m)\<rparr>) (channel_in env db ws (mg_channelId m))"

lemma messageRows_alt:
  "messageRows env ck db rel ws ids =
     map (the \<circ> message_fact_of env ck db ws) (filter (\<lambda>m. (mg_workspaceId m = uuid_in env ws \<and> message_fact_of env ck db ws m \<noteq> None) \<and> asked env ids (mg_id m)) (message_rows rel))"
proof -
  have "messageRows env ck db rel ws ids = List.map_filter (message_fact_of env ck db ws)
      (filter (\<lambda>m. mg_workspaceId m = uuid_in env ws \<and> asked env ids (mg_id m)) (message_rows rel))"
    by (simp add: messageRows_def message_fact_of_def [abs_def])
  then show ?thesis by (simp add: map_filter_def conj_ac)
qed

lemma pg_message:
  assumes "page_for env ck db rel ws scope event pg" and "i \<in> set (rf_messageIds (conversationReferences event))"
  shows "last_with mf_id (pg_messages pg) i = Option.bind (message_in env rel ws i) (message_fact_of env ck db ws)"
  using assms(1)
proof (rule page_forE)
  fix events
  assume ok: "tables_ok env db" "related_ok env db rel" and e: "event \<in> set events" and pg: "pg = page_facts_of env ck db rel ws scope events"
  let ?ids = "js_dedupe [] (concat (map rf_messageIds (map conversationReferences events)))"
    and ?g = "message_fact_of env ck db ws"
  have d: "distinct (map mg_id (message_rows rel))" using ok by (simp add: related_ok_def)
  have i: "i \<in> set ?ids" using assms(2) e by (auto simp: set_js_dedupe)
  then have "pg_messages pg = messageRows env ck db rel ws ?ids" by (auto simp: pg page_facts_of_def Let_def)
  moreover have "last_with mf_id (map (the \<circ> ?g) (filter (\<lambda>m. (mg_workspaceId m = uuid_in env ws \<and> ?g m \<noteq> None) \<and> asked env ?ids (mg_id m)) (message_rows rel))) i
      = map_option (the \<circ> ?g) (find (\<lambda>m. mg_id m = i \<and> (mg_workspaceId m = uuid_in env ws \<and> ?g m \<noteq> None)) (message_rows rel))"
    by (rule asked_lookup [OF d i]) (use ok in \<open>auto simp: related_ok_def message_fact_of_def\<close>)
  ultimately show ?thesis using find_bind [OF d, of ?g i "\<lambda>m. mg_workspaceId m = uuid_in env ws"]
    by (simp only: messageRows_alt message_in_def)
qed

lemma pg_task:
  assumes "page_for env ck db rel ws scope event pg" and "i \<in> set (named (vw_payload event) ''taskId'')" and "pg_hidden pg \<noteq> []"
  shows "Option.bind (last_with pf_id (pg_tasks pg) i) pf_projectId = Option.bind (task_in env rel ws i) tk_projectId"
  using assms(1)
proof (rule page_forE)
  fix events
  assume ok: "tables_ok env db" "related_ok env db rel" and e: "event \<in> set events" and pg: "pg = page_facts_of env ck db rel ws scope events"
  let ?ids = "js_dedupe [] (concat (map (\<lambda>e. named (vw_payload e) ''taskId'') events))"
  have i: "i \<in> set ?ids" using assms(2) e by (auto simp: set_js_dedupe)
  then have "pg_tasks pg = taskRows env rel ws ?ids" using assms(3) by (auto simp: pg page_facts_of_def Let_def)
  moreover have "last_with pf_id (taskRows env rel ws ?ids) i = map_option (\<lambda>t. \<lparr>pf_id = tk_id t, pf_projectId = tk_projectId t\<rparr>) (task_in env rel ws i)"
    unfolding taskRows_def task_in_def by (rule asked_lookup [OF _ i]) (use ok in \<open>auto simp: related_ok_def\<close>)
  ultimately show ?thesis by (cases "task_in env rel ws i") auto
qed

lemma pg_artifact:
  assumes "page_for env ck db rel ws scope event pg" and "i \<in> set (artifact_named event)" and "pg_hidden pg \<noteq> []"
  shows "Option.bind (last_with pf_id (pg_artifacts pg) i) pf_projectId =
    Option.bind (Option.bind (artifact_in env rel ws i) af_taskId) (\<lambda>tid. Option.bind (find (\<lambda>t. tk_id t = tid) (task_rows rel)) tk_projectId)"
  using assms(1)
proof (rule page_forE)
  fix events
  assume ok: "tables_ok env db" "related_ok env db rel" and e: "event \<in> set events" and pg: "pg = page_facts_of env ck db rel ws scope events"
  let ?ids = "js_dedupe [] (concat (map artifact_named events))"
    and ?f = "\<lambda>a. \<lparr>pf_id = af_id a, pf_projectId = (case af_taskId a of None \<Rightarrow> None
          | Some tid \<Rightarrow> Option.bind (find (\<lambda>t. tk_id t = tid) (task_rows rel)) tk_projectId)\<rparr>"
  have i: "i \<in> set ?ids" using assms(2) e by (auto simp: set_js_dedupe)
  then have "pg_artifacts pg = artifactRows env rel ws ?ids" using assms(3) by (auto simp: pg page_facts_of_def Let_def)
  moreover have "last_with pf_id (artifactRows env rel ws ?ids) i = map_option ?f (artifact_in env rel ws i)"
    unfolding artifactRows_def artifact_in_def by (rule asked_lookup [OF _ i]) (use ok in \<open>auto simp: related_ok_def\<close>)
  ultimately show ?thesis by (cases "artifact_in env rel ws i") (auto split: option.splits)
qed

definition content_fact_of :: "db_env \<Rightarrow> read_checks \<Rightarrow> product_db \<Rightarrow> related_tables \<Rightarrow> string \<Rightarrow> content_row \<Rightarrow> content_fact" where
  "content_fact_of env ck db rel ws x =
     (let t = Option.bind (cr_taskId x) (task_in env rel ws);
          m = Option.bind (cr_messageId x) (message_in env rel ws);
          c = Option.bind m (\<lambda>m. channel_in env db ws (mg_channelId m)) in
      \<lparr>xf_id = cr_id x, xf_taskProjectId = Option.bind t tk_projectId, xf_channelProjectId = Option.bind c ch_projectId,
       xf_contentRefMessageId = cr_messageId x, xf_messageId = map_option mg_id m,
       xf_canRead = (case c of None \<Rightarrow> False | Some c \<Rightarrow> reads_channel ck (ch_id c)),
       xf_historyVisible = (case (m, c) of (Some m, Some _) \<Rightarrow> reads_history ck (mg_id m) | _ \<Rightarrow> False)\<rparr>)"

lemma pg_content:
  assumes "page_for env ck db rel ws scope event pg" and "i \<in> set (rf_contentRefIds (conversationReferences event))"
  shows "last_with xf_id (pg_contents pg) i = map_option (content_fact_of env ck db rel ws) (content_in env rel ws i)"
  using assms(1)
proof (rule page_forE)
  fix events
  assume ok: "tables_ok env db" "related_ok env db rel" and e: "event \<in> set events" and pg: "pg = page_facts_of env ck db rel ws scope events"
  let ?ids = "js_dedupe [] (concat (map rf_contentRefIds (map conversationReferences events)))"
  have i: "i \<in> set ?ids" using assms(2) e by (auto simp: set_js_dedupe)
  then have "pg_contents pg = contentRows env ck db rel ws ?ids" by (auto simp: pg page_facts_of_def Let_def)
  then show ?thesis unfolding contentRows_def content_in_def content_fact_of_def [symmetric]
    by (simp only:) (rule asked_lookup [OF _ i], use ok in \<open>auto simp: related_ok_def content_fact_of_def Let_def\<close>)
qed

section \<open>The classification is the reference\<close>

lemma unreadable_iff:
  assumes "page_for env ck db rel ws scope event pg"
  shows "unreadable ck pg event \<longleftrightarrow> \<not> audience_ok env ck db rel ws event"
proof -
  let ?refs = "conversationReferences event"
  have c: "readableChannel pg i \<noteq> Some True \<longleftrightarrow> \<not> (case channel_in env db ws i of None \<Rightarrow> False | Some c \<Rightarrow> reads_channel ck (ch_id c))"
    if "i \<in> set (rf_channelIds ?refs)" for i
    unfolding readableChannel_def pg_channel [OF assms that] by (auto split: option.splits)
  have m: "readableMessage ck pg i \<longleftrightarrow> reads_posted env ck db rel ws i" if "i \<in> set (rf_messageIds ?refs)" for i
    unfolding readableMessage_def pg_message [OF assms that] reads_posted_def message_fact_of_def by (auto split: option.splits)
  have x: "readableContent ck pg i \<longleftrightarrow> (case content_in env rel ws i of None \<Rightarrow> False
      | Some x \<Rightarrow> (case cr_messageId x of None \<Rightarrow> True | Some m \<Rightarrow> reads_posted env ck db rel ws m))" if "i \<in> set (rf_contentRefIds ?refs)" for i
    unfolding readableContent_def pg_content [OF assms that] reads_posted_def content_fact_of_def
    by (auto simp: Let_def split: option.splits)
  show ?thesis unfolding unreadable_def audience_ok_def Let_def list_ex_iff list_all_iff using c m x by blast
qed

lemma touched_links:
  assumes "page_for env ck db rel ws scope event pg" and "pg_hidden pg \<noteq> []"
  shows "touched_projects pg event = project_links env db rel ws event"
proof -
  let ?refs = "conversationReferences event"
  note look = pg_channel [OF assms(1)] pg_message [OF assms(1)] pg_content [OF assms(1)]
  have c: "Option.bind (last_with chf_id (pg_channels pg) i) chf_projectId = project_of_channel env db ws i" if "i \<in> set (rf_channelIds ?refs)" for i
    by (simp add: look(1) [OF that] project_of_channel_def bind_map_option comp_def)
  have m: "Option.bind (last_with mf_id (pg_messages pg) i) mf_projectId = project_of_message env db rel ws i" if "i \<in> set (rf_messageIds ?refs)" for i
    by (simp add: look(2) [OF that] project_of_message_def project_of_channel_def message_fact_of_def bind_map_option comp_def)
  have x: "(case last_with xf_id (pg_contents pg) i of None \<Rightarrow> [] | Some r \<Rightarrow> [xf_taskProjectId r, xf_channelProjectId r])
      = (case content_in env rel ws i of None \<Rightarrow> []
         | Some x \<Rightarrow> [Option.bind (Option.bind (cr_taskId x) (task_in env rel ws)) tk_projectId,
             Option.bind (cr_messageId x) (project_of_message env db rel ws)])" if "i \<in> set (rf_contentRefIds ?refs)" for i
    by (auto simp: look(3) [OF that] content_fact_of_def project_of_message_def [abs_def] project_of_channel_def Let_def split: option.splits)
  show ?thesis unfolding touched_projects_def project_links_def Let_def
    by (simp add: c m x pg_task [OF assms(1) _ assms(2)] pg_artifact [OF assms(1) _ assms(2)] cong: map_cong)
qed

lemma hidden_concealed:
  assumes "tables_ok env db" and "uuid_in env user = user" and "resolveProjectAccessScope env db ws user = Some scope"
  shows "i \<in> set (sc_hiddenProjectIds scope) \<longleftrightarrow> concealed_id env db ws user i"
proof -
  have row: "i \<in> set (sc_hiddenProjectIds scope) \<longleftrightarrow> \<not> may_see db (uuid_in env ws) user p"
    if "p \<in> set (project_rows db)" "pj_workspaceId p = uuid_in env ws" "pj_id p = i" for p
    using scope_may_see(1) [OF assms(1,2) that(1,2) assms(3)] that(1,3) assms(1) by (auto simp: canReadProject_def tables_ok_def)
  obtain m where sc: "scope = scope_of (scope_join env db ws [user]) m" using resolve_scope_iff(1) [OF assms(2,3)] by blast
  have "i \<in> members_only_ids env db ws" if "i \<in> set (sc_hiddenProjectIds scope)"
    using that scope_join_fst [of env db ws "[user]"] by (auto simp: sc scope_of_def Let_def set_js_dedupe split: if_splits)
  then show ?thesis using row by (auto simp: concealed_id_def list_ex_iff members_only_ids_def)
qed

text \<open>The delivery of one event, from the tables.\<close>

definition became_private :: "db_env \<Rightarrow> read_checks \<Rightarrow> product_db \<Rightarrow> string \<Rightarrow> string \<Rightarrow> event_view \<Rightarrow> bool" where
  "became_private env ck db ws user e \<longleftrightarrow>
     (let refs = conversationReferences e in
      case rf_channelIds refs of
        [cid] \<Rightarrow>
          vw_eventType e = ''channel.updated'' \<and> vw_schemaVersion e = 2
          \<and> stringField (vw_payload e) ''previousVisibility'' = Some ''workspace''
          \<and> stringField (vw_payload e) ''visibility'' = Some ''participants''
          \<and> vw_aggregateType e = ''channel'' \<and> vw_aggregateId e = Some cid
          \<and> rf_messageIds refs = [] \<and> rf_contentRefIds refs = []
          \<and> (case channel_in env db ws cid of None \<Rightarrow> False
              | Some c \<Rightarrow> \<not> reads_channel ck (ch_id c) \<and> (case ch_projectId c of None \<Rightarrow> True | Some p \<Rightarrow> \<not> concealed_id env db ws user p))
      | _ \<Rightarrow> False)"

definition seen_entry :: "db_env \<Rightarrow> product_db \<Rightarrow> string \<Rightarrow> string \<Rightarrow> json \<Rightarrow> bool" where
  "seen_entry env db ws user v = (case v of Json_str i \<Rightarrow> \<not> concealed_id env db ws user i | _ \<Rightarrow> True)"

definition reference_delivery :: "db_env \<Rightarrow> read_checks \<Rightarrow> product_db \<Rightarrow> related_tables \<Rightarrow> string \<Rightarrow> string \<Rightarrow> event_view \<Rightarrow> event_delivery" where
  "reference_delivery env ck db rel ws user e =
     (if \<not> audience_ok env ck db rel ws e then
        (if became_private env ck db ws user e then Audience_changed (vw_workspaceSequence e) else Withheld (vw_workspaceSequence e))
      else case reordered_ids e of
        Some ids \<Rightarrow> Deliver (narrow_reordered (seen_entry env db ws user) ids e)
      | None \<Rightarrow>
          if \<not> concealed env db rel ws user e then Deliver e
          else if vw_eventType e \<in> set ACCESS_CHANGE_EVENTS \<or> family_of (vw_eventType e) = ''agent'' then Redacted (redact e)
          else Withheld (vw_workspaceSequence e))"

lemma classify_event_reference:
  assumes "page_for env ck db rel ws scope e pg" and "uuid_in env user = user" and "resolveProjectAccessScope env db ws user = Some scope"
  shows "classify_event ck pg e = reference_delivery env ck db rel ws user e"
proof -
  have ok: "tables_ok env db" and hidden: "pg_hidden pg = sc_hiddenProjectIds scope"
    using assms(1) by (auto simp: page_for_def page_facts_of_def Let_def)
  have h: "i \<in> set (pg_hidden pg) \<longleftrightarrow> concealed_id env db ws user i" for i
    unfolding hidden by (rule hidden_concealed [OF ok assms(2,3)])
  have no_empty: "\<not> concealed_id env db ws user []" using ok by (auto simp: concealed_id_def list_ex_iff tables_ok_def)
  have hides: "hides pg l = (case l of None \<Rightarrow> False | Some pid \<Rightarrow> concealed_id env db ws user pid)" for l
    using no_empty by (auto simp: hides_def h split: option.split)
  have c: "list_ex (hides pg) (touched_projects pg e) = concealed env db rel ws user e"
  proof (cases "pg_hidden pg = []")
    case True
    then have "\<not> concealed_id env db ws user i" for i using h [of i] by simp
    then show ?thesis by (auto simp: concealed_def list_ex_iff hides split: option.splits)
  next
    case False
    then show ?thesis by (simp add: touched_links [OF assms(1)] concealed_def hides [abs_def])
  qed
  have entries: "visible_entry pg = seen_entry env db ws user"
    by (intro ext) (simp add: visible_entry_def seen_entry_def h split: json.split)
  have narrowed: "audience_narrowed pg e = became_private env ck db ws user e"
  proof (cases "rf_channelIds (conversationReferences e)")
    case (Cons cid rest)
    then have "last_with chf_id (pg_channels pg) cid = map_option (\<lambda>c. \<lparr>chf_id = ch_id c, chf_projectId = ch_projectId c,
        chf_canRead = reads_channel ck (ch_id c)\<rparr>) (channel_in env db ws cid)" by (intro pg_channel [OF assms(1)]) simp
    then show ?thesis using no_empty
      by (auto simp: audience_narrowed_def became_private_def readableChannel_def Let_def Cons h split: option.splits list.splits)
  qed (simp add: audience_narrowed_def became_private_def)
  show ?thesis by (simp only: classify_event_def reference_delivery_def unreadable_iff [OF assms(1)] c entries narrowed)
qed

lemma classify_page:
  assumes "tables_ok env db" and "related_ok env db rel" and "uuid_in env user = user"
  shows "classifyWorkspaceEventsForUser env ck db rel ws user events =
    (if role_in db (uuid_in env ws) user = None then None
     else Some (map (reference_delivery env ck db rel ws user) events))"
proof (cases "resolveProjectAccessScope env db ws user")
  case None
  then show ?thesis using scope_None_iff [OF assms(3), of db ws] by (simp add: classifyWorkspaceEventsForUser_def)
next
  case (Some scope)
  let ?pg = "page_facts_of env ck db rel ws scope events"
  have "classify_event ck ?pg e = reference_delivery env ck db rel ws user e" if "e \<in> set events" for e
    by (rule classify_event_reference [OF _ assms(3) Some]) (use assms(1,2) that in \<open>auto simp: page_for_def\<close>)
  then show ?thesis using Some scope_None_iff [OF assms(3), of db ws] by (auto simp: classifyWorkspaceEventsForUser_def)
qed

text \<open>C6: the page-wise classification with its batched lookups is, event by event, the reference: no
  answer for someone who is not a member, otherwise each event is delivered, narrowed, redacted, announced as
  a change of audience or withheld by what the tables say of the projects, channels, messages and
  contents it names and of who may see them.\<close>

theorem classification_exact:
  assumes "tables_ok env db" and "related_ok env db rel" and "uuid_in env user = user"
  shows "classifyWorkspaceEventsForUser env ck db rel ws user events =
    (if role_in db (uuid_in env ws) user = None then None
     else Some (map (reference_delivery env ck db rel ws user) events))"
  using assms by (rule classify_page)

text \<open>A change of the members-only project of the sample workspace, and a message in its channel.\<close>

definition sample_related :: related_tables where
  "sample_related = \<lparr>message_rows = [\<lparr>mg_id = ''m1'', mg_workspaceId = ''w1'', mg_channelId = ''c1''\<rparr>], task_rows = [], artifact_rows = [], content_rows = []\<rparr>"

definition sample_checks :: read_checks where
  "sample_checks = \<lparr>reads_channel = (\<lambda>_. True), reads_history = (\<lambda>_. True), reads_message = (\<lambda>_. True)\<rparr>"

definition sample_view :: event_view where
  "sample_view = \<lparr>vw_aggregateId = Some (pj_id sample_project), vw_aggregateType = ''project'', vw_actor = Some (Actor_user, ''u1''),
     vw_correlationId = None, vw_eventId = ''e1'', vw_eventType = ''project.updated'', vw_occurredAt = 5,
     vw_payload = [(''actorUserId'', Json_str ''u1''), (''projectId'', Json_str (pj_id sample_project))], vw_schemaVersion = 1, vw_workspaceSequence = 7\<rparr>"

lemma may_see_code [code]:
  "may_see db ws user p = (case role_in db ws user of None \<Rightarrow> False
     | Some r \<Rightarrow> pj_visibility p = Workspace_visible \<or> r = Owner \<or> r = Admin \<or> listed_as db (pj_id p) user \<noteq> None)"
  by (auto simp: may_see_def split: option.splits)

theorem classification_exact_witness:
  "classifyWorkspaceEventsForUser sample_env sample_checks sample_db sample_related ''w1'' ''u2''
     [sample_view, sample_view\<lparr>vw_eventType := ''project.members_changed'', vw_workspaceSequence := 8\<rparr>]
   = Some [Withheld 7, Redacted (redact (sample_view\<lparr>vw_eventType := ''project.members_changed'', vw_workspaceSequence := 8\<rparr>))]"
proof -
  have c: "related_ok sample_env sample_db sample_related" "uuid_in sample_env ''u2'' = ''u2''" by code_simp+
  have r: "role_in sample_db (uuid_in sample_env ''w1'') ''u2'' \<noteq> None" by code_simp
  have d: "reference_delivery sample_env sample_checks sample_db sample_related ''w1'' ''u2'' sample_view = Withheld 7"
    "reference_delivery sample_env sample_checks sample_db sample_related ''w1'' ''u2'' (sample_view\<lparr>vw_eventType := ''project.members_changed'', vw_workspaceSequence := 8\<rparr>)
     = Redacted (redact (sample_view\<lparr>vw_eventType := ''project.members_changed'', vw_workspaceSequence := 8\<rparr>))"
    by code_simp+
  show ?thesis using classification_exact [OF sample_tables_ok c, of sample_checks "''w1''"] r by (simp only: d list.map if_False simp_thms)
qed

end
