(* ===== verification/Event_Stream.thy ===== *)
theory Event_Stream
  imports Event_Visibility
begin

text \<open>
  The server side of the workspace event stream: the wire frames and decisions of
  \<^verbatim>\<open>apps/web/src/server/workspace-event-stream.ts\<close> and the producer of the route
  \<^verbatim>\<open>apps/web/src/start/routes/api/v1/workspaces/$workspaceId/events.ts\<close>. Every read of the producer sees a
  snapshot of the database given as input, so that other writers may act between any two reads; the
  clock readings and the answers of the re-authorization are inputs too. The subscriber can go away whenever
  the producer waits: \<open>pd_stop\<close> is the number of waits after which it is gone. \<open>Date.toISOString\<close> is the argument \<open>iso_text\<close>.
\<close>

section \<open>Frames\<close>

abbreviation LF :: char where "LF \<equiv> CHR 0x0A"

fun js_join :: "string \<Rightarrow> string list \<Rightarrow> string" where
  "js_join sep [] = []"
| "js_join sep [l] = l"
| "js_join sep (l # ls) = l @ sep @ js_join sep ls"

definition heartbeatFrame :: string where
  "heartbeatFrame = '': heartbeat'' @ [LF, LF]"

definition frame_of :: "string list \<Rightarrow> string" where
  "frame_of ls = js_join [LF] (ls @ [[], []])"

fun actor_kind_text :: "actor_kind \<Rightarrow> string" where
  "actor_kind_text Actor_user = ''user''"
| "actor_kind_text Actor_agent = ''agent''"
| "actor_kind_text Actor_system = ''system''"
| "actor_kind_text Actor_runtime_node = ''runtime_node''"

definition json_or_null :: "('a \<Rightarrow> json) \<Rightarrow> 'a option \<Rightarrow> json" where
  "json_or_null f v = (case v of None \<Rightarrow> Json_null | Some x \<Rightarrow> f x)"

definition event_envelope :: "(int \<Rightarrow> string) \<Rightarrow> event_view \<Rightarrow> (string \<times> json) list" where
  "event_envelope iso_text event =
     [(''aggregateId'', json_or_null Json_str (vw_aggregateId event)),
      (''aggregateType'', Json_str (vw_aggregateType event)),
      (''actor'', json_or_null (\<lambda>(kind, i). Json_obj [(''id'', Json_str i), (''kind'', Json_str (actor_kind_text kind))]) (vw_actor event)),
      (''eventId'', Json_str (vw_eventId event)),
      (''eventType'', Json_str (vw_eventType event)),
      (''occurredAt'', Json_str (iso_text (vw_occurredAt event))),
      (''payload'', Json_obj (vw_payload event)),
      (''schemaVersion'', Json_int (int (vw_schemaVersion event))),
      (''workspaceSequence'', Json_int (int (vw_workspaceSequence event)))]"

definition eventFrame :: "(int \<Rightarrow> string) \<Rightarrow> event_view \<Rightarrow> string \<Rightarrow> string" where
  "eventFrame iso_text event cursor =
     frame_of [''id: '' @ cursor, ''event: workspace.event'', ''data: '' @ stringify (Json_obj (event_envelope iso_text event))]"

definition withheldFrame :: "nat \<Rightarrow> string \<Rightarrow> string" where
  "withheldFrame workspaceSequence cursor =
     frame_of [''id: '' @ cursor, ''event: workspace.withheld'', ''data: '' @ stringify (Json_obj [(''workspaceSequence'', Json_int (int workspaceSequence))])]"

definition audienceFrame :: "nat \<Rightarrow> string \<Rightarrow> string" where
  "audienceFrame workspaceSequence cursor =
     frame_of [''id: '' @ cursor, ''event: workspace.audience_changed'', ''data: '' @ stringify (Json_obj [(''workspaceSequence'', Json_int (int workspaceSequence))])]"

fun deliveryFrame :: "(int \<Rightarrow> string) \<Rightarrow> event_delivery \<Rightarrow> string \<Rightarrow> string" where
  "deliveryFrame iso_text (Audience_changed n) cursor = audienceFrame n cursor"
| "deliveryFrame iso_text (Withheld n) cursor = withheldFrame n cursor"
| "deliveryFrame iso_text (Deliver event) cursor = eventFrame iso_text event cursor"
| "deliveryFrame iso_text (Redacted event) cursor = eventFrame iso_text event cursor"

fun reason_text :: "resync_reason \<Rightarrow> string" where
  "reason_text Cursor_expired = ''cursor-expired''"
| "reason_text Cursor_foreign_workspace = ''cursor-foreign-workspace''"
| "reason_text Cursor_malformed = ''cursor-malformed''"
| "reason_text Cursor_unavailable = ''cursor-unavailable''"
| "reason_text Cursor_ahead_of_head = ''cursor-ahead-of-head''"
| "reason_text Cursor_behind_retained_window = ''cursor-behind-retained-window''"

definition resyncFrame :: "resync_reason \<Rightarrow> string \<Rightarrow> string" where
  "resyncFrame reason cursor =
     frame_of [''id: '' @ cursor, ''event: resync_required'', ''data: '' @ stringify (Json_obj [(''reason'', Json_str (reason_text reason))])]"

datatype stream_end_reason = Draining | Membership_revoked | Session_revoked

fun end_text :: "stream_end_reason \<Rightarrow> string" where
  "end_text Draining = ''draining''"
| "end_text Membership_revoked = ''membership-revoked''"
| "end_text Session_revoked = ''session-revoked''"

definition drainingFrame :: "stream_end_reason \<Rightarrow> string" where
  "drainingFrame reason = frame_of [''event: stream_unavailable'', ''data: '' @ stringify (Json_obj [(''reason'', Json_str (end_text reason))])]"

section \<open>Decisions\<close>

text \<open>\<open>Inr ()\<close> when delivery may go on, otherwise the reason to end.\<close>

definition revalidationOutcome :: "string option \<Rightarrow> string \<Rightarrow> bool \<Rightarrow> stream_end_reason + unit" where
  "revalidationOutcome resolution expectedPrincipalId allowed =
     (if resolution \<noteq> Some expectedPrincipalId then Inl Session_revoked
      else if \<not> allowed then Inl Membership_revoked
      else Inr ())"

definition STREAM_RETRY_MS :: int where "STREAM_RETRY_MS = 1000"
definition STREAM_HEARTBEAT_MS :: int where "STREAM_HEARTBEAT_MS = 15000"
definition STREAM_POLL_MS :: int where "STREAM_POLL_MS = 1000"
definition STREAM_IDLE_POLL_MAX_MS :: int where "STREAM_IDLE_POLL_MAX_MS = 5000"
definition STREAM_IDLE_POLLS_PER_STEP :: int where "STREAM_IDLE_POLLS_PER_STEP = 5"
definition STREAM_REAUTHORIZE_MS :: int where "STREAM_REAUTHORIZE_MS = 30000"
definition STREAM_CONNECTION_LIMIT :: nat where "STREAM_CONNECTION_LIMIT = 8"
definition STREAM_LIFETIME_MS :: int where "STREAM_LIFETIME_MS = 30 * 60 * 1000"

definition idlePollDelay :: "int \<Rightarrow> int \<Rightarrow> int \<Rightarrow> int \<Rightarrow> int" where
  "idlePollDelay emptyPolls baseMs maxMs pollsPerStep =
     (let steps = max 0 emptyPolls div pollsPerStep in min (max baseMs maxMs) (baseMs * (1 + steps)))"

section \<open>Connections of one server instance\<close>

type_synonym stream_connections = "string \<Rightarrow> nat option"

definition connections_open :: "string \<Rightarrow> stream_connections \<Rightarrow> nat" where
  "connections_open ws conns = (case conns ws of None \<Rightarrow> 0 | Some n \<Rightarrow> n)"

definition connections_acquire :: "string \<Rightarrow> stream_connections \<Rightarrow> bool \<times> stream_connections" where
  "connections_acquire ws conns =
     (let n = connections_open ws conns in
      if n \<ge> STREAM_CONNECTION_LIMIT then (False, conns) else (True, conns(ws := Some (n + 1))))"

definition connections_release :: "string \<Rightarrow> stream_connections \<Rightarrow> stream_connections" where
  "connections_release ws conns =
     (let n = int (case conns ws of None \<Rightarrow> 1 | Some n \<Rightarrow> n) - 1 in
      if n \<le> 0 then conns(ws := None) else conns(ws := Some (nat n)))"

section \<open>The producer\<close>

record producer =
  pd_stop :: "nat option"
  pd_sent :: "string list"
  pd_lastSequence :: int
  pd_marks :: "int list"
  pd_lastHeartbeat :: int
  pd_lastReauthorize :: int
  pd_startedAt :: int
  pd_emptyPolls :: int
  pd_nextPollAt :: int

record snapshot =
  sn_log :: product_db
  sn_access :: product_db
  sn_related :: related_tables
  sn_checks :: read_checks
  sn_mint :: "nat \<Rightarrow> string option"

definition stopped :: "producer \<Rightarrow> bool" where
  "stopped p \<longleftrightarrow> pd_stop p = Some 0"

definition await :: "producer \<Rightarrow> producer" where
  "await p = p\<lparr>pd_stop := map_option (\<lambda>n. n - 1) (pd_stop p)\<rparr>"

definition send :: "string \<Rightarrow> producer \<Rightarrow> producer" where
  "send frame p = (if stopped p then p else p\<lparr>pd_sent := pd_sent p @ [frame]\<rparr>)"

datatype page_result = Page_sent | Page_revoked | Page_stopped

definition cursor_text :: "string option \<Rightarrow> string" where
  "cursor_text cursor = (case cursor of None \<Rightarrow> [] | Some c \<Rightarrow> c)"

fun send_deliveries :: "(int \<Rightarrow> string) \<Rightarrow> (nat \<Rightarrow> string option) \<Rightarrow> (event_view \<times> event_delivery) list \<Rightarrow> producer \<Rightarrow> page_result \<times> producer" where
  "send_deliveries iso_text mint [] p = (Page_sent, p)"
| "send_deliveries iso_text mint ((event, delivery) # rest) p =
     (if stopped (await p) then (Page_stopped, await p)
      else send_deliveries iso_text mint rest
        (send (deliveryFrame iso_text delivery (cursor_text (mint (vw_workspaceSequence event)))) (await p)))"

definition sendPage :: "db_env \<Rightarrow> (int \<Rightarrow> string) \<Rightarrow> string \<Rightarrow> string \<Rightarrow> snapshot \<Rightarrow> event_view list \<Rightarrow> producer \<Rightarrow> page_result \<times> producer" where
  "sendPage env iso_text ws user sn page p =
     (if stopped (await p) then (Page_stopped, await p)
      else (case classifyWorkspaceEventsForUser env (sn_checks sn) (sn_access sn) (sn_related sn) ws user page of
          None \<Rightarrow> (Page_revoked, await p)
        | Some deliveries \<Rightarrow> send_deliveries iso_text (sn_mint sn) (zip page deliveries) (await p)))"

text \<open>A page was sent: the cursor moves to its last event and the publication records are marked.\<close>

definition advance :: "event_view list \<Rightarrow> producer \<Rightarrow> producer" where
  "advance page p = (let n = int (vw_workspaceSequence (last page)) in
     p\<lparr>pd_lastSequence := n, pd_marks := pd_marks p @ [n]\<rparr>)"

datatype producer_phase = Replaying | Live | Ended

text \<open>A page with its consequences; the last component is false when the loop was left.\<close>

definition deliver_page :: "db_env \<Rightarrow> (int \<Rightarrow> string) \<Rightarrow> string \<Rightarrow> string \<Rightarrow> snapshot \<Rightarrow> event_view list \<Rightarrow> producer \<Rightarrow> producer \<times> bool" where
  "deliver_page env iso_text ws user sn page p =
     (case sendPage env iso_text ws user sn page p of
        (Page_stopped, p) \<Rightarrow> (p, False)
      | (Page_revoked, p) \<Rightarrow> (send (drainingFrame Membership_revoked) p, False)
      | (Page_sent, p) \<Rightarrow> (let p = await (advance page p) in (p, \<not> stopped p)))"

fun replay_loop :: "db_env \<Rightarrow> (int \<Rightarrow> string) \<Rightarrow> string \<Rightarrow> string \<Rightarrow> snapshot list \<Rightarrow> producer \<Rightarrow> producer_phase \<times> producer" where
  "replay_loop env iso_text ws user [] p = (Replaying, p)"
| "replay_loop env iso_text ws user (sn # sns) p =
     (let page = listWorkspaceEventsAfter env (sn_log sn) ws (pd_lastSequence p) WORKSPACE_EVENT_PAGE_LIMIT; p = await p in
      if page = [] then (Live, p)
      else if stopped p then (Ended, p)
      else (case deliver_page env iso_text ws user sn page p of
          (p, False) \<Rightarrow> (Ended, p)
        | (p, True) \<Rightarrow>
            if int (length page) < WORKSPACE_EVENT_PAGE_LIMIT then (Live, p)
            else replay_loop env iso_text ws user sns p))"

text \<open>Where the stream starts. \<open>rejection\<close> is the refusal of a presented cursor, \<open>requested\<close> the sequence of an accepted one.\<close>

definition start_stream ::
  "db_env \<Rightarrow> (int \<Rightarrow> string) \<Rightarrow> string \<Rightarrow> string \<Rightarrow> int option \<Rightarrow> resync_reason option \<Rightarrow> snapshot \<Rightarrow> snapshot list \<Rightarrow> producer \<Rightarrow> producer_phase \<times> producer" where
  "start_stream env iso_text ws user requested rejection first sns p =
     (let p = await (send (''retry: '' @ show_int STREAM_RETRY_MS @ [LF, LF]) p);
          window = workspaceEventWindow env (sn_log first) ws in
      if stopped p then (Ended, p)
      else (case (case rejection of Some reason \<Rightarrow> Resync reason | None \<Rightarrow> decideReplay requested window) of
          Resync reason \<Rightarrow>
            (let p = await p in
             if stopped p then (Ended, p)
             else (Live, (send (resyncFrame reason (cursor_text (sn_mint first (win_latest window)))) p)\<lparr>pd_lastSequence := int (win_latest window)\<rparr>))
        | Live_from_head n \<Rightarrow> replay_loop env iso_text ws user sns (p\<lparr>pd_lastSequence := n\<rparr>)
        | Replay_from n \<Rightarrow> replay_loop env iso_text ws user sns (p\<lparr>pd_lastSequence := n\<rparr>)))"

definition poll_delay :: "producer \<Rightarrow> int" where
  "poll_delay p = idlePollDelay (pd_emptyPolls p) STREAM_POLL_MS STREAM_IDLE_POLL_MAX_MS STREAM_IDLE_POLLS_PER_STEP"

definition enter_live :: "int \<Rightarrow> producer \<Rightarrow> producer" where
  "enter_live now p = (let p = p\<lparr>pd_startedAt := now, pd_lastHeartbeat := now, pd_lastReauthorize := now, pd_emptyPolls := 0\<rparr> in
     p\<lparr>pd_nextPollAt := now + poll_delay p\<rparr>)"

text \<open>One turn of the live loop: five clock readings, the re-resolved subscriber and its authorization.\<close>

record live_turn =
  lt_dueAt :: int
  lt_reauthorizedAt :: int
  lt_pollAt :: int
  lt_polledAt :: int
  lt_endAt :: int
  lt_principal :: "string option"
  lt_allowed :: bool
  lt_snapshot :: snapshot

definition reauthorize :: "string \<Rightarrow> live_turn \<Rightarrow> producer \<Rightarrow> producer_phase \<times> producer" where
  "reauthorize user turn p =
     (if lt_dueAt turn - pd_lastReauthorize p < STREAM_REAUTHORIZE_MS then (Live, p)
      else let p = await (p\<lparr>pd_lastReauthorize := lt_reauthorizedAt turn\<rparr>) in
        if stopped p then (Ended, p)
        else let p = (if lt_principal turn = None then p else await p) in
          if stopped p then (Ended, p)
          else (case revalidationOutcome (lt_principal turn) user (lt_principal turn \<noteq> None \<and> lt_allowed turn) of
              Inl reason \<Rightarrow> (Ended, send (drainingFrame reason) p)
            | Inr _ \<Rightarrow> (Live, p)))"

definition schedule_poll :: "live_turn \<Rightarrow> event_view list \<Rightarrow> producer \<Rightarrow> producer" where
  "schedule_poll turn events p =
     p\<lparr>pd_nextPollAt := (if int (length events) \<ge> WORKSPACE_EVENT_PAGE_LIMIT then lt_polledAt turn else lt_polledAt turn + poll_delay p)\<rparr>"

definition poll :: "db_env \<Rightarrow> (int \<Rightarrow> string) \<Rightarrow> string \<Rightarrow> string \<Rightarrow> live_turn \<Rightarrow> producer \<Rightarrow> producer_phase \<times> producer" where
  "poll env iso_text ws user turn p =
     (if lt_pollAt turn < pd_nextPollAt p then (Live, p)
      else let events = prepareWorkspaceEventsAfter env ws WORKSPACE_EVENT_PAGE_LIMIT (sn_log (lt_snapshot turn)) (pd_lastSequence p);
               p = await p in
        if stopped p then (Ended, p)
        else if events = [] then (Live, schedule_poll turn events (p\<lparr>pd_emptyPolls := pd_emptyPolls p + 1\<rparr>))
        else (case deliver_page env iso_text ws user (lt_snapshot turn) events (p\<lparr>pd_emptyPolls := 0\<rparr>) of
            (p, False) \<Rightarrow> (Ended, p)
          | (p, True) \<Rightarrow> (Live, schedule_poll turn events p)))"

definition close_turn :: "live_turn \<Rightarrow> producer \<Rightarrow> producer_phase \<times> producer" where
  "close_turn turn p =
     (let p = (if lt_endAt turn - pd_lastHeartbeat p \<ge> STREAM_HEARTBEAT_MS
               then send heartbeatFrame (p\<lparr>pd_lastHeartbeat := lt_endAt turn\<rparr>) else p) in
      if lt_endAt turn - pd_startedAt p \<ge> STREAM_LIFETIME_MS then (Ended, send (drainingFrame Draining) p) else (Live, p))"

definition live_step :: "db_env \<Rightarrow> (int \<Rightarrow> string) \<Rightarrow> string \<Rightarrow> string \<Rightarrow> live_turn \<Rightarrow> producer \<Rightarrow> producer_phase \<times> producer" where
  "live_step env iso_text ws user turn p =
     (if stopped p then (Ended, p)
      else let p = await p in
        if stopped p then (Ended, p)
        else (case reauthorize user turn p of
            (Live, p) \<Rightarrow>
              (case poll env iso_text ws user turn p of
                 (Live, p) \<Rightarrow> close_turn turn p
               | (_, p) \<Rightarrow> (Ended, p))
          | (_, p) \<Rightarrow> (Ended, p)))"

fun live_loop :: "db_env \<Rightarrow> (int \<Rightarrow> string) \<Rightarrow> string \<Rightarrow> string \<Rightarrow> live_turn list \<Rightarrow> producer \<Rightarrow> producer_phase \<times> producer" where
  "live_loop env iso_text ws user [] p = (Live, p)"
| "live_loop env iso_text ws user (turn # turns) p =
     (case live_step env iso_text ws user turn p of
        (Live, p) \<Rightarrow> live_loop env iso_text ws user turns p
      | (_, p) \<Rightarrow> (Ended, p))"

definition new_producer :: "nat option \<Rightarrow> producer" where
  "new_producer stop = \<lparr>pd_stop = stop, pd_sent = [], pd_lastSequence = 0, pd_marks = [], pd_lastHeartbeat = 0,
     pd_lastReauthorize = 0, pd_startedAt = 0, pd_emptyPolls = 0, pd_nextPollAt = 0\<rparr>"

text \<open>The whole stream of one subscriber.\<close>

definition produce ::
  "db_env \<Rightarrow> (int \<Rightarrow> string) \<Rightarrow> string \<Rightarrow> string \<Rightarrow> int option \<Rightarrow> resync_reason option \<Rightarrow> snapshot \<Rightarrow> snapshot list \<Rightarrow> int \<Rightarrow> live_turn list
    \<Rightarrow> nat option \<Rightarrow> producer_phase \<times> producer" where
  "produce env iso_text ws user requested rejection first sns now turns stop =
     (case start_stream env iso_text ws user requested rejection first sns (new_producer stop) of
        (Live, p) \<Rightarrow> live_loop env iso_text ws user turns (enter_live now p)
      | r \<Rightarrow> r)"

section \<open>Replay to a subscriber that stays\<close>

text \<open>The frames of a list of events for a subscriber, by the reference classification.\<close>

definition frames_for :: "db_env \<Rightarrow> (int \<Rightarrow> string) \<Rightarrow> string \<Rightarrow> string \<Rightarrow> snapshot \<Rightarrow> event_view list \<Rightarrow> string list" where
  "frames_for env iso_text ws user sn events =
     map (\<lambda>e. deliveryFrame iso_text (reference_delivery env (sn_checks sn) (sn_access sn) (sn_related sn) ws user e)
       (cursor_text (sn_mint sn (vw_workspaceSequence e)))) events"

definition snapshot_ok :: "db_env \<Rightarrow> string \<Rightarrow> string \<Rightarrow> snapshot \<Rightarrow> bool" where
  "snapshot_ok env ws user sn \<longleftrightarrow> tables_ok env (sn_access sn) \<and> related_ok env (sn_access sn) (sn_related sn)
     \<and> uuid_in env user = user \<and> role_in (sn_access sn) (uuid_in env ws) user \<noteq> None"

lemma present [simp]:
  "pd_stop p = None \<Longrightarrow> await p = p" "pd_stop p = None \<Longrightarrow> \<not> stopped p"
  "pd_stop p = None \<Longrightarrow> send frame p = p\<lparr>pd_sent := pd_sent p @ [frame]\<rparr>"
  by (simp_all add: await_def stopped_def send_def)

lemma send_deliveries_present:
  "pd_stop p = None \<Longrightarrow> send_deliveries iso_text mint zs p =
     (Page_sent, p\<lparr>pd_sent := pd_sent p @ map (\<lambda>(e, d). deliveryFrame iso_text d (cursor_text (mint (vw_workspaceSequence e)))) zs\<rparr>)"
  by (induction iso_text mint zs p rule: send_deliveries.induct) simp_all

lemma deliver_page_present:
  assumes "pd_stop p = None" and "snapshot_ok env ws user sn"
  shows "deliver_page env iso_text ws user sn page p = (advance page (p\<lparr>pd_sent := pd_sent p @ frames_for env iso_text ws user sn page\<rparr>), True)"
proof -
  have "map (\<lambda>(e, d). deliveryFrame iso_text d (cursor_text (sn_mint sn (vw_workspaceSequence e)))) (zip page (map f page))
      = map (\<lambda>e. deliveryFrame iso_text (f e) (cursor_text (sn_mint sn (vw_workspaceSequence e)))) page" for f
    by (induction page) simp_all
  then show ?thesis using assms classify_page [of env "sn_access sn" "sn_related sn" user "sn_checks sn" ws page]
    by (simp add: deliver_page_def sendPage_def snapshot_ok_def send_deliveries_present frames_for_def advance_def Let_def)
qed

lemma frames_for_append: "frames_for env iso_text ws user sn (a @ b) = frames_for env iso_text ws user sn a @ frames_for env iso_text ws user sn b"
  by (simp add: frames_for_def)

lemma replay_loop_complete:
  assumes w: "log_window env (sn_log sn)" and ok: "snapshot_ok env ws user sn"
    and "pd_stop p = None" and "length (rows_after env (sn_log sn) ws (pd_lastSequence p)) < k"
  shows "\<exists>marks. replay_loop env iso_text ws user (replicate k sn) p =
    (Live, p\<lparr>pd_sent := pd_sent p @ frames_for env iso_text ws user sn (map toView (rows_after env (sn_log sn) ws (pd_lastSequence p))),
       pd_lastSequence := (if rows_after env (sn_log sn) ws (pd_lastSequence p) = [] then pd_lastSequence p
         else int (ev_workspaceSequence (last (rows_after env (sn_log sn) ws (pd_lastSequence p))))), pd_marks := marks\<rparr>)"
  using assms(3,4)
proof (induction k arbitrary: p)
  case (Suc k)
  define n :: nat where "n = 200"
  let ?start = "pd_lastSequence p"
  let ?rows = "rows_after env (sn_log sn) ws ?start"
  have lim: "WORKSPACE_EVENT_PAGE_LIMIT = int n" by (simp add: WORKSPACE_EVENT_PAGE_LIMIT_def n_def)
  have page: "listWorkspaceEventsAfter env (sn_log sn) ws ?start (int n) = map toView (take n ?rows)"
    by (simp add: listWorkspaceEventsAfter_def WORKSPACE_EVENT_PAGE_LIMIT_def n_def)
  show ?case
  proof (cases "?rows = []")
    case True
    then show ?thesis using Suc.prems(1) by (auto simp: page lim frames_for_def intro!: exI [of _ "pd_marks p"])
  next
    case False
    then have ne: "take n ?rows \<noteq> []" by (simp add: n_def)
    let ?last = "int (ev_workspaceSequence (last (take n ?rows)))"
    let ?p = "p\<lparr>pd_sent := pd_sent p @ frames_for env iso_text ws user sn (map toView (take n ?rows)), pd_lastSequence := ?last, pd_marks := pd_marks p @ [?last]\<rparr>"
    have step: "deliver_page env iso_text ws user sn (map toView (take n ?rows)) p = (?p, True)"
      using ne by (simp add: deliver_page_present [OF Suc.prems(1) ok] advance_def Let_def last_map toView_def)
    show ?thesis
    proof (cases "length ?rows < n")
      case True
      then show ?thesis using Suc.prems(1) False step by (auto simp: page lim Let_def intro!: exI [of _ "pd_marks p @ [?last]"])
    next
      case more: False
      have rest: "rows_after env (sn_log sn) ws ?last = drop n ?rows" by (rule rows_after_page [OF w ne])
      have small: "length (drop n ?rows) < k"
      proof -
        have "0 < length ?rows" "0 < n" using False by (simp_all add: n_def)
        then show ?thesis using Suc.prems(2) by (simp only: length_drop)
      qed
      have "\<exists>marks. replay_loop env iso_text ws user (replicate k sn) ?p = (Live, ?p\<lparr>pd_sent := pd_sent ?p @ frames_for env iso_text ws user sn (map toView (rows_after env (sn_log sn) ws (pd_lastSequence ?p))),
         pd_lastSequence := (if rows_after env (sn_log sn) ws (pd_lastSequence ?p) = [] then pd_lastSequence ?p
           else int (ev_workspaceSequence (last (rows_after env (sn_log sn) ws (pd_lastSequence ?p))))), pd_marks := marks\<rparr>)"
        by (rule Suc.IH) (use Suc.prems(1) small in \<open>simp_all add: rest\<close>)
      moreover have "pd_lastSequence ?p = ?last" by simp
      ultimately obtain marks where IH: "replay_loop env iso_text ws user (replicate k sn) ?p = (Live, ?p\<lparr>pd_sent := pd_sent ?p @ frames_for env iso_text ws user sn (map toView (drop n ?rows)),
         pd_lastSequence := (if drop n ?rows = [] then ?last else int (ev_workspaceSequence (last (drop n ?rows)))), pd_marks := marks\<rparr>)"
        unfolding rest by (simp only: rest) blast
      have fr: "frames_for env iso_text ws user sn (map toView (take n ?rows)) @ frames_for env iso_text ws user sn (map toView (drop n ?rows))
          = frames_for env iso_text ws user sn (map toView ?rows)" by (simp flip: frames_for_append map_append)
      have la: "(if drop n ?rows = [] then ?last else int (ev_workspaceSequence (last (drop n ?rows)))) = int (ev_workspaceSequence (last ?rows))"
        by (simp add: last_drop)
      show ?thesis using Suc.prems(1) False ne more step IH fr la by (auto simp: page lim Let_def)
    qed
  qed
qed simp

text \<open>A subscriber that stays connected and a member, whose cursor is replayed, is sent exactly one frame
  for each event after its cursor, in sequence order and up to the head of the log, each classified for it and
  carrying the cursor of its sequence; then the producer goes live with its cursor at the head.\<close>

lemma stream_replay_complete:
  assumes "inj (new_id env)" and "(log_step env)\<^sup>*\<^sup>* db0 (sn_log sn)" and "no_events db0" and "snapshot_ok env ws user sn"
    and "0 \<le> c" and "decideReplay (Some c) (workspaceEventWindow env (sn_log sn) ws) = Replay_from s"
    and "length (event_rows (sn_log sn)) < k"
  shows "\<exists>p views. start_stream env iso_text ws user (Some c) None sn (replicate k sn) (new_producer None) = (Live, p)
    \<and> pd_sent p = (''retry: 1000'' @ [LF, LF]) # frames_for env iso_text ws user sn views
    \<and> views = map toView (filter (\<lambda>e. c < int (ev_workspaceSequence e)) (events_of (uuid_in env ws) (sn_log sn)))
    \<and> map vw_workspaceSequence views = [Suc (nat c)..<Suc (win_latest (workspaceEventWindow env (sn_log sn) ws))]
    \<and> pd_lastSequence p = int (win_latest (workspaceEventWindow env (sn_log sn) ws))"
proof -
  let ?latest = "win_latest (workspaceEventWindow env (sn_log sn) ws)" and ?rows = "rows_after env (sn_log sn) ws c"
  have w: "log_window env (sn_log sn)" using assms(2,1,3) by (rule log_steps_window)
  note r = replayed_sequences [OF w assms(5,6)]
  let ?p = "(new_producer None)\<lparr>pd_sent := [''retry: 1000'' @ [LF, LF]], pd_lastSequence := c\<rparr>"
  have retry: "show_int STREAM_RETRY_MS = ''1000''" by code_simp
  have start: "start_stream env iso_text ws user (Some c) None sn (replicate k sn) (new_producer None)
      = replay_loop env iso_text ws user (replicate k sn) ?p"
    using assms(6) r(1) by (simp add: start_stream_def retry new_producer_def)
  have "length ?rows \<le> length (event_rows (sn_log sn))" by (simp add: rows_after_def)
  then have "length ?rows < k" using assms(7) by (rule le_less_trans)
  then obtain marks where loop: "replay_loop env iso_text ws user (replicate k sn) ?p = (Live, ?p\<lparr>pd_sent := pd_sent ?p @ frames_for env iso_text ws user sn (map toView ?rows),
       pd_lastSequence := (if ?rows = [] then c else int (ev_workspaceSequence (last ?rows))), pd_marks := marks\<rparr>)"
    using replay_loop_complete [OF w assms(4), of ?p k iso_text] by (auto simp: new_producer_def)
  have last: "(if ?rows = [] then c else int (ev_workspaceSequence (last ?rows))) = int ?latest"
  proof (cases "?rows = []")
    case True
    then have "\<not> Suc (nat c) \<le> ?latest" using r(2) by (auto split: if_splits)
    then show ?thesis using True r(3) assms(5) by simp
  next
    case False
    then have "ev_workspaceSequence (last ?rows) = last [Suc (nat c)..<Suc ?latest]" using r(2) by (metis last_map)
    then show ?thesis using False r(2) by (auto split: if_splits)
  qed
  have views: "map vw_workspaceSequence (map toView ?rows) = [Suc (nat c)..<Suc ?latest]"
    using r(2) by (simp add: toView_def comp_def)
  show ?thesis unfolding start loop last rows_after_window [OF w, symmetric]
    using views by (intro exI conjI) (auto simp: new_producer_def)
qed

section \<open>Replay while others write and the subscriber may leave\<close>

text \<open>A frame of the replay: the event as classified for the subscriber by the snapshot its page was read from.\<close>

fun frame_to :: "db_env \<Rightarrow> (int \<Rightarrow> string) \<Rightarrow> string \<Rightarrow> string \<Rightarrow> snapshot \<times> event_view \<Rightarrow> string" where
  "frame_to env iso_text ws user (sn, e) =
     deliveryFrame iso_text (reference_delivery env (sn_checks sn) (sn_access sn) (sn_related sn) ws user e) (cursor_text (sn_mint sn (vw_workspaceSequence e)))"

text \<open>What the replay relies on of a snapshot: the log is one its operations produce and still has every event after \<open>n\<close>.\<close>

definition retains :: "db_env \<Rightarrow> string \<Rightarrow> nat \<Rightarrow> snapshot \<Rightarrow> bool" where
  "retains env ws n sn \<longleftrightarrow> log_window env (sn_log sn) \<and> tables_ok env (sn_access sn) \<and> related_ok env (sn_access sn) (sn_related sn)
     \<and> {Suc n..last_sequence (uuid_in env ws) (sequence_rows (sn_log sn))} \<subseteq> ev_workspaceSequence ` set (events_of (uuid_in env ws) (sn_log sn))"

lemma retained_sequences:
  assumes "retains env ws n sn" and "n \<le> m"
  shows "map ev_workspaceSequence (rows_after env (sn_log sn) ws (int m)) = [Suc m..<Suc (last_sequence (uuid_in env ws) (sequence_rows (sn_log sn)))]"
proof -
  let ?l = "last_sequence (uuid_in env ws) (sequence_rows (sn_log sn))"
  have w: "log_window env (sn_log sn)" using assms(1) by (simp add: retains_def)
  then obtain k where k: "k \<le> ?l" "map ev_workspaceSequence (events_of (uuid_in env ws) (sn_log sn)) = [Suc k..<Suc ?l]"
    unfolding log_window_def by blast
  have "ev_workspaceSequence ` set (events_of (uuid_in env ws) (sn_log sn)) = {Suc k..?l}" unfolding set_map [symmetric] k(2) by auto
  then have "{Suc n..?l} \<subseteq> {Suc k..?l}" using assms(1) by (simp add: retains_def)
  then have "k \<le> m \<or> ?l \<le> m" using assms(2) by (auto simp: subset_iff)
  then show ?thesis
  proof
    assume "k \<le> m"
    then show ?thesis using sequences_after [OF w k(2), of "int m"] by simp
  next
    assume l: "?l \<le> m"
    have "ev_workspaceSequence e \<le> ?l" if "e \<in> set (events_of (uuid_in env ws) (sn_log sn))" for e
      using that \<open>ev_workspaceSequence ` _ = _\<close> by auto
    then have "rows_after env (sn_log sn) ws (int m) = []" using l by (fastforce simp: rows_after_window [OF w] filter_empty_conv)
    then show ?thesis using l by simp
  qed
qed

lemma send_deliveries_prefix:
  assumes "send_deliveries iso_text mint zs p = (r, q)"
  shows "\<exists>m. pd_sent q = pd_sent p @ map (\<lambda>(e, d). deliveryFrame iso_text d (cursor_text (mint (vw_workspaceSequence e)))) (take m zs)
    \<and> m \<le> length zs \<and> (r = Page_sent \<and> m = length zs \<or> r = Page_stopped) \<and> pd_marks q = pd_marks p"
  using assms
proof (induction iso_text mint zs p rule: send_deliveries.induct)
  case (2 iso_text mint e d rest p)
  show ?case
  proof (cases "stopped (await p)")
    case True
    then show ?thesis using 2 by (intro exI [of _ 0]) (auto simp: await_def)
  next
    case False
    let ?frame = "deliveryFrame iso_text d (cursor_text (mint (vw_workspaceSequence e)))"
    have s: "pd_sent (send ?frame (await p)) = pd_sent p @ [?frame]" "pd_marks (send ?frame (await p)) = pd_marks p"
      using False by (simp_all add: send_def await_def)
    from 2 False obtain m where "pd_sent q = pd_sent p @ ?frame # map (\<lambda>(e, d). deliveryFrame iso_text d (cursor_text (mint (vw_workspaceSequence e)))) (take m rest)"
      "m \<le> length rest" "r = Page_sent \<and> m = length rest \<or> r = Page_stopped" "pd_marks q = pd_marks p" by (auto simp: s)
    then show ?thesis by (intro exI [of _ "Suc m"]) auto
  qed
qed auto

lemma await_keeps [simp]:
  "pd_sent (await p) = pd_sent p" "pd_marks (await p) = pd_marks p" "pd_lastSequence (await p) = pd_lastSequence p"
  by (simp_all add: await_def)

text \<open>A page reaches the subscriber from the front, up to where it left; only a whole page moves the cursor and is marked.\<close>

lemma deliver_page_prefix:
  assumes ok: "tables_ok env (sn_access sn)" "related_ok env (sn_access sn) (sn_related sn)" "uuid_in env user = user"
    and d: "deliver_page env iso_text ws user sn page p = (q, b)"
  shows "\<exists>m tail. pd_sent q = pd_sent p @ map (\<lambda>e. frame_to env iso_text ws user (sn, e)) (take m page) @ tail
    \<and> m \<le> length page \<and> (m = 0 \<or> role_in (sn_access sn) (uuid_in env ws) user \<noteq> None)
    \<and> (tail = [] \<or> tail = [drainingFrame Membership_revoked] \<and> \<not> b)
    \<and> (pd_marks q = pd_marks p \<and> \<not> b \<or> tail = [] \<and> m = length page
        \<and> pd_marks q = pd_marks p @ [int (vw_workspaceSequence (last page))] \<and> pd_lastSequence q = int (vw_workspaceSequence (last page)))"
proof (cases "stopped (await p) \<or> role_in (sn_access sn) (uuid_in env ws) user = None")
  case True
  then show ?thesis using d classify_page [OF ok, of "sn_checks sn" ws page]
    by (intro exI [of _ 0]) (auto simp: deliver_page_def sendPage_def send_def split: if_splits)
next
  case False
  let ?ref = "reference_delivery env (sn_checks sn) (sn_access sn) (sn_related sn) ws user"
  obtain r p' where send: "send_deliveries iso_text (sn_mint sn) (zip page (map ?ref page)) (await p) = (r, p')" by fastforce
  have frames: "map (\<lambda>(e, d). deliveryFrame iso_text d (cursor_text (sn_mint sn (vw_workspaceSequence e)))) (take m (zip page (map ?ref page)))
      = map (\<lambda>e. frame_to env iso_text ws user (sn, e)) (take m page)" for m
    by (induction page arbitrary: m) (auto simp: take_Cons' split: nat.splits)
  from send_deliveries_prefix [OF send] obtain m where m: "pd_sent p' = pd_sent p @ map (\<lambda>e. frame_to env iso_text ws user (sn, e)) (take m page)"
    "m \<le> length page" "r = Page_sent \<and> m = length page \<or> r = Page_stopped" "pd_marks p' = pd_marks p" unfolding frames by auto
  then show ?thesis using d False send classify_page [OF ok, of "sn_checks sn" ws page]
    by (intro exI [of _ m] exI [of _ "[]"]) (auto simp: deliver_page_def sendPage_def advance_def Let_def)
qed

lemma retains_later: "retains env ws n sn \<Longrightarrow> n \<le> m \<Longrightarrow> retains env ws m sn"
  unfolding retains_def by (meson Suc_le_mono atLeastatMost_subset_iff order_refl subset_trans)

lemma take_interval: "take k [Suc n..<Suc l] = [Suc n..<Suc (n + min k (l - n))]"
proof (cases "n + k \<le> l")
  case True
  then have "min k (l - n) = k" by simp
  with True show ?thesis by (simp only: take_upt [of "Suc n" k "Suc l"] add_Suc Suc_le_mono)
next
  case False
  then have "take k [Suc n..<Suc l] = [Suc n..<Suc l]" by (intro take_all) (simp del: upt_Suc)
  moreover have "n + min k (l - n) = max n l" using False by auto
  ultimately show ?thesis by (cases "n \<le> l") (simp_all add: max_def)
qed

lemma retained_page:
  assumes ok: "retains env ws n sn" and page: "page = listWorkspaceEventsAfter env (sn_log sn) ws (int n) WORKSPACE_EVENT_PAGE_LIMIT"
  shows "map vw_workspaceSequence page = [Suc n..<Suc (n + length page)]"
    and "set page \<subseteq> toView ` set (events_of (uuid_in env ws) (sn_log sn))"
    and "int (length page) < WORKSPACE_EVENT_PAGE_LIMIT \<Longrightarrow> last_sequence (uuid_in env ws) (sequence_rows (sn_log sn)) \<le> n + length page"
    and "page \<noteq> [] \<Longrightarrow> vw_workspaceSequence (last page) = n + length page"
proof -
  define k :: nat where "k = 200"
  let ?rows = "rows_after env (sn_log sn) ws (int n)" and ?l = "last_sequence (uuid_in env ws) (sequence_rows (sn_log sn))"
  have lim: "WORKSPACE_EVENT_PAGE_LIMIT = int k" by (simp add: WORKSPACE_EVENT_PAGE_LIMIT_def k_def)
  have p: "page = map toView (take k ?rows)" by (simp add: page listWorkspaceEventsAfter_def WORKSPACE_EVENT_PAGE_LIMIT_def k_def)
  have r: "map ev_workspaceSequence ?rows = [Suc n..<Suc ?l]" by (rule retained_sequences [OF ok order_refl])
  have len: "length ?rows = ?l - n" using arg_cong [OF r, of length] by (simp del: upt_Suc)
  have "map vw_workspaceSequence page = take k (map ev_workspaceSequence ?rows)" by (simp add: p toView_def take_map comp_def)
  also have "\<dots> = [Suc n..<Suc (n + length page)]"
    unfolding r take_interval by (simp add: p len min.commute del: upt_Suc)
  finally show seqs: "map vw_workspaceSequence page = [Suc n..<Suc (n + length page)]" .
  show "set page \<subseteq> toView ` set (events_of (uuid_in env ws) (sn_log sn))"
    using set_take_subset [of k ?rows] by (auto simp: p rows_after_set events_of_def)
  show "?l \<le> n + length page" if "int (length page) < WORKSPACE_EVENT_PAGE_LIMIT" using that len by (auto simp: p lim)
  show "vw_workspaceSequence (last page) = n + length page" if "page \<noteq> []"
    using that last_map [of page vw_workspaceSequence] by (simp add: seqs Suc_le_eq)
qed

text \<open>C11: while other writers append to the log and the subscriber may leave or lose its membership at any
  point, the replay sends events of its own workspace in order from the one behind the cursor, none twice and
  none left out, each classified for the subscriber by the tables its page was read with, at which it was a member;
  nothing follows but the frame that ends a revoked stream. Publication records are marked only up to what was
  sent, and the loop goes live only once it has sent everything up to the head of the log it read last.\<close>

theorem replay_in_order:
  assumes "list_all (retains env ws n) sns" and "uuid_in env user = user" and "pd_lastSequence p = int n"
    and "replay_loop env iso_text ws user sns p = (ph, q)"
  shows "\<exists>zs tail marks. pd_sent q = pd_sent p @ map (frame_to env iso_text ws user) zs @ tail
    \<and> map (\<lambda>z. vw_workspaceSequence (snd z)) zs = [Suc n..<Suc (n + length zs)]
    \<and> list_all (\<lambda>(sn, e). sn \<in> set sns \<and> e \<in> toView ` set (events_of (uuid_in env ws) (sn_log sn))
         \<and> role_in (sn_access sn) (uuid_in env ws) user \<noteq> None) zs
    \<and> (tail = [] \<or> tail = [drainingFrame Membership_revoked] \<and> ph = Ended)
    \<and> pd_marks q = pd_marks p @ marks \<and> list_all (\<lambda>m. m \<le> int (n + length zs)) marks
    \<and> (ph = Live \<longrightarrow> pd_lastSequence q = int (n + length zs)
         \<and> (\<exists>sn \<in> set sns. last_sequence (uuid_in env ws) (sequence_rows (sn_log sn)) \<le> n + length zs))"
  using assms
proof (induction sns arbitrary: n p)
  case (Cons sn sns)
  let ?page = "listWorkspaceEventsAfter env (sn_log sn) ws (int n) WORKSPACE_EVENT_PAGE_LIMIT"
  have ok: "retains env ws n sn" "tables_ok env (sn_access sn)" "related_ok env (sn_access sn) (sn_related sn)"
    using Cons.prems(1) by (auto simp: retains_def)
  note page = retained_page [OF ok(1) refl]
  show ?case
  proof (cases "?page = [] \<or> stopped (await p)")
    case True
    then show ?thesis using Cons.prems(3,4) page(3) by (intro exI [of _ "[]"]) (auto simp: Let_def WORKSPACE_EVENT_PAGE_LIMIT_def split: if_splits)
  next
    case False
    obtain p' b where d: "deliver_page env iso_text ws user sn ?page (await p) = (p', b)" by fastforce
    from deliver_page_prefix [OF ok(2,3) Cons.prems(2) d] obtain m tail where
      m: "pd_sent p' = pd_sent p @ map (frame_to env iso_text ws user) (map (Pair sn) (take m ?page)) @ tail" "m \<le> length ?page"
      "m = 0 \<or> role_in (sn_access sn) (uuid_in env ws) user \<noteq> None" "tail = [] \<or> tail = [drainingFrame Membership_revoked] \<and> \<not> b"
      "pd_marks p' = pd_marks p \<and> \<not> b \<or> tail = [] \<and> m = length ?page \<and> pd_marks p' = pd_marks p @ [int (n + m)] \<and> pd_lastSequence p' = int (n + m)"
      using page(4) False by (auto simp: comp_def)
    let ?zs = "map (Pair sn) (take m ?page)"
    have seqs: "map (\<lambda>z. vw_workspaceSequence (snd z)) ?zs = [Suc n..<Suc (n + m)]" "length ?zs = m"
      using page(1) m(2) take_interval [of m n "n + length ?page"] by (simp_all add: comp_def min_absorb1 del: upt_Suc flip: take_map)
    have from_log: "list_all (\<lambda>(sn', e). sn' \<in> set (sn # sns) \<and> e \<in> toView ` set (events_of (uuid_in env ws) (sn_log sn'))
        \<and> role_in (sn_access sn') (uuid_in env ws) user \<noteq> None) ?zs"
      using page(2) m(3) by (auto simp: list_all_iff dest: in_set_takeD)
    show ?thesis
    proof (cases "b \<and> \<not> int (length ?page) < WORKSPACE_EVENT_PAGE_LIMIT")
      case leaves: False
      then show ?thesis using Cons.prems(3,4) False d m seqs from_log page(3)
        by (intro exI [of _ ?zs] exI [of _ tail] exI [of _ "if pd_marks p' = pd_marks p then [] else [int (n + m)]"])
          (auto simp: Let_def split: if_splits bool.splits)
    next
      case True
      then have next_page: "replay_loop env iso_text ws user sns p' = (ph, q)" "pd_lastSequence p' = int (n + m)" "tail = []"
        "pd_marks p' = pd_marks p @ [int (n + m)]"
        using Cons.prems(3,4) False d m by (auto simp: Let_def)
      have "list_all (retains env ws (n + m)) sns" using Cons.prems(1) retains_later by (auto simp: list_all_iff)
      from Cons.IH [OF this Cons.prems(2) next_page(2,1)] obtain zs tail' marks where
        rest: "pd_sent q = pd_sent p' @ map (frame_to env iso_text ws user) zs @ tail'"
        "map (\<lambda>z. vw_workspaceSequence (snd z)) zs = [Suc (n + m)..<Suc (n + m + length zs)]"
        "list_all (\<lambda>(sn, e). sn \<in> set sns \<and> e \<in> toView ` set (events_of (uuid_in env ws) (sn_log sn)) \<and> role_in (sn_access sn) (uuid_in env ws) user \<noteq> None) zs"
        "tail' = [] \<or> tail' = [drainingFrame Membership_revoked] \<and> ph = Ended"
        "pd_marks q = pd_marks p' @ marks" "list_all (\<lambda>k. k \<le> int (n + m + length zs)) marks"
        "ph = Live \<longrightarrow> pd_lastSequence q = int (n + m + length zs)
           \<and> (\<exists>sn \<in> set sns. last_sequence (uuid_in env ws) (sequence_rows (sn_log sn)) \<le> n + m + length zs)" by blast
      show ?thesis
      proof (intro exI [of _ "?zs @ zs"] exI [of _ tail'] exI [of _ "int (n + m) # marks"] conjI)
        show "map (\<lambda>z. vw_workspaceSequence (snd z)) (?zs @ zs) = [Suc n..<Suc (n + length (?zs @ zs))]"
          using seqs rest(2) upt_add_eq_append [of "Suc n" "Suc (n + m)" "length zs"] by (simp add: add.assoc del: upt_Suc)
      qed (use rest m(1) next_page seqs(2) from_log in \<open>auto simp: list_all_iff add.assoc\<close>)
    qed
  qed
qed simp

section \<open>Revocation\<close>

text \<open>What a step appends to the stream.\<close>

definition appended :: "producer \<Rightarrow> producer \<Rightarrow> string list \<Rightarrow> bool" where
  "appended p q frames \<longleftrightarrow> pd_sent q = pd_sent p @ frames"

lemma appended_simps [simp]: "appended p (await q) fs = appended p q fs" "appended (await p) q fs = appended p q fs"
  by (simp_all add: appended_def await_def)

lemma send_appended: "appended p (send frame p) (if stopped p then [] else [frame])"
  by (simp add: appended_def send_def)

lemma reauthorize_refuses:
  assumes "lt_dueAt turn - pd_lastReauthorize p \<ge> STREAM_REAUTHORIZE_MS" and "lt_principal turn \<noteq> Some user \<or> \<not> lt_allowed turn"
  shows "\<exists>q fs. reauthorize user turn p = (Ended, q) \<and> appended p q fs \<and> set fs \<subseteq> {drainingFrame Session_revoked, drainingFrame Membership_revoked}"
proof -
  have "revalidationOutcome (lt_principal turn) user (lt_principal turn \<noteq> None \<and> lt_allowed turn)
      = Inl (if lt_principal turn \<noteq> Some user then Session_revoked else Membership_revoked)"
    using assms(2) by (auto simp: revalidationOutcome_def)
  then show ?thesis using assms(1)
    by (auto simp: reauthorize_def Let_def appended_def await_def send_def intro!: exI)
qed

text \<open>Once the re-authorization is due and the session or the membership is gone, the turn ends the stream
  and sends at most the frame that says so: no event of the log.\<close>

lemma live_step_refuses:
  assumes "lt_dueAt turn - pd_lastReauthorize p \<ge> STREAM_REAUTHORIZE_MS" and "lt_principal turn \<noteq> Some user \<or> \<not> lt_allowed turn"
  shows "\<exists>q fs. live_step env iso_text ws user turn p = (Ended, q) \<and> appended p q fs
    \<and> set fs \<subseteq> {drainingFrame Session_revoked, drainingFrame Membership_revoked}"
proof (cases "stopped p \<or> stopped (await p)")
  case True
  then show ?thesis by (auto simp: live_step_def Let_def appended_def await_def intro!: exI [of _ "[]"])
next
  case False
  have "lt_dueAt turn - pd_lastReauthorize (await p) \<ge> STREAM_REAUTHORIZE_MS" using assms(1) by (simp add: await_def)
  from reauthorize_refuses [OF this assms(2)] obtain q fs where q: "reauthorize user turn (await p) = (Ended, q)" "appended (await p) q fs"
    "set fs \<subseteq> {drainingFrame Session_revoked, drainingFrame Membership_revoked}" by blast
  with False show ?thesis by (intro exI [of _ q] exI [of _ fs]) (simp add: live_step_def Let_def)
qed

lemma send_keeps [simp]: "pd_lastReauthorize (send frame p) = pd_lastReauthorize p" "pd_lastReauthorize (await p) = pd_lastReauthorize p"
  by (simp_all add: send_def await_def)

lemma send_deliveries_keeps: "pd_lastReauthorize (snd (send_deliveries iso_text mint zs p)) = pd_lastReauthorize p"
  by (induction iso_text mint zs p rule: send_deliveries.induct) simp_all

lemma deliver_page_keeps: "deliver_page env iso_text ws user sn page p = (q, b) \<Longrightarrow> pd_lastReauthorize q = pd_lastReauthorize p"
  using send_deliveries_keeps [of iso_text "sn_mint sn" _ "await p"]
  by (auto simp: deliver_page_def sendPage_def advance_def Let_def split: prod.splits page_result.splits if_splits option.splits) (metis snd_conv)+

lemma live_step_keeps:
  assumes "lt_dueAt turn - pd_lastReauthorize p < STREAM_REAUTHORIZE_MS" and "live_step env iso_text ws user turn p = (ph, q)"
  shows "pd_lastReauthorize q = pd_lastReauthorize p"
proof -
  have poll: "pd_lastReauthorize q' = pd_lastReauthorize p'" if "poll env iso_text ws user turn p' = (ph', q')" for p' ph' q'
    using that deliver_page_keeps
    by (fastforce simp: poll_def Let_def schedule_poll_def split: if_splits prod.splits bool.splits)
  show ?thesis using assms poll
    by (fastforce simp: live_step_def reauthorize_def close_turn_def Let_def split: if_splits prod.splits producer_phase.splits)
qed

text \<open>C8: when the session was revoked, or the membership as the authorization sees it, the stream goes on at
  most until the next re-authorization: from the first turn 30 seconds after the last one it has ended, and that
  turn adds nothing but the frame that names the reason.\<close>

theorem revocation_is_prompt:
  assumes "list_all (\<lambda>t. lt_principal t \<noteq> Some user \<or> \<not> lt_allowed t) turns"
    and "early = takeWhile (\<lambda>t. lt_dueAt t - pd_lastReauthorize p < STREAM_REAUTHORIZE_MS) turns" and "early \<noteq> turns"
  shows "\<exists>ph q r fs. live_loop env iso_text ws user early p = (ph, q) \<and> live_loop env iso_text ws user turns p = (Ended, r)
    \<and> appended q r fs \<and> set fs \<subseteq> {drainingFrame Session_revoked, drainingFrame Membership_revoked}"
  using assms
proof (induction turns arbitrary: p early)
  case (Cons t turns)
  show ?case
  proof (cases "lt_dueAt t - pd_lastReauthorize p < STREAM_REAUTHORIZE_MS")
    case False
    then obtain q fs where "live_step env iso_text ws user t p = (Ended, q)" "appended p q fs"
      "set fs \<subseteq> {drainingFrame Session_revoked, drainingFrame Membership_revoked}"
      using live_step_refuses [of t p user env iso_text ws] Cons.prems(1) by auto
    then show ?thesis using False Cons.prems(2) by auto
  next
    case True
    obtain ph q where step: "live_step env iso_text ws user t p = (ph, q)" by fastforce
    have same: "pd_lastReauthorize q = pd_lastReauthorize p" by (rule live_step_keeps [OF True step])
    show ?thesis
    proof (cases "ph = Live")
      case True
      with Cons.IH [of _ q] Cons.prems \<open>lt_dueAt t - pd_lastReauthorize p < STREAM_REAUTHORIZE_MS\<close>
      show ?thesis by (simp add: step same)
    next
      case False
      then have "live_loop env iso_text ws user (t # ts) p = (Ended, q)" for ts by (cases ph) (simp_all add: step)
      then show ?thesis using Cons.prems True by (auto simp: appended_def intro!: exI [of _ "[]"])
    qed
  qed
qed simp

section \<open>A removed member\<close>

definition quiet_frames :: "string set" where
  "quiet_frames = {heartbeatFrame, drainingFrame Draining, drainingFrame Membership_revoked, drainingFrame Session_revoked}"

definition adds_quiet :: "producer \<Rightarrow> producer \<Rightarrow> bool" where
  "adds_quiet p q \<longleftrightarrow> (\<exists>fs. appended p q fs \<and> set fs \<subseteq> quiet_frames)"

lemma adds_quiet_refl: "adds_quiet p p"
  by (auto simp: adds_quiet_def appended_def)

lemma adds_quiet_trans: "adds_quiet p q \<Longrightarrow> adds_quiet q r \<Longrightarrow> adds_quiet p r"
  by (fastforce simp: adds_quiet_def appended_def)

lemma adds_quiet_send: "frame \<in> quiet_frames \<Longrightarrow> adds_quiet p q \<Longrightarrow> adds_quiet p (send frame q)"
  by (fastforce simp: adds_quiet_def appended_def send_def)

lemma adds_quiet_upd [simp]:
  "adds_quiet p (await q) = adds_quiet p q" "adds_quiet p (q\<lparr>pd_emptyPolls := x\<rparr>) = adds_quiet p q"
  "adds_quiet p (q\<lparr>pd_lastHeartbeat := y\<rparr>) = adds_quiet p q" "adds_quiet p (q\<lparr>pd_lastReauthorize := y\<rparr>) = adds_quiet p q"
  "adds_quiet p (schedule_poll turn es q) = adds_quiet p q"
  by (simp_all add: adds_quiet_def appended_def await_def schedule_poll_def)

lemma quiet_frames_mem: "heartbeatFrame \<in> quiet_frames" "drainingFrame reason \<in> quiet_frames"
  by (simp add: quiet_frames_def) (cases reason; simp add: quiet_frames_def)

lemmas adds_quiet_sends = adds_quiet_send [OF quiet_frames_mem(1)] adds_quiet_send [OF quiet_frames_mem(2)]

lemma live_step_quiet:
  assumes "resolveProjectAccessScope env (sn_access (lt_snapshot turn)) ws user = None"
  shows "adds_quiet p (snd (live_step env iso_text ws user turn p))"
proof -
  have page: "adds_quiet p (fst (deliver_page env iso_text ws user (lt_snapshot turn) events q))" if "adds_quiet p q" for q events
    using assms that by (simp add: deliver_page_def sendPage_def classifyWorkspaceEventsForUser_def adds_quiet_sends)
  have poll: "adds_quiet p (snd (poll env iso_text ws user turn q))" if "adds_quiet p q" for q
    using that page [of "await q\<lparr>pd_emptyPolls := 0\<rparr>"]
    by (auto simp: poll_def Let_def split: prod.splits bool.splits) (metis fst_conv)+
  have re: "adds_quiet p (snd (reauthorize user turn q))" if "adds_quiet p q" for q
    using that by (auto simp: reauthorize_def Let_def adds_quiet_sends split: sum.splits)
  have close: "adds_quiet p (snd (close_turn turn q))" if "adds_quiet p q" for q
    using that by (auto simp: close_turn_def Let_def adds_quiet_sends)
  have "adds_quiet p (await p)" by (simp add: adds_quiet_refl)
  note r = re [OF this]
  show ?thesis
    using r poll [of "snd (reauthorize user turn (await p))"] close [of "snd (poll env iso_text ws user turn (snd (reauthorize user turn (await p))))"]
    by (auto simp: live_step_def Let_def adds_quiet_refl split: prod.splits producer_phase.splits)
qed

text \<open>C18: a subscriber whose membership row is gone gets no further event from the log, whatever is appended and
  whatever the turns find: only heartbeats and the frames that end a stream.\<close>

theorem removed_member_gets_nothing:
  assumes "list_all (\<lambda>t. role_in (sn_access (lt_snapshot t)) (uuid_in env ws) user = None) turns" and "uuid_in env user = user"
  shows "\<exists>ph q fs. live_loop env iso_text ws user turns p = (ph, q) \<and> appended p q fs
    \<and> set fs \<subseteq> {heartbeatFrame, drainingFrame Draining, drainingFrame Membership_revoked, drainingFrame Session_revoked}"
proof -
  have "adds_quiet p (snd (live_loop env iso_text ws user turns p))" using assms(1)
  proof (induction turns arbitrary: p)
    case (Cons t turns)
    then have "resolveProjectAccessScope env (sn_access (lt_snapshot t)) ws user = None" using scope_None_iff [OF assms(2)] by simp
    then have step: "adds_quiet p (snd (live_step env iso_text ws user t p))" by (rule live_step_quiet)
    moreover have "adds_quiet (snd (live_step env iso_text ws user t p)) (snd (live_loop env iso_text ws user turns (snd (live_step env iso_text ws user t p))))"
      using Cons by simp
    ultimately show ?case using adds_quiet_trans by (auto split: prod.splits producer_phase.splits)
  qed (simp add: adds_quiet_refl)
  then obtain fs where "appended p (snd (live_loop env iso_text ws user turns p)) fs" "set fs \<subseteq> quiet_frames" by (auto simp: adds_quiet_def)
  then show ?thesis by (intro exI [of _ "fst (live_loop env iso_text ws user turns p)"] exI [of _ "snd (live_loop env iso_text ws user turns p)"] exI [of _ fs])
      (simp add: quiet_frames_def)
qed

section \<open>Connections\<close>

text \<open>Streams opening and closing: a stream holds its workspace's slot from a successful \<open>acquire\<close> to its one
  \<open>release\<close> (the route guards against a second). The second component lists the open streams.\<close>

datatype slot_event = Stream_opens nat string | Stream_closes nat

fun slot_step :: "slot_event \<Rightarrow> stream_connections \<times> (nat \<times> string) list \<Rightarrow> stream_connections \<times> (nat \<times> string) list" where
  "slot_step (Stream_opens i ws) (conns, held) =
     (if i \<in> set (map fst held) then (conns, held)
      else let (ok, conns) = connections_acquire ws conns in (conns, if ok then (i, ws) # held else held))"
| "slot_step (Stream_closes i) (conns, held) =
     (case map_of held i of
        None \<Rightarrow> (conns, held)
      | Some ws \<Rightarrow> (connections_release ws conns, filter (\<lambda>h. fst h \<noteq> i) held))"

definition slots_ok :: "stream_connections \<times> (nat \<times> string) list \<Rightarrow> bool" where
  "slots_ok s \<longleftrightarrow> distinct (map fst (snd s)) \<and>
     (\<forall>ws. connections_open ws (fst s) = length (filter (\<lambda>h. snd h = ws) (snd s)) \<and> length (filter (\<lambda>h. snd h = ws) (snd s)) \<le> STREAM_CONNECTION_LIMIT)"

lemma slot_step_ok: "slots_ok s \<Longrightarrow> slots_ok (slot_step e s)"
proof (induction e s rule: slot_step.induct)
  case (1 i ws conns held)
  have o: "connections_open w (conns(ws := Some n)) = (if w = ws then n else connections_open w conns)" for w n
    by (simp add: connections_open_def)
  from 1 show ?case by (auto simp: slots_ok_def connections_acquire_def o Let_def)
next
  case (2 i conns held)
  show ?case
  proof (cases "map_of held i")
    case (Some ws)
    have d: "distinct (map fst held)" and n: "connections_open w conns = length (filter (\<lambda>h. snd h = w) held)" "length (filter (\<lambda>h. snd h = w) held) \<le> STREAM_CONNECTION_LIMIT" for w
      using 2 by (auto simp: slots_ok_def)
    have one: "length (filter (\<lambda>h. snd h = w) held) = length (filter (\<lambda>h. snd h = w) (filter (\<lambda>h. fst h \<noteq> i) held)) + (if w = ws then 1 else 0)" for w
      using d Some
    proof (induction held)
      case (Cons h held)
      have "filter (\<lambda>x. fst x \<noteq> fst h \<and> snd x = w) held = filter (\<lambda>x. snd x = w) held"
        using Cons.prems(1) by (intro filter_cong) (auto simp: image_iff)
      with Cons show ?case by (auto split: if_splits)
    qed simp
    have pos: "0 < connections_open ws conns" using one [of ws] n(1) [of ws] by simp
    then have "connections_open w (connections_release ws conns) = connections_open w conns - (if w = ws then 1 else 0)" for w
      by (auto simp: connections_open_def connections_release_def Let_def split: option.splits)
    moreover have "length (filter (\<lambda>h. snd h = w) (filter (\<lambda>h. fst h \<noteq> i) held)) \<le> STREAM_CONNECTION_LIMIT" for w
      using one [of w] n(2) [of w] by linarith
    ultimately show ?thesis using Some d n(1) one by (auto simp: slots_ok_def distinct_map_filter)
  qed (use 2 in simp)
qed

text \<open>C21: on one server instance no workspace ever holds more than eight streams, the counter is always the number of
  its open streams, and a further stream is refused exactly when eight are open.\<close>

theorem stream_slots_exact:
  "connections_open ws (fst (fold slot_step es (Map.empty, []))) = length (filter (\<lambda>h. snd h = ws) (snd (fold slot_step es (Map.empty, []))))
   \<and> connections_open ws (fst (fold slot_step es (Map.empty, []))) \<le> 8
   \<and> fst (connections_acquire ws (fst (fold slot_step es (Map.empty, []))))
     = (length (filter (\<lambda>h. snd h = ws) (snd (fold slot_step es (Map.empty, [])))) < 8)"
proof -
  have "slots_ok (fold slot_step es s)" if "slots_ok s" for s
    using that by (induction es arbitrary: s) (auto simp: slot_step_ok)
  moreover have "slots_ok (Map.empty, [])" by (simp add: slots_ok_def connections_open_def)
  ultimately have "slots_ok (fold slot_step es (Map.empty, []))" by blast
  then show ?thesis by (auto simp: slots_ok_def connections_acquire_def STREAM_CONNECTION_LIMIT_def Let_def)
qed

section \<open>Witnesses\<close>

text \<open>The sample workspace with two events, and its owner as subscriber; then a member who was removed.\<close>

definition stream_env :: db_env where
  "stream_env = \<lparr>uuid_in = id, new_id = (\<lambda>n. replicate n (CHR ''e'')), clock_ms = 5\<rparr>"

definition stream_db :: product_db where
  "stream_db = run_appends stream_env [sample_event, sample_event] sample_db"

definition stream_snapshot :: snapshot where
  "stream_snapshot = \<lparr>sn_log = stream_db, sn_access = stream_db, sn_related = sample_related, sn_checks = sample_checks, sn_mint = (\<lambda>n. Some (show_nat n))\<rparr>"

definition stream_turn :: live_turn where
  "stream_turn = \<lparr>lt_dueAt = 40000, lt_reauthorizedAt = 40000, lt_pollAt = 40000, lt_polledAt = 40000, lt_endAt = 40000,
     lt_principal = None, lt_allowed = False, lt_snapshot = stream_snapshot\<rparr>"

theorem revocation_is_prompt_witness:
  "\<exists>q. live_loop stream_env (\<lambda>_. []) ''w1'' ''u1'' [stream_turn] (enter_live 0 (new_producer None)) = (Ended, q)
     \<and> set (pd_sent q) \<subseteq> {drainingFrame Session_revoked, drainingFrame Membership_revoked}"
proof -
  let ?p = "enter_live 0 (new_producer None)"
  have e: "takeWhile (\<lambda>t. lt_dueAt t - pd_lastReauthorize ?p < STREAM_REAUTHORIZE_MS) [stream_turn] = []" by code_simp
  have "list_all (\<lambda>t. lt_principal t \<noteq> Some ''u1'' \<or> \<not> lt_allowed t) [stream_turn]" by code_simp
  from revocation_is_prompt [OF this, of "[]" ?p] e show ?thesis by (auto simp: appended_def enter_live_def new_producer_def Let_def)
qed

theorem replay_in_order_witness:
  "\<exists>q zs. replay_loop stream_env (\<lambda>_. []) ''w1'' ''u1'' (replicate 3 stream_snapshot) (new_producer None) = (Live, q)
     \<and> pd_sent q = map (frame_to stream_env (\<lambda>_. []) ''w1'' ''u1'') zs \<and> map (\<lambda>z. vw_workspaceSequence (snd z)) zs = [1, 2] \<and> pd_lastSequence q = 2"
proof -
  have ids: "inj (new_id stream_env)" by (rule injI) (simp add: stream_env_def replicate_eq_replicate)
  have "(log_step stream_env)\<^sup>*\<^sup>* sample_db (sn_log stream_snapshot)"
    using run_appends_steps [of stream_env sample_db "[sample_event, sample_event]"] by (simp add: stream_snapshot_def stream_db_def)
  moreover have "no_events sample_db" by code_simp
  ultimately have w: "log_window stream_env (sn_log stream_snapshot)" using ids log_steps_window by blast
  have ok: "snapshot_ok stream_env ''w1'' ''u1'' stream_snapshot" by code_simp
  have l: "last_sequence (uuid_in stream_env ''w1'') (sequence_rows (sn_log stream_snapshot)) = 2" by code_simp
  have "{Suc 0..2} \<subseteq> ev_workspaceSequence ` set (events_of (uuid_in stream_env ''w1'') (sn_log stream_snapshot))" by code_simp
  then have r: "retains stream_env ''w1'' 0 stream_snapshot" using w ok by (simp add: retains_def snapshot_ok_def l)
  then have rs: "list_all (retains stream_env ''w1'' 0) (replicate 3 stream_snapshot)" by (simp add: list_all_iff)
  have user: "uuid_in stream_env ''u1'' = ''u1''" and start: "pd_lastSequence (new_producer None) = int 0" "pd_sent (new_producer None) = []" "pd_stop (new_producer None) = None"
    by (simp_all add: stream_env_def new_producer_def)
  let ?rows = "rows_after stream_env (sn_log stream_snapshot) ''w1'' (int 0)"
  have seqs: "map ev_workspaceSequence ?rows = [1, 2]" using retained_sequences [OF r order_refl] l by (simp add: upt_rec)
  then have rows: "?rows \<noteq> []" "length ?rows < 3" "ev_workspaceSequence (last ?rows) = 2"
    using last_map [of ?rows ev_workspaceSequence] arg_cong [OF seqs, of length] by auto
  obtain ph q where run: "replay_loop stream_env (\<lambda>_. []) ''w1'' ''u1'' (replicate 3 stream_snapshot) (new_producer None) = (ph, q)" by fastforce
  then have q: "ph = Live" "pd_lastSequence q = 2"
    using replay_loop_complete [OF w ok start(3), of 3 "\<lambda>_. []"] rows start(1) by auto
  moreover have "[Suc 0..<Suc (0 + 2)] = [1, 2]" by (simp add: upt_rec)
  ultimately show ?thesis using replay_in_order [OF rs user start(1) run] run start(2) by fastforce
qed

theorem removed_member_gets_nothing_witness:
  "\<exists>ph q. live_loop stream_env (\<lambda>_. []) ''w1'' ''u9'' [stream_turn\<lparr>lt_principal := Some ''u9'', lt_allowed := True\<rparr>] (enter_live 0 (new_producer None)) = (ph, q)
     \<and> set (pd_sent q) \<subseteq> {heartbeatFrame, drainingFrame Draining, drainingFrame Membership_revoked, drainingFrame Session_revoked}"
proof -
  let ?t = "stream_turn\<lparr>lt_principal := Some ''u9'', lt_allowed := True\<rparr>"
  have "list_all (\<lambda>t. role_in (sn_access (lt_snapshot t)) (uuid_in stream_env ''w1'') ''u9'' = None) [?t]" by code_simp
  moreover have "uuid_in stream_env ''u9'' = ''u9''" by code_simp
  ultimately show ?thesis using removed_member_gets_nothing [of stream_env "''w1''" "''u9''" "[?t]" "\<lambda>_. []" "enter_live 0 (new_producer None)"]
    by (auto simp: appended_def enter_live_def new_producer_def Let_def)
qed

end
