(* ===== verification/Event_Client.thy ===== *)
theory Event_Client
  imports Event_Stream Json_Parse
begin

text \<open>
  The client of the workspace event stream, \<^verbatim>\<open>packages/data/src/events.ts\<close>: which query groups an event
  refreshes, the parser of the stream text, and the handling of a frame by the subscription with its cursor,
  its stored resume token and its queue of refreshes. Calls to the query client and to the hooks of the
  options are recorded as effects. The texts that \<open>reader.read\<close> and the streaming decoder yield are an input
  list. An envelope is a JSON object with an integer sequence and a type, as the server writes it; a text that is no
  such object is ignored, and of the texts \<open>Number\<close> reads only decimal integers are numbers here.
\<close>

section \<open>Query groups\<close>

type_synonym query_key = "string list"

definition workspaceScopeKeys :: "string \<Rightarrow> query_key list" where
  "workspaceScopeKeys ws = [[''workspaces'', ws]]"

definition account_all :: query_key where "account_all = [''account'']"
definition account_summary :: query_key where "account_summary = [''account'', ''summary'']"
definition account_directoryAll :: query_key where "account_directoryAll = [''account'', ''directory'']"
definition account_inboxAll :: query_key where "account_inboxAll = [''account'', ''inbox'']"

definition group_key :: "string \<Rightarrow> string \<Rightarrow> query_key" where
  "group_key ws g = [''workspaces'', ws, g]"

definition queryKeysForEvent :: "string \<Rightarrow> string \<Rightarrow> query_key list" where
  "queryKeysForEvent ws eventType =
     (if eventType = ''project.visibility_changed'' \<or> eventType = ''project.members_changed''
      then workspaceScopeKeys ws @ [account_inboxAll]
      else let family = family_of eventType in
        if family = ''runtime_node'' then [group_key ws ''runtime-nodes'']
        else if family = ''message'' then
          [group_key ws ''messages'', group_key ws ''channels'', group_key ws ''read-state'', group_key ws ''tasks'', account_summary, account_inboxAll]
        else if family = ''channel'' then
          [group_key ws ''channels'', group_key ws ''read-state'', group_key ws ''projects'', account_summary, account_inboxAll]
        else if family = ''thread'' then [group_key ws ''read-state'', group_key ws ''channels'', account_summary, account_inboxAll]
        else if family = ''project'' then [group_key ws ''projects'', group_key ws ''channels'']
        else if family = ''agent'' then [group_key ws ''agents'', account_directoryAll]
        else if family = ''artifact'' then [group_key ws ''artifacts'', group_key ws ''tasks'']
        else if family = ''content'' then [group_key ws ''artifacts'']
        else if family = ''task'' then [group_key ws ''tasks'']
        else if family = ''workspace'' then [[''workspaces'', ws], [''workspaces'', ''list''], [''workspaces'', ''detail'', ws]]
        else [[''workspaces'', ws]])"

section \<open>The stream text\<close>

record sse_frame =
  sf_data :: string
  sf_event :: string
  sf_id :: "string option"
  sf_retryMs :: "int option"

text \<open>\<open>lastIndexOf('\n\n')\<close> and \<open>split('\n\n')\<close>.\<close>

definition last_blank :: "string \<Rightarrow> nat option" where
  "last_blank s =
     (let ps = filter (\<lambda>i. s ! i = LF \<and> s ! Suc i = LF) [0..<length s - 1] in if ps = [] then None else Some (last ps))"

fun split_blank :: "string \<Rightarrow> string list" where
  "split_blank (a # b # s) =
     (if a = LF \<and> b = LF then [] # split_blank s
      else (case split_blank (b # s) of [] \<Rightarrow> [[a]] | l # ls \<Rightarrow> (a # l) # ls))"
| "split_blank s = [s]"

text \<open>\<open>Number(text)\<close> for decimal integers; the result is kept when it is a safe integer.\<close>

definition max_safe :: int where "max_safe = 2 ^ 53 - 1"

definition safe_number :: "string \<Rightarrow> int option" where
  "safe_number text =
     (let s = js_trim text; neg = (s \<noteq> [] \<and> hd s = CHR ''-'');
          ds = (if s \<noteq> [] \<and> (hd s = CHR ''-'' \<or> hd s = CHR ''+'') then tl s else s);
          n = (if neg then - int (digits_value 0 ds) else int (digits_value 0 ds)) in
      if s = [] then Some 0
      else if ds = [] \<or> \<not> list_all is_digit ds \<or> \<bar>n\<bar> > max_safe then None
      else Some n)"

text \<open>One line of a frame.\<close>

definition parse_line :: "sse_frame \<Rightarrow> string \<Rightarrow> sse_frame" where
  "parse_line f line =
     (let field = takeWhile (\<lambda>c. c \<noteq> CHR '':'') line;
          value = dropWhile is_js_space (drop (Suc (length field)) line) in
      if field = [] \<or> field = line then f
      else if field = ''data'' then f\<lparr>sf_data := (if sf_data f \<noteq> [] then sf_data f @ [LF] @ value else value)\<rparr>
      else if field = ''event'' then f\<lparr>sf_event := value\<rparr>
      else if field = ''id'' then f\<lparr>sf_id := Some value\<rparr>
      else if field = ''retry'' then f\<lparr>sf_retryMs := (case safe_number value of Some n \<Rightarrow> if n \<ge> 0 then Some n else None | None \<Rightarrow> None)\<rparr>
      else f)"

definition parse_block :: "string \<Rightarrow> sse_frame list" where
  "parse_block block =
     (let f = foldl parse_line \<lparr>sf_data = [], sf_event = ''message'', sf_id = None, sf_retryMs = None\<rparr> (split_on LF block) in
      if sf_data f \<noteq> [] \<or> sf_retryMs f \<noteq> None then [f] else [])"

definition parseEventFrames :: "string \<Rightarrow> sse_frame list" where
  "parseEventFrames chunk =
     (case last_blank chunk of None \<Rightarrow> [] | Some n \<Rightarrow> concat (map parse_block (split_blank (take n chunk))))"

section \<open>The subscription\<close>

datatype cursor_storage = No_storage | Failing_storage | Stored "(string \<times> string) list"

fun get_item :: "cursor_storage \<Rightarrow> string \<Rightarrow> string option" where
  "get_item (Stored m) k = map_of m k"
| "get_item _ k = None"

fun set_item :: "string \<Rightarrow> string \<Rightarrow> cursor_storage \<Rightarrow> cursor_storage" where
  "set_item k v (Stored m) = Stored ((k, v) # filter (\<lambda>e. fst e \<noteq> k) m)"
| "set_item k v st = st"

datatype diagnostic = D_connected | D_disconnected | D_gap | D_resync | D_applied

datatype client_effect =
    Invalidate query_key
  | Clear_audience
  | Audience_hook
  | Diagnose diagnostic int "string option"

record client =
  cl_workspace :: string
  cl_applied :: int
  cl_resume :: string
  cl_serverRetryMs :: "int option"
  cl_pending :: "(string \<times> query_key) list"
  cl_storage :: cursor_storage
  cl_effects :: "client_effect list"

definition cursor_key :: "string \<Rightarrow> string" where "cursor_key ws = ''adea:workspace-events-cursor:'' @ ws"
definition cursor_token_key :: "string \<Rightarrow> string" where "cursor_token_key ws = ''adea:workspace-events-resume:'' @ ws"

definition readCursor :: "string \<Rightarrow> cursor_storage \<Rightarrow> int" where
  "readCursor ws storage =
     (case get_item storage (cursor_key ws) of
        None \<Rightarrow> 0
      | Some s \<Rightarrow> if s = [] then 0 else (case safe_number s of Some n \<Rightarrow> if n > 0 then n else 0 | None \<Rightarrow> 0))"

definition token_shape :: "string \<Rightarrow> bool" where
  "token_shape s = (case split_on (CHR ''.'') s of
     [a, b] \<Rightarrow> a \<noteq> [] \<and> b \<noteq> [] \<and> list_all token_char a \<and> list_all token_char b | _ \<Rightarrow> False)"

definition readCursorToken :: "string \<Rightarrow> cursor_storage \<Rightarrow> string" where
  "readCursorToken ws storage =
     (case get_item storage (cursor_token_key ws) of None \<Rightarrow> [] | Some s \<Rightarrow> if s \<noteq> [] \<and> token_shape s then s else [])"

definition persistCursorToken :: "string \<Rightarrow> client \<Rightarrow> client" where
  "persistCursorToken token c =
     (if token = [] then c else c\<lparr>cl_resume := token, cl_storage := set_item (cursor_token_key (cl_workspace c)) token (cl_storage c)\<rparr>)"

definition persistCursor :: "int \<Rightarrow> client \<Rightarrow> client" where
  "persistCursor sequence c =
     c\<lparr>cl_applied := sequence, cl_storage := set_item (cursor_key (cl_workspace c)) (show_int sequence) (cl_storage c)\<rparr>"

definition add_effect :: "client_effect \<Rightarrow> client \<Rightarrow> client" where
  "add_effect e c = c\<lparr>cl_effects := cl_effects c @ [e]\<rparr>"

definition diagnostics :: "diagnostic \<Rightarrow> string option \<Rightarrow> client \<Rightarrow> client" where
  "diagnostics d reason c = add_effect (Diagnose d (cl_applied c) reason) c"

text \<open>A \<open>Map\<close> keyed by the serialised key: an entry set again keeps its place.\<close>

definition key_text :: "query_key \<Rightarrow> string" where
  "key_text key = stringify (Json_arr (map Json_str key))"

definition queue_key :: "query_key \<Rightarrow> (string \<times> query_key) list \<Rightarrow> (string \<times> query_key) list" where
  "queue_key key pending =
     (let text = key_text key in
      if text \<in> set (map fst pending) then map (\<lambda>(t, k). if t = text then (t, key) else (t, k)) pending else pending @ [(text, key)])"

definition refresh :: "query_key list \<Rightarrow> client \<Rightarrow> client" where
  "refresh keys c = c\<lparr>cl_pending := foldl (\<lambda>p k. queue_key k p) (cl_pending c) keys\<rparr>"

definition flushRefresh :: "client \<Rightarrow> client" where
  "flushRefresh c = c\<lparr>cl_pending := [], cl_effects := cl_effects c @ map (\<lambda>(t, k). Invalidate k) (cl_pending c)\<rparr>"

definition scope_and_account :: "client \<Rightarrow> query_key list" where
  "scope_and_account c = workspaceScopeKeys (cl_workspace c) @ [account_directoryAll, account_inboxAll]"

definition resync :: "string \<Rightarrow> client \<Rightarrow> client" where
  "resync reason c = refresh (scope_and_account c) (diagnostics D_resync (Some reason) c)"

text \<open>The three parts of \<open>applyEvent\<close>: erasing what an audience change made private, a gap, the next event.\<close>

definition clear_audience :: "client \<Rightarrow> client" where
  "clear_audience c =
     refresh (workspaceScopeKeys (cl_workspace c) @ [account_all]) (add_effect Audience_hook (add_effect Clear_audience c))"

definition record_gap :: "int \<Rightarrow> client \<Rightarrow> client" where
  "record_gap sequence c =
     (let c = persistCursor sequence c in
      refresh (scope_and_account c) (diagnostics D_gap (Some (''missing '' @ show_int (sequence - cl_applied c - 1))) c))"

definition record_applied :: "int \<Rightarrow> string \<Rightarrow> bool \<Rightarrow> client \<Rightarrow> client" where
  "record_applied sequence eventType withheld c =
     (let c = diagnostics D_applied None (persistCursor sequence c) in
      if withheld then c else refresh (queryKeysForEvent (cl_workspace c) eventType) c)"

definition applyEvent :: "int \<Rightarrow> string \<Rightarrow> bool \<Rightarrow> bool \<Rightarrow> client \<Rightarrow> client" where
  "applyEvent sequence eventType withheld audienceChanged c =
     (if sequence \<le> cl_applied c then c
      else let c = (if audienceChanged then clear_audience c else c) in
        if sequence > cl_applied c + 1 \<and> cl_applied c > 0 then record_gap sequence c
        else record_applied sequence eventType withheld c)"

definition json_int :: "json option \<Rightarrow> int option" where
  "json_int v = (case v of Some (Json_int n) \<Rightarrow> Some n | _ \<Rightarrow> None)"

definition persist_id :: "string option \<Rightarrow> client \<Rightarrow> client" where
  "persist_id i c = (case i of None \<Rightarrow> c | Some token \<Rightarrow> persistCursorToken token c)"

text \<open>The frames that carry only a sequence.\<close>

definition handle_withheld :: "sse_frame \<Rightarrow> client \<Rightarrow> client" where
  "handle_withheld frame c =
     (case json_parse (sf_data frame) of
        Some (Json_obj fs) \<Rightarrow>
          (case json_int (json_field fs ''workspaceSequence'') of
             Some n \<Rightarrow>
               if length (remdups (map fst fs)) = 1 \<and> \<bar>n\<bar> \<le> max_safe \<and> n > 0
               then persist_id (sf_id frame) (applyEvent n ''withheld'' True (sf_event frame = ''workspace.audience_changed'') c)
               else c
           | None \<Rightarrow> c)
      | _ \<Rightarrow> c)"

definition handle_event :: "sse_frame \<Rightarrow> client \<Rightarrow> client" where
  "handle_event frame c =
     (let c = persist_id (sf_id frame) c in
      case json_parse (sf_data frame) of
        Some (Json_obj fs) \<Rightarrow>
          (case (json_int (json_field fs ''workspaceSequence''), json_field fs ''eventType'') of
             (Some n, Some (Json_str t)) \<Rightarrow> applyEvent n t False False c
           | _ \<Rightarrow> c)
      | _ \<Rightarrow> c)"

text \<open>The second component is true when \<open>StreamUnavailable\<close> was thrown.\<close>

definition handleFrame :: "sse_frame \<Rightarrow> client \<Rightarrow> client \<times> bool" where
  "handleFrame frame c =
     (let c = (case sf_retryMs frame of None \<Rightarrow> c | Some n \<Rightarrow> c\<lparr>cl_serverRetryMs := Some n\<rparr>) in
      if sf_event frame = ''resync_required'' then (resync ''server'' (persist_id (sf_id frame) c), False)
      else if sf_event frame = ''stream_unavailable'' then (c, True)
      else if sf_event frame = ''workspace.withheld'' \<or> sf_event frame = ''workspace.audience_changed'' then (handle_withheld frame c, False)
      else if sf_event frame \<noteq> ''workspace.event'' then (c, False)
      else (handle_event frame c, False))"

fun handle_frames :: "sse_frame list \<Rightarrow> client \<Rightarrow> client \<times> bool" where
  "handle_frames [] c = (c, False)"
| "handle_frames (f # fs) c = (case handleFrame f c of (c, True) \<Rightarrow> (c, True) | (c, False) \<Rightarrow> handle_frames fs c)"

text \<open>The reading loop: the undecoded rest stays in the buffer, refreshes are flushed once per chunk.\<close>

fun read_chunks :: "string list \<Rightarrow> string \<Rightarrow> client \<Rightarrow> client" where
  "read_chunks [] buffer c = c"
| "read_chunks (text # texts) buffer c =
     (let buffer = buffer @ text in
      case last_blank buffer of
        None \<Rightarrow> read_chunks texts buffer c
      | Some n \<Rightarrow>
          (case handle_frames (parseEventFrames (take (n + 2) buffer)) c of
             (c, True) \<Rightarrow> c
           | (c, False) \<Rightarrow> read_chunks texts (drop (n + 2) buffer) (flushRefresh c)))"

definition connect :: "string list \<Rightarrow> client \<Rightarrow> client" where
  "connect texts c = diagnostics D_disconnected None (flushRefresh (read_chunks texts [] (diagnostics D_connected None c)))"

section \<open>Framing\<close>

fun has_blank :: "string \<Rightarrow> bool" where
  "has_blank (a # b # s) \<longleftrightarrow> (a = LF \<and> b = LF) \<or> has_blank (b # s)"
| "has_blank s \<longleftrightarrow> False"

lemma has_blank_iff: "has_blank s \<longleftrightarrow> (\<exists>i. Suc i < length s \<and> s ! i = LF \<and> s ! Suc i = LF)"
proof (induction s rule: has_blank.induct)
  case (1 a b s)
  have "(\<exists>i. Suc i < length (a # b # s) \<and> (a # b # s) ! i = LF \<and> (a # b # s) ! Suc i = LF)
      \<longleftrightarrow> (a = LF \<and> b = LF) \<or> (\<exists>i. Suc i < length (b # s) \<and> (b # s) ! i = LF \<and> (b # s) ! Suc i = LF)"
    by (rule iffI; elim exE disjE conjE) (metis Suc_less_eq length_Cons nth_Cons_0 nth_Cons_Suc old.nat.exhaust not0_implies_Suc, auto)
  with 1 show ?case by simp
qed auto

lemma last_blank_None: "last_blank s = None \<longleftrightarrow> \<not> has_blank s"
  by (auto simp: last_blank_def has_blank_iff Let_def filter_empty_conv)

lemma last_blank_at:
  assumes "\<not> has_blank (LF # r)"
  shows "last_blank (x @ [LF, LF] @ r) = Some (length x)"
proof -
  let ?s = "x @ [LF, LF] @ r"
  let ?P = "\<lambda>i. ?s ! i = LF \<and> ?s ! Suc i = LF"
  have k: "[0..<length ?s - 1] = [0..<length x] @ length x # [Suc (length x)..<length ?s - 1]"
    using upt_add_eq_append [of 0 "length x" "Suc (length r)"] by (simp add: upt_conv_Cons del: upt_Suc)
  have "\<not> ?P i" if "Suc (length x) \<le> i" "i < length ?s - 1" for i
  proof
    assume "?P i"
    moreover have "?s ! i = (LF # r) ! (i - Suc (length x))" "?s ! Suc i = (LF # r) ! Suc (i - Suc (length x))"
      using that(1) by (auto simp: nth_append Suc_diff_le nth_Cons')
    ultimately have "has_blank (LF # r)" unfolding has_blank_iff using that by (intro exI [of _ "i - Suc (length x)"]) auto
    with assms show False by blast
  qed
  then have none: "filter ?P [Suc (length x)..<length ?s - 1] = []" by (auto simp: filter_empty_conv)
  have "?P (length x)" by (simp add: nth_append)
  then have "filter ?P [0..<length ?s - 1] = filter ?P [0..<length x] @ [length x]" unfolding k filter_append by (simp only: filter.simps none if_True simp_thms)
  then show ?thesis by (simp add: last_blank_def Let_def)
qed

text \<open>The body of a frame: no blank line inside, none at its ends.\<close>

definition frame_body :: "string \<Rightarrow> bool" where
  "frame_body b \<longleftrightarrow> b \<noteq> [] \<and> \<not> has_blank ([LF] @ b @ [LF])"

abbreviation closed :: "string \<Rightarrow> string" where
  "closed b \<equiv> b @ [LF, LF]"

lemma split_blank_body:
  assumes "\<not> has_blank b" "b = [] \<or> last b \<noteq> LF"
  shows "split_blank (b @ [LF, LF] @ s) = b # split_blank s" "split_blank b = [b]"
proof -
  show "split_blank b = [b]" using assms(1) by (induction b rule: split_blank.induct) auto
  show "split_blank (b @ [LF, LF] @ s) = b # split_blank s" using assms
    by (induction b rule: has_blank.induct) auto
qed

lemma has_blank_append: "\<not> has_blank (a @ b) \<Longrightarrow> \<not> has_blank a \<and> \<not> has_blank b"
  by (induction a rule: has_blank.induct) (auto elim: has_blank.elims)

lemma frame_bodyD:
  assumes "frame_body b"
  shows "b \<noteq> []" "\<not> has_blank b" "last b \<noteq> LF" "\<not> has_blank (LF # b @ [LF])"
proof -
  show "b \<noteq> []" "\<not> has_blank (LF # b @ [LF])" using assms by (simp_all add: frame_body_def)
  have h: "\<not> has_blank (b @ [LF])" using has_blank_append [of "[LF]" "b @ [LF]"] assms by (simp add: frame_body_def)
  then show "\<not> has_blank b" using has_blank_append by blast
  obtain b' z where b: "b = b' @ [z]" using \<open>b \<noteq> []\<close> by (cases b rule: rev_cases) auto
  from h have "\<not> has_blank ([z] @ [LF])" using has_blank_append [of b' "[z, LF]"] by (simp add: b)
  then show "last b \<noteq> LF" by (simp add: b)
qed

text \<open>What was received ends inside a frame: complete frames, and a rest without a blank line.\<close>

lemma received_prefix:
  assumes "list_all frame_body bs" and "buffer @ rest = concat (map closed bs)"
  shows "\<exists>fin todo part. bs = fin @ todo \<and> buffer = concat (map closed fin) @ part \<and> \<not> has_blank (LF # part) \<and> part @ rest = concat (map closed todo)"
  using assms
proof (induction bs arbitrary: buffer)
  case (Cons b bs)
  from Cons.prems(2) have "buffer @ rest = closed b @ concat (map closed bs)" by simp
  from iffD1 [OF append_eq_append_conv2 this] obtain vs where vs:
    "buffer = closed b @ vs \<and> vs @ rest = concat (map closed bs) \<or> buffer @ vs = closed b \<and> rest = vs @ concat (map closed bs)" by blast
  have "\<exists>us. buffer = closed b @ us \<and> us @ rest = concat (map closed bs) \<or> buffer @ us = closed b \<and> us \<noteq> []"
  proof (cases "vs = []")
    case True
    with vs show ?thesis by (intro exI [of _ "[]"]) auto
  next
    case False
    with vs show ?thesis by (intro exI [of _ vs]) auto
  qed
  then obtain us where "buffer = closed b @ us \<and> us @ rest = concat (map closed bs) \<or> buffer @ us = closed b \<and> us \<noteq> []" ..
  then show ?case
  proof (elim disjE conjE)
    assume b': "buffer = closed b @ us" and "us @ rest = concat (map closed bs)"
    with Cons.IH [of us] Cons.prems(1) obtain fin todo part where "bs = fin @ todo" "us = concat (map closed fin) @ part"
      "\<not> has_blank (LF # part)" "part @ rest = concat (map closed todo)" by auto
    then show ?thesis by (intro exI [of _ "b # fin"] exI [of _ todo] exI [of _ part]) (simp add: b')
  next
    assume split: "buffer @ us = closed b" and "us \<noteq> []"
    then obtain u z where us: "us = u @ [z]" by (cases us rule: rev_cases) auto
    with split have "(buffer @ u) @ [z] = (b @ [LF]) @ [LF]" by simp
    then have u: "LF # b @ [LF] = (LF # buffer) @ u" by simp
    have "\<not> has_blank (LF # b @ [LF])" using Cons.prems(1) frame_bodyD(4) [of b] by simp
    then have "\<not> has_blank (LF # buffer)" unfolding u using has_blank_append by blast
    then show ?thesis using Cons.prems(2) by (intro exI [of _ "[]"] exI [of _ "b # bs"] exI [of _ buffer]) simp
  qed
qed simp

lemma parse_closed:
  assumes "list_all frame_body bs"
  shows "parseEventFrames (concat (map closed bs)) = concat (map parse_block bs)"
proof (cases bs rule: rev_cases)
  case Nil
  then show ?thesis by (simp add: parseEventFrames_def last_blank_def)
next
  case (snoc cs b)
  have split: "split_blank (concat (map closed cs) @ b) = cs @ [b]"
    using assms unfolding snoc by (induction cs) (auto simp: split_blank_body [simplified] frame_bodyD)
  have "last_blank (concat (map closed bs)) = Some (length (concat (map closed cs) @ b))"
    using last_blank_at [of "[]" "concat (map closed cs) @ b"] by (simp add: snoc)
  then show ?thesis by (simp add: parseEventFrames_def snoc split)
qed

section \<open>What a client has seen, whatever the chunks\<close>

text \<open>Everything but when queued refreshes are flushed: \<open>w_keys\<close> holds the queued and the flushed groups.\<close>

record client_view =
  w_workspace :: string
  w_applied :: int
  w_resume :: string
  w_retry :: "int option"
  w_storage :: cursor_storage
  w_notes :: "client_effect list"
  w_keys :: "query_key set"

fun is_invalidate :: "client_effect \<Rightarrow> bool" where
  "is_invalidate (Invalidate _) = True"
| "is_invalidate _ = False"

definition view_of :: "client \<Rightarrow> client_view" where
  "view_of c = \<lparr>w_workspace = cl_workspace c, w_applied = cl_applied c, w_resume = cl_resume c, w_retry = cl_serverRetryMs c,
     w_storage = cl_storage c, w_notes = filter (\<lambda>e. \<not> is_invalidate e) (cl_effects c),
     w_keys = snd ` set (cl_pending c) \<union> {k. Invalidate k \<in> set (cl_effects c)}\<rparr>"

definition queued :: "(string \<times> query_key) list \<Rightarrow> bool" where
  "queued p \<longleftrightarrow> list_all (\<lambda>(t, k). t = key_text k) p"

lemma key_text_inj: "key_text k = key_text l \<longleftrightarrow> k = l"
proof -
  have "map Json_str k = map Json_str l \<longleftrightarrow> k = l" by (rule inj_map_eq_map) (simp add: inj_def)
  then show ?thesis unfolding key_text_def stringify_inj by simp
qed

lemma queue_key_keeps:
  assumes "queued p"
  shows "queued (queue_key k p)" "snd ` set (queue_key k p) = insert k (snd ` set p)"
proof -
  let ?t = "key_text k"
  have same: "map (\<lambda>(t, l). if t = ?t then (t, k) else (t, l)) p = p"
    using assms by (intro map_idI) (auto simp: queued_def list_all_iff key_text_inj)
  have "k \<in> snd ` set p" if "?t \<in> set (map fst p)"
    using assms that by (force simp: queued_def list_all_iff key_text_inj)
  then show "queued (queue_key k p)" "snd ` set (queue_key k p) = insert k (snd ` set p)"
    using assms by (auto simp: queue_key_def Let_def same queued_def)
qed

lemma refresh_view:
  assumes "queued (cl_pending c)"
  shows "queued (cl_pending (refresh ks c))" "view_of (refresh ks c) = (view_of c)\<lparr>w_keys := w_keys (view_of c) \<union> set ks\<rparr>"
proof -
  have "queued (foldl (\<lambda>p k. queue_key k p) p ks) \<and> snd ` set (foldl (\<lambda>p k. queue_key k p) p ks) = snd ` set p \<union> set ks" if "queued p" for p
    using that by (induction ks arbitrary: p) (auto simp: queue_key_keeps)
  from this [OF assms] show "queued (cl_pending (refresh ks c))" "view_of (refresh ks c) = (view_of c)\<lparr>w_keys := w_keys (view_of c) \<union> set ks\<rparr>"
    by (auto simp: refresh_def view_of_def)
qed

lemma flush_view: "queued (cl_pending (flushRefresh c))" "view_of (flushRefresh c) = view_of c"
  by (simp add: flushRefresh_def queued_def)
     (force simp: flushRefresh_def view_of_def filter_empty_conv)

definition same_view :: "client \<Rightarrow> client \<Rightarrow> bool" where
  "same_view c d \<longleftrightarrow> queued (cl_pending c) \<and> queued (cl_pending d) \<and> view_of c = view_of d"

lemma same_fields:
  assumes "same_view c d"
  shows "cl_workspace c = cl_workspace d" "cl_applied c = cl_applied d" "cl_resume c = cl_resume d" "cl_storage c = cl_storage d"
  using assms by (simp_all add: same_view_def view_of_def)

lemma same_refresh: "same_view c d \<Longrightarrow> same_view (refresh ks c) (refresh ks d)"
  by (simp add: same_view_def refresh_view)

lemma same_effect: "same_view c d \<Longrightarrow> \<not> is_invalidate e \<Longrightarrow> same_view (add_effect e c) (add_effect e d)"
  by (cases e) (auto simp: same_view_def view_of_def add_effect_def)

lemma same_diagnostics: "same_view c d \<Longrightarrow> same_view (diagnostics g r c) (diagnostics g r d)"
  by (simp add: diagnostics_def same_fields(2) same_effect)

lemma same_persist:
  "same_view c d \<Longrightarrow> same_view (persistCursor n c) (persistCursor n d)"
  "same_view c d \<Longrightarrow> same_view (persistCursorToken t c) (persistCursorToken t d)"
  by (auto simp: same_view_def view_of_def persistCursor_def persistCursorToken_def)

lemma same_persist_id: "same_view c d \<Longrightarrow> same_view (persist_id i c) (persist_id i d)"
  by (simp add: persist_id_def same_persist split: option.split)

lemmas same_intros = same_refresh same_effect same_diagnostics same_persist same_persist_id

lemma same_clear: "same_view c d \<Longrightarrow> same_view (clear_audience c) (clear_audience d)"
  by (simp add: clear_audience_def same_fields(1) same_intros)

lemma persist_fields [simp]: "cl_applied (persistCursor n c) = n" "cl_workspace (persistCursor n c) = cl_workspace c"
  "cl_workspace (diagnostics g r c) = cl_workspace c"
  by (simp_all add: persistCursor_def diagnostics_def add_effect_def)

lemma same_record:
  "same_view c d \<Longrightarrow> same_view (record_gap n c) (record_gap n d)"
  "same_view c d \<Longrightarrow> same_view (record_applied n t wh c) (record_applied n t wh d)"
  by (simp_all add: record_gap_def record_applied_def scope_and_account_def Let_def same_fields(1) same_intros)

lemma same_apply: "same_view c d \<Longrightarrow> same_view (applyEvent n t wh aud c) (applyEvent n t wh aud d)"
proof -
  assume s: "same_view c d"
  then have p: "same_view (if aud then clear_audience c else c) (if aud then clear_audience d else d)" by (simp add: same_clear)
  show ?thesis unfolding applyEvent_def Let_def same_fields(2) [OF s] same_fields(2) [OF p]
    using s p by (simp add: same_record)
qed

lemma same_handle:
  assumes "same_view c d"
  shows "same_view (fst (handleFrame f c)) (fst (handleFrame f d))" "snd (handleFrame f c) = snd (handleFrame f d)"
proof -
  let ?r = "\<lambda>c. case sf_retryMs f of None \<Rightarrow> c | Some n \<Rightarrow> c\<lparr>cl_serverRetryMs := Some n\<rparr>"
  have r: "same_view (?r c) (?r d)" using assms by (auto simp: same_view_def view_of_def split: option.split)
  have "same_view (handle_withheld f (?r c)) (handle_withheld f (?r d))" "same_view (handle_event f (?r c)) (handle_event f (?r d))"
    using r by (auto simp: handle_withheld_def handle_event_def Let_def same_intros same_apply split: option.split json.split)
  moreover have "same_view (resync x (persist_id i (?r c))) (resync x (persist_id i (?r d)))" for x i
    using same_persist_id [OF r, of i] by (simp add: resync_def scope_and_account_def same_fields(1) same_intros)
  ultimately show "same_view (fst (handleFrame f c)) (fst (handleFrame f d))" using r by (simp add: handleFrame_def Let_def)
  show "snd (handleFrame f c) = snd (handleFrame f d)" by (simp add: handleFrame_def Let_def)
qed

lemma same_handle_frames:
  "same_view c d \<Longrightarrow> same_view (fst (handle_frames fs c)) (fst (handle_frames fs d)) \<and> snd (handle_frames fs c) = snd (handle_frames fs d)"
proof (induction fs arbitrary: c d)
  case (Cons f fs)
  show ?case using Cons.IH [OF same_handle(1) [OF Cons.prems, of f]] same_handle [OF Cons.prems, of f]
    by (cases "handleFrame f c"; cases "handleFrame f d") (auto split: bool.splits)
qed simp

lemma handle_frames_append:
  "handle_frames (fs @ gs) c = (case handle_frames fs c of (c, True) \<Rightarrow> (c, True) | (c, False) \<Rightarrow> handle_frames gs c)"
  by (induction fs arbitrary: c) (auto split: prod.splits bool.splits)

lemma same_refl: "queued (cl_pending c) \<Longrightarrow> same_view c c"
  by (simp add: same_view_def)

lemma same_flush: "same_view c d \<Longrightarrow> same_view (flushRefresh c) d"
  by (simp add: same_view_def flush_view)

lemma read_chunks_view:
  assumes "list_all frame_body bs" and "buffer @ concat texts = concat (map closed bs)" and "\<not> has_blank (LF # buffer)" and "same_view c d"
  shows "same_view (read_chunks texts buffer c) (fst (handle_frames (concat (map parse_block bs)) d))"
  using assms
proof (induction texts arbitrary: buffer bs c d)
  case Nil
  have "bs = []"
  proof (cases bs rule: rev_cases)
    case (snoc cs b)
    with Nil.prems(2) have "buffer = (concat (map closed cs) @ b) @ [LF, LF]" by simp
    then have "has_blank buffer" using has_blank_append [of "concat (map closed cs) @ b" "[LF, LF]"] by auto
    then show ?thesis using Nil.prems(3) has_blank_append [of "[LF]" buffer] by simp
  qed simp
  then show ?case using Nil.prems(4) by simp
next
  case (Cons chunk texts)
  have all: "(buffer @ chunk) @ concat texts = concat (map closed bs)" using Cons.prems(2) by simp
  from received_prefix [OF Cons.prems(1) all] obtain fin todo part where d: "bs = fin @ todo" "buffer @ chunk = concat (map closed fin) @ part"
    "\<not> has_blank (LF # part)" "part @ concat texts = concat (map closed todo)" by blast
  have bodies: "list_all frame_body fin" "list_all frame_body todo" using Cons.prems(1) by (simp_all add: d(1))
  show ?case
  proof (cases fin rule: rev_cases)
    case Nil
    then have "last_blank (buffer @ chunk) = None" using d(2,3) has_blank_append [of "[LF]" part] by (simp add: last_blank_None)
    then show ?thesis using Cons.IH [OF bodies(2) d(4,3) Cons.prems(4)] d(1,2) Nil by simp
  next
    case (snoc cs b)
    let ?n = "length (concat (map closed cs) @ b)"
    have split: "buffer @ chunk = (concat (map closed cs) @ b) @ [LF, LF] @ part" by (simp add: d(2) snoc)
    have n: "last_blank (buffer @ chunk) = Some ?n" unfolding split by (rule last_blank_at [OF d(3)])
    have parts: "take (?n + 2) (buffer @ chunk) = concat (map closed fin)" "drop (?n + 2) (buffer @ chunk) = part"
      unfolding split by (simp_all add: snoc)
    obtain c' th where h: "handle_frames (concat (map parse_block fin)) c = (c', th)" by fastforce
    obtain d' th' where h0: "handle_frames (concat (map parse_block fin)) d = (d', th')" by fastforce
    have s: "same_view c' d'" and "th' = th"
      using same_handle_frames [OF Cons.prems(4), of "concat (map parse_block fin)"] by (simp_all add: h h0)
    with h0 have h': "handle_frames (concat (map parse_block fin)) d = (d', th)" by simp
    have step: "read_chunks (chunk # texts) buffer c = (if th then c' else read_chunks texts part (flushRefresh c'))"
      by (simp only: read_chunks.simps Let_def n option.case parts parse_closed [OF bodies(1)] h prod.case) (simp split: bool.split)
    have spec: "handle_frames (concat (map parse_block bs)) d = (if th then (d', True) else handle_frames (concat (map parse_block todo)) d')"
      by (simp add: d(1) handle_frames_append h' split: bool.split)
    show ?thesis unfolding step spec using s Cons.IH [OF bodies(2) d(4,3) same_flush [OF s]] by simp
  qed
qed

section \<open>The frames of the server, read by the client\<close>

lemma frame_of_closed: "ls \<noteq> [] \<Longrightarrow> frame_of ls = closed (js_join [LF] ls)"
proof -
  have "js_join [LF] (l # ls @ [[], []]) = js_join [LF] (l # ls) @ [LF, LF]" for l ls
    by (induction ls arbitrary: l) simp_all
  then show "ls \<noteq> [] \<Longrightarrow> frame_of ls = closed (js_join [LF] ls)" by (cases ls) (simp_all add: frame_of_def)
qed

definition plain_line :: "string \<Rightarrow> bool" where
  "plain_line l \<longleftrightarrow> l \<noteq> [] \<and> LF \<notin> set l"

lemma has_blank_line: "LF \<notin> set l \<Longrightarrow> has_blank (l @ s) = has_blank s"
proof (induction l)
  case (Cons a l)
  have "has_blank (a # t) = has_blank t" for t using Cons.prems by (cases t) auto
  with Cons show ?case by simp
qed simp

lemma join_no_blank: "list_all plain_line ls \<Longrightarrow> ls \<noteq> [] \<Longrightarrow> \<not> has_blank (js_join [LF] ls @ [LF])"
proof (induction "[LF]" ls rule: js_join.induct)
  case (3 l m ls)
  then have "\<not> has_blank (LF # js_join [LF] (m # ls) @ [LF])"
    by (cases "js_join [LF] (m # ls)"; cases m; cases ls) (auto simp: plain_line_def)
  with 3 show ?case by (simp add: plain_line_def has_blank_line)
qed (auto simp: plain_line_def has_blank_line)

lemma join_lines_body: "list_all plain_line ls \<Longrightarrow> ls \<noteq> [] \<Longrightarrow> frame_body (js_join [LF] ls) \<and> split_on LF (js_join [LF] ls) = ls"
proof
  assume ls: "list_all plain_line ls" "ls \<noteq> []"
  have hd: "js_join [LF] ls \<noteq> [] \<and> hd (js_join [LF] ls) \<noteq> LF"
    using ls by (induction "[LF]" ls rule: js_join.induct) (auto simp: plain_line_def neq_Nil_conv)
  then show "frame_body (js_join [LF] ls)" using join_no_blank [OF ls] by (cases "js_join [LF] ls") (auto simp: frame_body_def)
  show "split_on LF (js_join [LF] ls) = ls"
    using ls by (induction "[LF]" ls rule: js_join.induct) (auto simp: plain_line_def split_on_plain split_on_line)
qed

definition clean_cursor :: "string \<Rightarrow> bool" where
  "clean_cursor cursor \<longleftrightarrow> LF \<notin> set cursor \<and> (cursor = [] \<or> \<not> is_js_space (hd cursor))"

fun delivery_name :: "event_delivery \<Rightarrow> string" where
  "delivery_name (Audience_changed _) = ''workspace.audience_changed''"
| "delivery_name (Withheld _) = ''workspace.withheld''"
| "delivery_name _ = ''workspace.event''"

fun delivery_object :: "(int \<Rightarrow> string) \<Rightarrow> event_delivery \<Rightarrow> (string \<times> json) list" where
  "delivery_object iso_text (Audience_changed n) = [(''workspaceSequence'', Json_int (int n))]"
| "delivery_object iso_text (Withheld n) = [(''workspaceSequence'', Json_int (int n))]"
| "delivery_object iso_text (Deliver e) = event_envelope iso_text e"
| "delivery_object iso_text (Redacted e) = event_envelope iso_text e"

definition delivery_lines :: "(int \<Rightarrow> string) \<Rightarrow> event_delivery \<Rightarrow> string \<Rightarrow> string list" where
  "delivery_lines iso_text d cursor =
     [''id: '' @ cursor, ''event: '' @ delivery_name d, ''data: '' @ stringify (Json_obj (delivery_object iso_text d))]"

lemma deliveryFrame_lines: "deliveryFrame iso_text d cursor = closed (js_join [LF] (delivery_lines iso_text d cursor))"
  by (cases d) (simp_all add: eventFrame_def withheldFrame_def audienceFrame_def delivery_lines_def frame_of_closed del: js_join.simps)

lemma delivery_lines_plain: "clean_cursor cursor \<Longrightarrow> list_all plain_line (delivery_lines iso_text d cursor)"
  using stringify_no_newline(1) [of "Json_obj (delivery_object iso_text d)"]
  by (cases d) (auto simp: delivery_lines_def plain_line_def clean_cursor_def simp del: stringify.simps)

lemma parse_named_line:
  assumes "CHR '':'' \<notin> set name" and "name \<noteq> []" and "v = [] \<or> \<not> is_js_space (hd v)"
  shows "takeWhile (\<lambda>c. c \<noteq> CHR '':'') (name @ '': '' @ v) = name"
    "dropWhile is_js_space (drop (Suc (length name)) (name @ '': '' @ v)) = v"
proof -
  show "takeWhile (\<lambda>c. c \<noteq> CHR '':'') (name @ '': '' @ v) = name" using assms(1) by (induction name) auto
  have "is_js_space (CHR 0x20)" by code_simp
  then show "dropWhile is_js_space (drop (Suc (length name)) (name @ '': '' @ v)) = v"
    using assms(3) by (cases v) auto
qed

lemma parse_delivery:
  assumes "clean_cursor cursor"
  shows "parse_block (js_join [LF] (delivery_lines iso_text d cursor)) =
    [\<lparr>sf_data = stringify (Json_obj (delivery_object iso_text d)), sf_event = delivery_name d, sf_id = Some cursor, sf_retryMs = None\<rparr>]"
proof -
  let ?json = "stringify (Json_obj (delivery_object iso_text d))"
  have split: "split_on LF (js_join [LF] (delivery_lines iso_text d cursor)) = delivery_lines iso_text d cursor"
    using join_lines_body [OF delivery_lines_plain [OF assms]] by (simp add: delivery_lines_def del: js_join.simps split_on.simps)
  have brace: "\<not> is_js_space (CHR ''{'')" by code_simp
  have name: "\<not> is_js_space (hd (delivery_name d))" by (cases d) (simp_all add: is_js_space_def)
  obtain r where json: "?json = CHR ''{'' # r" by simp
  have "foldl parse_line \<lparr>sf_data = [], sf_event = ''message'', sf_id = None, sf_retryMs = None\<rparr> (delivery_lines iso_text d cursor)
      = \<lparr>sf_data = ?json, sf_event = delivery_name d, sf_id = Some cursor, sf_retryMs = None\<rparr>"
    using assms brace name parse_named_line [of "''id''" cursor] parse_named_line [of "''event''" "delivery_name d"] parse_named_line [of "''data''" ?json]
    by (auto simp: delivery_lines_def parse_line_def Let_def clean_cursor_def json)
  then show ?thesis by (simp add: parse_block_def split Let_def)
qed

lemma connect_view:
  assumes "list_all frame_body bs" and "concat texts = concat (map closed bs)" and "queued (cl_pending c)"
  shows "view_of (connect texts c) = view_of (diagnostics D_disconnected None (fst (handle_frames (concat (map parse_block bs)) (diagnostics D_connected None c))))"
    and "cl_pending (connect texts c) = []"
proof -
  have s: "same_view (diagnostics D_connected None c) (diagnostics D_connected None c)" by (rule same_diagnostics [OF same_refl [OF assms(3)]])
  have "same_view (read_chunks texts [] (diagnostics D_connected None c)) (fst (handle_frames (concat (map parse_block bs)) (diagnostics D_connected None c)))"
    by (rule read_chunks_view) (use assms s in simp_all)
  from same_diagnostics [OF same_flush [OF this]]
  show "view_of (connect texts c) = view_of (diagnostics D_disconnected None (fst (handle_frames (concat (map parse_block bs)) (diagnostics D_connected None c))))"
    by (simp add: connect_def same_view_def)
  show "cl_pending (connect texts c) = []" by (simp add: connect_def diagnostics_def add_effect_def flushRefresh_def)
qed

text \<open>C9: however the network cuts the text of a stream of well-formed frames into chunks, a connection leaves the
  client with the same applied sequence, resume token, retry delay, storage and diagnostics, has asked for the
  same query groups to be refreshed, and leaves no refresh queued.\<close>

theorem chunking_irrelevant:
  assumes "list_all frame_body bs" and "concat texts = concat (map closed bs)" and "concat texts' = concat texts" and "cl_pending c = []"
  shows "view_of (connect texts c) = view_of (connect texts' c) \<and> cl_pending (connect texts c) = [] \<and> cl_pending (connect texts' c) = []"
  using connect_view [OF assms(1), of _ c] assms by (simp add: queued_def)

section \<open>Deliveries in order\<close>

fun client_step :: "event_delivery \<Rightarrow> string \<Rightarrow> client \<Rightarrow> client" where
  "client_step (Audience_changed n) cursor c = persistCursorToken cursor (applyEvent (int n) ''withheld'' True True c)"
| "client_step (Withheld n) cursor c = persistCursorToken cursor (applyEvent (int n) ''withheld'' True False c)"
| "client_step (Deliver e) cursor c = applyEvent (int (vw_workspaceSequence e)) (vw_eventType e) False False (persistCursorToken cursor c)"
| "client_step (Redacted e) cursor c = applyEvent (int (vw_workspaceSequence e)) (vw_eventType e) False False (persistCursorToken cursor c)"

lemma envelope_fields:
  "json_field (event_envelope iso_text e) ''workspaceSequence'' = Some (Json_int (int (vw_workspaceSequence e)))"
  "json_field (event_envelope iso_text e) ''eventType'' = Some (Json_str (vw_eventType e))"
  by (simp_all add: json_field_def event_envelope_def)

lemma handle_delivery:
  assumes "clean_cursor cursor" and "0 < delivery_sequence d" and "int (delivery_sequence d) \<le> max_safe"
  shows "handle_frames (parse_block (js_join [LF] (delivery_lines iso_text d cursor))) c = (client_step d cursor c, False)"
proof -
  have one: "json_field [(''workspaceSequence'', v)] ''workspaceSequence'' = Some v" for v by (simp add: json_field_def)
  show ?thesis using assms(2,3)
    by (cases d) (simp_all add: parse_delivery [OF assms(1)] handleFrame_def handle_withheld_def handle_event_def json_parse_stringify
        persist_id_def envelope_fields json_int_def one del: stringify.simps)
qed

fun delivery_notes :: "event_delivery \<Rightarrow> client_effect list" where
  "delivery_notes (Audience_changed n) = [Clear_audience, Audience_hook, Diagnose D_applied (int n) None]"
| "delivery_notes d = [Diagnose D_applied (int (delivery_sequence d)) None]"

fun delivery_keys :: "string \<Rightarrow> event_delivery \<Rightarrow> query_key list" where
  "delivery_keys ws (Audience_changed n) = workspaceScopeKeys ws @ [account_all]"
| "delivery_keys ws (Withheld n) = []"
| "delivery_keys ws (Deliver e) = queryKeysForEvent ws (vw_eventType e)"
| "delivery_keys ws (Redacted e) = queryKeysForEvent ws (vw_eventType e)"

definition resumed :: "string \<Rightarrow> string \<Rightarrow> string" where
  "resumed cursor old = (if cursor = [] then old else cursor)"

text \<open>The fields and the view after each elementary operation.\<close>

lemma client_fields:
  "cl_applied (refresh ks c) = cl_applied c" "cl_workspace (refresh ks c) = cl_workspace c" "cl_resume (refresh ks c) = cl_resume c"
  "cl_applied (add_effect e c) = cl_applied c" "cl_workspace (add_effect e c) = cl_workspace c" "cl_resume (add_effect e c) = cl_resume c"
  "cl_pending (add_effect e c) = cl_pending c" "cl_pending (persistCursor n c) = cl_pending c" "cl_pending (persistCursorToken t c) = cl_pending c"
  "cl_resume (persistCursor n c) = cl_resume c" "cl_resume (persistCursorToken t c) = resumed t (cl_resume c)"
  "cl_applied (persistCursorToken t c) = cl_applied c" "cl_workspace (persistCursorToken t c) = cl_workspace c"
  by (simp_all add: refresh_def add_effect_def persistCursor_def persistCursorToken_def resumed_def)

lemma view_effect:
  assumes "\<not> is_invalidate e"
  shows "w_notes (view_of (add_effect e c)) = w_notes (view_of c) @ [e]" "w_keys (view_of (add_effect e c)) = w_keys (view_of c)"
  using assms by (cases e; auto simp: view_of_def add_effect_def)+

lemma view_persist:
  "w_notes (view_of (persistCursor n c)) = w_notes (view_of c)" "w_keys (view_of (persistCursor n c)) = w_keys (view_of c)"
  "w_notes (view_of (persistCursorToken t c)) = w_notes (view_of c)" "w_keys (view_of (persistCursorToken t c)) = w_keys (view_of c)"
  by (simp_all add: view_of_def persistCursor_def persistCursorToken_def)

lemmas view_fields = view_effect view_persist

lemma next_delivery:
  assumes "queued (cl_pending c)" and "int (delivery_sequence d) = cl_applied c + 1"
  shows "queued (cl_pending (client_step d cursor c))" and "cl_applied (client_step d cursor c) = int (delivery_sequence d)"
    and "cl_workspace (client_step d cursor c) = cl_workspace c" and "cl_resume (client_step d cursor c) = resumed cursor (cl_resume c)"
    and "w_notes (view_of (client_step d cursor c)) = w_notes (view_of c) @ delivery_notes d"
    and "w_keys (view_of (client_step d cursor c)) = w_keys (view_of c) \<union> set (delivery_keys (cl_workspace c) d)"
  using assms
  by (cases d; simp add: applyEvent_def record_applied_def clear_audience_def diagnostics_def client_fields view_fields refresh_view Let_def)+

section \<open>Witness\<close>

definition fresh_client :: client where
  "fresh_client = \<lparr>cl_workspace = ''w1'', cl_applied = 0, cl_resume = [], cl_serverRetryMs = None, cl_pending = [],
     cl_storage = Stored [], cl_effects = []\<rparr>"

text \<open>The text of two frames, whole and cut inside a line and inside the blank line between them.\<close>

definition two_frames :: "string list" where
  "two_frames = [''retry: 1000'', ''id: a.b'' @ [LF] @ ''event: workspace.withheld'' @ [LF] @ ''data: {\"workspaceSequence\":1}'']"

theorem chunking_irrelevant_witness:
  "view_of (connect [concat (map closed two_frames)] fresh_client)
   = view_of (connect [take 5 (concat (map closed two_frames)), take 8 (drop 5 (concat (map closed two_frames))), drop 13 (concat (map closed two_frames))] fresh_client)"
proof -
  let ?s = "concat (map closed two_frames)"
  have frames: "list_all frame_body two_frames" by code_simp
  have whole: "concat [?s] = ?s" by simp
  have cut: "concat [take 5 ?s, take 8 (drop 5 ?s), drop 13 ?s] = concat [?s]"
    using append_take_drop_id [of 5 ?s] append_take_drop_id [of 8 "drop 5 ?s"] by simp
  have idle: "cl_pending fresh_client = []" by (simp add: fresh_client_def)
  from chunking_irrelevant [OF frames whole cut idle] show ?thesis by (rule conjunct1)
qed

end
