(* ===== verification/Event_Delivery.thy ===== *)
theory Event_Delivery
  imports Event_Client Project_Lifecycle
begin

text \<open>
  The event stream end to end: the log, the producer with its classification, the text on the wire cut into
  any chunks, and the client. A subscriber that reconnects with its cursor is brought to the head of the log,
  each event once and in order.
\<close>

section \<open>A run of deliveries\<close>

fun client_steps :: "(event_delivery \<times> string) list \<Rightarrow> client \<Rightarrow> client" where
  "client_steps [] c = c"
| "client_steps ((d, cursor) # ds) c = client_steps ds (client_step d cursor c)"

lemma handle_deliveries:
  assumes "list_all (\<lambda>(d, cursor). clean_cursor cursor \<and> 0 < delivery_sequence d \<and> int (delivery_sequence d) \<le> max_safe) ds"
  shows "handle_frames (concat (map parse_block (map (\<lambda>(d, cursor). js_join [LF] (delivery_lines iso_text d cursor)) ds))) c = (client_steps ds c, False)"
  using assms
proof (induction ds arbitrary: c)
  case (Cons p ds)
  obtain d cursor where p: "p = (d, cursor)" by (cases p)
  with Cons show ?case by (simp add: handle_frames_append handle_delivery)
qed simp

lemma client_steps_run:
  assumes "queued (cl_pending c)" and "map (\<lambda>(d, _). delivery_sequence d) ds = [Suc n..<Suc (n + length ds)]" and "cl_applied c = int n"
  shows "queued (cl_pending (client_steps ds c)) \<and> cl_applied (client_steps ds c) = int (n + length ds)
    \<and> cl_resume (client_steps ds c) = foldl (\<lambda>old (_, cursor). resumed cursor old) (cl_resume c) ds
    \<and> w_notes (view_of (client_steps ds c)) = w_notes (view_of c) @ concat (map (\<lambda>(d, _). delivery_notes d) ds)
    \<and> w_keys (view_of (client_steps ds c)) = w_keys (view_of c) \<union> set (concat (map (\<lambda>(d, _). delivery_keys (cl_workspace c) d) ds))"
  using assms
proof (induction ds arbitrary: c n)
  case (Cons p ds)
  obtain d cursor where p: "p = (d, cursor)" by (cases p)
  have "[Suc n..<Suc (n + length (p # ds))] = Suc n # [Suc (Suc n)..<Suc (Suc n + length ds)]" by (simp add: upt_conv_Cons del: upt_Suc)
  with Cons.prems(2) have d: "delivery_sequence d = Suc n" and rest: "map (\<lambda>(d, _). delivery_sequence d) ds = [Suc (Suc n)..<Suc (Suc n + length ds)]"
    by (simp_all add: p)
  note step = next_delivery [OF Cons.prems(1), of d cursor]
  have n: "int (delivery_sequence d) = cl_applied c + 1" using d Cons.prems(3) by simp
  have "cl_applied (client_step d cursor c) = int (Suc n)" using step(2) [OF n] d by simp
  from Cons.IH [OF step(1) [OF n] rest this] show ?case
    by (simp add: p step(3-6) [OF n] Un_assoc)
qed (simp add: assms)

lemma reference_sequence: "delivery_sequence (reference_delivery env ck db rel ws user e) = vw_workspaceSequence e"
  by (simp add: reference_delivery_def narrow_reordered_def redact_def split: option.splits)

lemma resume_last:
  "ds \<noteq> [] \<Longrightarrow> snd (last ds) \<noteq> [] \<Longrightarrow> foldl (\<lambda>old (_, cursor). resumed cursor old) r ds = snd (last ds)"
  by (induction ds rule: rev_induct) (auto simp: resumed_def split: prod.splits)

section \<open>The stream as the client reads it\<close>

definition deliveries_for :: "db_env \<Rightarrow> string \<Rightarrow> string \<Rightarrow> snapshot \<Rightarrow> event_view list \<Rightarrow> (event_delivery \<times> string) list" where
  "deliveries_for env ws user sn views =
     map (\<lambda>e. (reference_delivery env (sn_checks sn) (sn_access sn) (sn_related sn) ws user e, cursor_text (sn_mint sn (vw_workspaceSequence e)))) views"

lemma frames_closed:
  "frames_for env iso_text ws user sn views = map closed (map (\<lambda>(d, cursor). js_join [LF] (delivery_lines iso_text d cursor)) (deliveries_for env ws user sn views))"
  by (simp add: frames_for_def deliveries_for_def deliveryFrame_lines del: js_join.simps)

lemma retry_frame: "frame_body ''retry: 1000''"
  "parse_block ''retry: 1000'' = [\<lparr>sf_data = [], sf_event = ''message'', sf_id = None, sf_retryMs = Some 1000\<rparr>]"
  by code_simp+

lemma read_stream:
  assumes "\<And>n. clean_cursor (cursor_text (sn_mint sn n))" and "list_all (\<lambda>e. 0 < vw_workspaceSequence e \<and> int (vw_workspaceSequence e) \<le> max_safe) views"
    and "concat texts = concat ((''retry: 1000'' @ [LF, LF]) # frames_for env iso_text ws user sn views)" and "cl_pending c = []"
  shows "view_of (connect texts c) = view_of (diagnostics D_disconnected None (client_steps (deliveries_for env ws user sn views)
      ((diagnostics D_connected None c)\<lparr>cl_serverRetryMs := Some 1000\<rparr>)))" and "cl_pending (connect texts c) = []"
proof -
  let ?ds = "deliveries_for env ws user sn views"
  let ?bs = "map (\<lambda>(d, cursor). js_join [LF] (delivery_lines iso_text d cursor)) ?ds"
  have clean: "list_all (\<lambda>(d, cursor). clean_cursor cursor \<and> 0 < delivery_sequence d \<and> int (delivery_sequence d) \<le> max_safe) ?ds"
    using assms(1,2) by (auto simp: deliveries_for_def list_all_iff reference_sequence)
  have bodies: "list_all frame_body (''retry: 1000'' # ?bs)"
    using clean join_lines_body [OF delivery_lines_plain] retry_frame(1) by (auto simp: list_all_iff delivery_lines_def simp del: js_join.simps)
  have text_eq: "concat texts = concat (map closed (''retry: 1000'' # ?bs))" using assms(3) by (simp add: frames_closed del: js_join.simps)
  have frames: "handle_frames (concat (map parse_block (''retry: 1000'' # ?bs))) c' = (client_steps ?ds (c'\<lparr>cl_serverRetryMs := Some 1000\<rparr>), False)" for c'
    using handle_deliveries [OF clean, of iso_text] by (simp add: retry_frame(2) handleFrame_def del: js_join.simps)
  show "view_of (connect texts c) = view_of (diagnostics D_disconnected None (client_steps ?ds ((diagnostics D_connected None c)\<lparr>cl_serverRetryMs := Some 1000\<rparr>)))"
    "cl_pending (connect texts c) = []"
    using connect_view [OF bodies text_eq, of c] by (simp_all only: frames fst_conv assms(4) queued_def list.pred_inject(1) simp_thms)
qed

text \<open>What a connection leaves behind when the deliveries it reads continue the applied sequence.\<close>

lemma read_run:
  assumes "\<And>n. clean_cursor (cursor_text (sn_mint sn n))" and "cl_pending c = []" and "0 \<le> cl_applied c" and "n = nat (cl_applied c)"
    and "map vw_workspaceSequence views = [Suc n..<Suc (n + length views)]" and "int (n + length views) \<le> max_safe"
    and "concat texts = concat ((''retry: 1000'' @ [LF, LF]) # frames_for env iso_text ws user sn views)"
  shows "cl_applied (connect texts c) = int (n + length views)" and "cl_pending (connect texts c) = []"
    and "cl_resume (connect texts c) = foldl (\<lambda>old (_, cursor). resumed cursor old) (cl_resume c) (deliveries_for env ws user sn views)"
    and "w_notes (view_of (connect texts c)) = w_notes (view_of c) @ [Diagnose D_connected (cl_applied c) None]
      @ concat (map (delivery_notes \<circ> fst) (deliveries_for env ws user sn views)) @ [Diagnose D_disconnected (int (n + length views)) None]"
    and "w_keys (view_of (connect texts c)) = w_keys (view_of c) \<union> set (concat (map (delivery_keys (cl_workspace c) \<circ> fst) (deliveries_for env ws user sn views)))"
proof -
  let ?ds = "deliveries_for env ws user sn views"
  have "vw_workspaceSequence e \<in> {Suc n..<Suc (n + length views)}" if "e \<in> set views" for e
    using that assms(5) by (metis image_eqI set_map set_upt)
  then have safe: "list_all (\<lambda>e. 0 < vw_workspaceSequence e \<and> int (vw_workspaceSequence e) \<le> max_safe) views"
    using assms(6) by (fastforce simp: list_all_iff)
  let ?c = "(diagnostics D_connected None c)\<lparr>cl_serverRetryMs := Some 1000\<rparr>" and ?fin = "client_steps ?ds ((diagnostics D_connected None c)\<lparr>cl_serverRetryMs := Some 1000\<rparr>)"
  note r = read_stream [OF assms(1) safe assms(7,2)]
  have c: "queued (cl_pending ?c)" "cl_applied ?c = int n" "cl_workspace ?c = cl_workspace c"
    using assms(2-4) by (simp_all add: diagnostics_def add_effect_def queued_def)
  have len: "length ?ds = length views" by (simp add: deliveries_for_def)
  have "map (\<lambda>(d, _). delivery_sequence d) ?ds = [Suc n..<Suc (n + length ?ds)]"
    unfolding len assms(5) [symmetric] by (simp add: deliveries_for_def reference_sequence)
  note run = client_steps_run [OF c(1) this c(2), unfolded len c(3)]
  have v: "view_of (connect texts c) = view_of (add_effect (Diagnose D_disconnected (int (n + length views)) None) ?fin)"
    using r(1) run by (simp add: diagnostics_def)
  have start: "w_notes (view_of ?c) = w_notes (view_of c) @ [Diagnose D_connected (cl_applied c) None]" "w_keys (view_of ?c) = w_keys (view_of c)" "cl_resume ?c = cl_resume c"
    by (simp_all add: view_of_def diagnostics_def add_effect_def)
  show "cl_applied (connect texts c) = int (n + length views)" "cl_pending (connect texts c) = []"
    "cl_resume (connect texts c) = foldl (\<lambda>old (_, cursor). resumed cursor old) (cl_resume c) ?ds"
    using v run r(2) start(3) by (simp_all add: view_of_def add_effect_def)
  show "w_notes (view_of (connect texts c)) = w_notes (view_of c) @ [Diagnose D_connected (cl_applied c) None]
      @ concat (map (delivery_notes \<circ> fst) ?ds) @ [Diagnose D_disconnected (int (n + length views)) None]"
    "w_keys (view_of (connect texts c)) = w_keys (view_of c) \<union> set (concat (map (delivery_keys (cl_workspace c) \<circ> fst) ?ds))"
    using run start by (simp_all add: v view_effect case_prod_unfold comp_def)
qed

text \<open>C1: a client that connects with the cursor of the last event it applied, to a log that still holds
  everything after it, ends at the head of the log however the text is cut into chunks: every event after
  its cursor is applied exactly once and in order, as the classification for its user allows, with no gap and
  no resynchronisation reported; exactly the query groups of those events are invalidated; nothing stays queued;
  and the token it will present next time is the one of the head.\<close>

theorem subscriber_catches_up:
  assumes "inj (new_id env)" and "(log_step env)\<^sup>*\<^sup>* db0 (sn_log sn)" and "no_events db0" and "snapshot_ok env ws user sn"
    and "0 \<le> cl_applied c" and "decideReplay (Some (cl_applied c)) (workspaceEventWindow env (sn_log sn) ws) = Replay_from s"
    and "length (event_rows (sn_log sn)) < k"
    and "start_stream env iso_text ws user (Some (cl_applied c)) None sn (replicate k sn) (new_producer None) = (ph, p)"
    and "concat texts = concat (pd_sent p)" and "cl_pending c = []" and "\<And>n. clean_cursor (cursor_text (sn_mint sn n))"
    and "latest = win_latest (workspaceEventWindow env (sn_log sn) ws)" and "int latest \<le> max_safe"
    and "ds = map (reference_delivery env (sn_checks sn) (sn_access sn) (sn_related sn) ws user)
      (map toView (filter (\<lambda>e. cl_applied c < int (ev_workspaceSequence e)) (events_of (uuid_in env ws) (sn_log sn))))"
  shows "map delivery_sequence ds = [Suc (nat (cl_applied c))..<Suc latest]
    \<and> cl_applied (connect texts c) = int latest
    \<and> filter (\<lambda>e. \<not> is_invalidate e) (cl_effects (connect texts c)) = filter (\<lambda>e. \<not> is_invalidate e) (cl_effects c)
        @ [Diagnose D_connected (cl_applied c) None] @ concat (map delivery_notes ds) @ [Diagnose D_disconnected (int latest) None]
    \<and> {key. Invalidate key \<in> set (cl_effects (connect texts c))} = {key. Invalidate key \<in> set (cl_effects c)} \<union> set (concat (map (delivery_keys (cl_workspace c)) ds))
    \<and> cl_pending (connect texts c) = []
    \<and> (ds \<noteq> [] \<and> cursor_text (sn_mint sn latest) \<noteq> [] \<longrightarrow> cl_resume (connect texts c) = cursor_text (sn_mint sn latest))"
proof -
  from stream_replay_complete [OF assms(1-7)] obtain p' views where p':
    "start_stream env iso_text ws user (Some (cl_applied c)) None sn (replicate k sn) (new_producer None) = (Live, p')"
    "pd_sent p' = (''retry: 1000'' @ [LF, LF]) # frames_for env iso_text ws user sn views"
    and q: "views = map toView (filter (\<lambda>e. cl_applied c < int (ev_workspaceSequence e)) (events_of (uuid_in env ws) (sn_log sn)))"
    "map vw_workspaceSequence views = [Suc (nat (cl_applied c))..<Suc latest]" unfolding assms(12) by blast
  have sent: "pd_sent p = (''retry: 1000'' @ [LF, LF]) # frames_for env iso_text ws user sn views" using p' assms(8) by simp
  let ?n = "nat (cl_applied c)" and ?ds = "deliveries_for env ws user sn views"
  have ds: "map fst ?ds = ds" by (simp add: deliveries_for_def assms(14) q(1))
  have "?n \<le> latest" using assms(5) replayed_sequences(3) [OF log_steps_window [OF assms(2,1,3)] assms(5,6)] by (simp add: assms(12) nat_le_iff)
  then have latest: "?n + length views = latest" using arg_cong [OF q(2), of length] by (simp del: upt_Suc)
  note run = read_run [OF assms(11,10,5) refl q(2) [folded latest] _ assms(9) [unfolded sent], unfolded latest, OF assms(13)]
  have "cl_resume (connect texts c) = cursor_text (sn_mint sn latest)" if "ds \<noteq> []" "cursor_text (sn_mint sn latest) \<noteq> []"
  proof -
    have ne: "views \<noteq> []" "?ds \<noteq> []" using that(1) ds by (auto simp: deliveries_for_def)
    then have "vw_workspaceSequence (last views) = latest"
      using q(2) by (metis last_map last_snoc map_is_Nil_conv upt_Suc)
    then have "snd (last ?ds) = cursor_text (sn_mint sn latest)" using ne by (simp add: deliveries_for_def last_map)
    then show ?thesis using run(3) resume_last [OF ne(2)] that(2) by simp
  qed
  moreover have "map delivery_sequence ds = [Suc ?n..<Suc latest]"
    unfolding ds [symmetric] q(2) [symmetric] by (simp add: deliveries_for_def reference_sequence)
  moreover have "w_notes (view_of (connect texts c)) = w_notes (view_of c) @ [Diagnose D_connected (cl_applied c) None]
      @ concat (map delivery_notes ds) @ [Diagnose D_disconnected (int latest) None]"
    "w_keys (view_of (connect texts c)) = w_keys (view_of c) \<union> set (concat (map (delivery_keys (cl_workspace c)) ds))"
    using run(4,5) unfolding ds [symmetric] by simp_all
  ultimately show ?thesis using run(1,2) assms(10) by (simp add: view_of_def)
qed

section \<open>Where the parts do not fit\<close>

text \<open>A resynchronisation moves the resume token but not the applied sequence. A client that is ahead of the log
  it reconnects to (the reason \<open>cursor-ahead-of-head\<close>) therefore drops every later event up to its old
  sequence as a duplicate: nothing is applied, reported or refreshed.\<close>

theorem resync_then_dropped:
  assumes "queued (cl_pending c)" and "int (delivery_sequence d) \<le> cl_applied c"
  shows "cl_applied (client_step d cursor (resync reason c)) = cl_applied c
    \<and> w_notes (view_of (client_step d cursor (resync reason c))) = w_notes (view_of (resync reason c))
    \<and> w_keys (view_of (client_step d cursor (resync reason c))) = w_keys (view_of (resync reason c))"
proof -
  have "cl_applied (resync reason c) = cl_applied c" by (simp add: resync_def diagnostics_def client_fields)
  then show ?thesis using assms by (cases d) (simp_all add: applyEvent_def client_fields view_fields)
qed

definition renamed :: product_db where
  "renamed = result_db (updateProject sample_env ''w1'' ''0A000000-0000-4000-8000-000000000001'' ''u1''
     \<lparr>up_accent = None, up_iconKey = None, up_name = Some ''secret'', up_sourceKind = None\<rparr> sample_db)"

lemma tx_event_row:
  assumes "tx_event env ws t payload db = Inr (u, db')" and "map_of WORKSPACE_EVENT_CONTRACTS t = Some c"
  obtains n seq where "event_rows db' = event_rows db @ [row_of env c n seq \<lparr>ei_workspaceId = ws, ei_eventType = t, ei_payload = payload,
      ei_actor = None, ei_correlationId = None, ei_occurredAt = None\<rparr>]"
  using assms by (auto elim!: tx_eventD appendE)

lemma update_logged:
  assumes "updateProject env ws s editor input db = Inr (summary, db')"
  obtains p row where "p \<in> set (project_rows db)" "pj_id p = uuid_in env s" "event_rows db' = event_rows db @ [row]"
    "ev_eventType row = ''project.updated''" "ev_aggregateType row = ''project''" "ev_aggregateId row = Some s"
    "ev_payload row = [(''actorUserId'', Json_str editor), (''projectId'', Json_str s)]"
proof -
  have s: "isProjectId s" using assms by (auto simp: updateProject_def tx_fail_def split: if_splits)
  moreover have "\<not> isProjectId []" by code_simp
  ultimately have ne: "s \<noteq> []" by blast
  have c: "map_of WORKSPACE_EVENT_CONTRACTS ''project.updated'' = Some (snd (contract ''project.updated'' 1 ''project'' (Some ''projectId'')))" by code_simp
  from assms obtain db1 u updated where up: "update_project (activeProjectFilter env ws (Some s)) (apply_update env input) Project_unavailable db = Inr (updated, db1)"
    and ev: "tx_event env ws ''project.updated'' (actor_payload editor [(''projectId'', Json_str s)]) db1 = Inr (u, db')"
    unfolding updateProject_def write_access_def by (auto simp: s tx_return_def elim!: tx_bindE tx_checkE)
  from up obtain p where "p \<in> set (project_rows db)" "activeProjectFilter env ws (Some s) p" "event_rows db1 = event_rows db"
    by (auto elim!: update_projectE)
  moreover from ev c obtain n seq where "event_rows db' = event_rows db1 @ [row_of env (snd (contract ''project.updated'' 1 ''project'' (Some ''projectId''))) n seq
      \<lparr>ei_workspaceId = ws, ei_eventType = ''project.updated'', ei_payload = actor_payload editor [(''projectId'', Json_str s)],
       ei_actor = None, ei_correlationId = None, ei_occurredAt = None\<rparr>]" by (rule tx_event_row)
  ultimately show ?thesis
    by (intro that) (auto simp: row_of_def contract_def actor_payload_def string_of_field_def activeProjectFilter_def ne)
qed

text \<open>An event about a project that names it only by a text that is no project's stored id conceals nothing.\<close>

lemma other_spelling_delivered:
  assumes "tables_ok env db" and "uuid_in env s \<noteq> s" and "vw_eventType e = ''project.updated''" and "vw_aggregateType e = ''project''"
    and "vw_aggregateId e = Some s" and "vw_payload e = [(''actorUserId'', Json_str editor), (''projectId'', Json_str s)]"
  shows "reference_delivery env ck db rel ws user e = Deliver e"
proof -
  have no: "\<not> concealed_id env db ws user s" using assms(1,2) by (auto simp: concealed_id_def list_ex_iff tables_ok_def)
  have refs: "conversationReferences e = \<lparr>rf_channelIds = [], rf_messageIds = [], rf_contentRefIds = []\<rparr>"
    by (simp add: conversationReferences_def references_of_def stringField_def assms map_filter_def)
  have fam: "family_of ''project.updated'' \<noteq> ''artifact''" by code_simp
  have "project_links env db rel ws e = [Some s, Some s]"
    by (simp add: project_links_def refs named_def artifact_named_def stringField_def assms fam Let_def)
  then have "\<not> concealed env db rel ws user e" by (simp add: concealed_def no)
  then show ?thesis by (simp add: reference_delivery_def audience_ok_def refs assms reordered_ids_def Let_def)
qed

text \<open>C32: when a project is changed under another spelling of its id, the event that the change logs carries that spelling,
  and every member of the workspace gets it in full, at whatever state of the tables it is classified: also a
  member from whom the project is hidden, because the classification compares spellings.\<close>

theorem hidden_project_event_leaks:
  assumes "updateProject env ws s editor input db = Inr (summary, db')" and "uuid_in env s \<noteq> s"
    and "tables_ok env db2" and "related_ok env db2 rel" and "uuid_in env user = user" and "role_in db2 (uuid_in env ws) user \<noteq> None"
  shows "\<exists>p row. p \<in> set (project_rows db) \<and> pj_id p = uuid_in env s \<and> event_rows db' = event_rows db @ [row]
    \<and> vw_payload (toView row) = [(''actorUserId'', Json_str editor), (''projectId'', Json_str s)]
    \<and> (\<exists>ds. classifyWorkspaceEventsForUser env ck db2 rel ws user (before @ toView row # after) = Some ds
         \<and> ds ! length before = Deliver (toView row))"
proof -
  from assms(1) obtain p row where p: "p \<in> set (project_rows db)" "pj_id p = uuid_in env s" "event_rows db' = event_rows db @ [row]"
    and row: "ev_eventType row = ''project.updated''" "ev_aggregateType row = ''project''" "ev_aggregateId row = Some s"
      "ev_payload row = [(''actorUserId'', Json_str editor), (''projectId'', Json_str s)]" by (rule update_logged)
  have "reference_delivery env ck db2 rel ws user (toView row) = Deliver (toView row)"
    by (rule other_spelling_delivered [OF assms(3,2)]) (simp_all add: toView_def row)
  then show ?thesis using p row classify_page [OF assms(3,4,5), of ck ws "before @ toView row # after"] assms(6)
    by (intro exI [of _ p] exI [of _ row]) (simp add: toView_def nth_append)
qed

section \<open>Witnesses\<close>

definition sample_client :: client where
  "sample_client = \<lparr>cl_workspace = ''w1'', cl_applied = 1, cl_resume = ''a.b'', cl_serverRetryMs = None, cl_pending = [], cl_storage = Stored [], cl_effects = []\<rparr>"

definition sample_stream :: producer where
  "sample_stream = snd (start_stream stream_env (\<lambda>_. []) ''w1'' ''u1'' (Some 1) None stream_snapshot (replicate 3 stream_snapshot) (new_producer None))"

theorem subscriber_catches_up_witness:
  "cl_applied (connect [concat (pd_sent sample_stream)] sample_client) = 2"
proof -
  have ids: "inj (new_id stream_env)" by (rule injI) (simp add: stream_env_def replicate_eq_replicate)
  have steps: "(log_step stream_env)\<^sup>*\<^sup>* sample_db (sn_log stream_snapshot)"
    using run_appends_steps [of stream_env sample_db "[sample_event, sample_event]"] by (simp add: stream_snapshot_def stream_db_def)
  have ok: "no_events sample_db" "snapshot_ok stream_env ''w1'' ''u1'' stream_snapshot" by code_simp+
  have decide: "decideReplay (Some (cl_applied sample_client)) (workspaceEventWindow stream_env (sn_log stream_snapshot) ''w1'') = Replay_from 1" by code_simp
  have few: "length (event_rows (sn_log stream_snapshot)) < 3" by code_simp
  have start: "start_stream stream_env (\<lambda>_. []) ''w1'' ''u1'' (Some (cl_applied sample_client)) None stream_snapshot (replicate 3 stream_snapshot) (new_producer None)
      = (fst (start_stream stream_env (\<lambda>_. []) ''w1'' ''u1'' (Some 1) None stream_snapshot (replicate 3 stream_snapshot) (new_producer None)), sample_stream)"
    by (simp add: sample_stream_def sample_client_def)
  have clean: "clean_cursor (cursor_text (sn_mint stream_snapshot n))" for n
  proof -
    have digit: "\<not> is_js_space a \<and> a \<noteq> LF" if "is_digit a" for a using that by (auto simp: is_js_space_def is_digit_def)
    then show ?thesis using digit_chars_digits [of n]
      by (cases "digit_chars n") (auto simp: clean_cursor_def cursor_text_def stream_snapshot_def show_nat_def list_all_iff)
  qed
  have client: "0 \<le> cl_applied sample_client" "cl_pending sample_client = []" by (simp_all add: sample_client_def)
  have w: "2 = win_latest (workspaceEventWindow stream_env (sn_log stream_snapshot) ''w1'')" by code_simp
  have "int 2 \<le> max_safe" by code_simp
  note caught = subscriber_catches_up [OF ids steps ok client(1) decide few start _ client(2) clean w this refl]
  show ?thesis using caught [of "[concat (pd_sent sample_stream)]"] by simp
qed

theorem resync_then_dropped_witness:
  "cl_applied (client_step (Withheld 1) ''x'' (resync ''server'' sample_client)) = 1"
  using resync_then_dropped [of sample_client "Withheld 1" "''x''" "''server''"] by (simp add: sample_client_def queued_def)

theorem hidden_project_event_leaks_witness:
  "\<exists>row ds. event_rows renamed = [row] \<and> vw_payload (toView row) = [(''actorUserId'', Json_str ''u1''), (''projectId'', Json_str ''0A000000-0000-4000-8000-000000000001'')]
     \<and> classifyWorkspaceEventsForUser sample_env sample_checks sample_db sample_related ''w1'' ''u2'' [toView row] = Some ds \<and> ds ! 0 = Deliver (toView row)
     \<and> pj_id sample_project = uuid_in sample_env ''0A000000-0000-4000-8000-000000000001'' \<and> \<not> may_see sample_db ''w1'' ''u2'' sample_project"
proof -
  let ?s = "''0A000000-0000-4000-8000-000000000001''"
  let ?run = "updateProject sample_env ''w1'' ?s ''u1'' \<lparr>up_accent = None, up_iconKey = None, up_name = Some ''secret'', up_sourceKind = None\<rparr> sample_db"
  have "\<not> isl ?run" by code_simp
  then have run: "?run = Inr (fst (projr ?run), renamed)" unfolding renamed_def by (rule result_dbI)
  have s: "uuid_in sample_env ?s \<noteq> ?s" "pj_id sample_project = uuid_in sample_env ?s" by code_simp+
  have r: "related_ok sample_env sample_db sample_related" by code_simp
  have u: "uuid_in sample_env ''u2'' = ''u2''" by code_simp
  have m: "role_in sample_db (uuid_in sample_env ''w1'') ''u2'' \<noteq> None" by code_simp
  have h: "\<not> may_see sample_db ''w1'' ''u2'' sample_project" by code_simp
  have "event_rows sample_db = []" by code_simp
  with h s(2) hidden_project_event_leaks [OF run s(1) sample_tables_ok r u m, of sample_checks "[]" "[]"] show ?thesis by auto
qed

end
