(* ===== verification/Event_Cursor.thy ===== *)
theory Event_Cursor
  imports Event_Client Utf8
begin

text \<open>
  The signed reconnect cursor, \<^verbatim>\<open>apps/web/src/server/event-cursor.ts\<close>, and how the route reads a presented one.
  Three functions of the platform are arguments: \<open>mac key payload\<close>, the bytes of the HMAC of the payload under
  the digest of the key text; the auth secret of the environment; and \<open>decoder\<close>, which reads a
  base64url text as UTF-8. Of \<open>decoder\<close> the statements assume only that it inverts the encoding, of \<open>mac\<close> that it yields bytes.
\<close>

section \<open>The codec\<close>

definition CURSOR_VERSION :: string where "CURSOR_VERSION = ''v1''"
definition CURSOR_DOMAIN :: string where "CURSOR_DOMAIN = ''adea:workspace-event-cursor:v1''"
definition EVENT_CURSOR_LIFETIME_MS :: int where "EVENT_CURSOR_LIFETIME_MS = 30 * 24 * 60 * 60 * 1000"

datatype cursor_rejection = Rejected_expired | Rejected_foreign_workspace | Rejected_malformed | Rejected_unavailable

definition cursorSecret :: "string option \<Rightarrow> string option" where
  "cursorSecret auth = (case auth of None \<Rightarrow> None | Some secret \<Rightarrow> if secret \<noteq> [] \<and> length secret \<ge> 32 then Some secret else None)"

definition base64_alphabet :: string where
  "base64_alphabet = ''ABCDEFGHIJKLMNOPQRSTUVWXYZabcdefghijklmnopqrstuvwxyz0123456789-_''"

definition sextet :: "nat \<Rightarrow> char" where
  "sextet n = base64_alphabet ! (n mod 64)"

fun base64url :: "bytes \<Rightarrow> string" where
  "base64url [] = []"
| "base64url [a] = [sextet (a div 4), sextet (a mod 4 * 16)]"
| "base64url [a, b] = [sextet (a div 4), sextet (a mod 4 * 16 + b div 16), sextet (b mod 16 * 4)]"
| "base64url (a # b # c # bs) =
     sextet (a div 4) # sextet (a mod 4 * 16 + b div 16) # sextet (b mod 16 * 4 + c div 64) # sextet (c mod 64) # base64url bs"

text \<open>\<open>TextEncoder.encode\<close>.\<close>

definition utf8_bytes :: "string \<Rightarrow> bytes" where
  "utf8_bytes s = concat (map (\<lambda>c. utf8_cp (of_char c)) s)"

type_synonym mac = "string \<Rightarrow> string \<Rightarrow> bytes"

definition sign_cursor :: "mac \<Rightarrow> string \<Rightarrow> string \<Rightarrow> string" where
  "sign_cursor mac payload secret = base64url (mac (CURSOR_DOMAIN @ '':'' @ secret) payload)"

definition cursor_payload :: "string \<Rightarrow> int \<Rightarrow> int \<Rightarrow> string" where
  "cursor_payload ws sequence issuedAt = js_join '':'' [CURSOR_VERSION, ws, show_int sequence, show_int issuedAt]"

definition encodeWorkspaceEventCursor :: "mac \<Rightarrow> string option \<Rightarrow> string \<Rightarrow> int \<Rightarrow> int \<Rightarrow> string option" where
  "encodeWorkspaceEventCursor mac auth ws sequence issuedAt =
     (case cursorSecret auth of
        None \<Rightarrow> None
      | Some secret \<Rightarrow>
          let payload = cursor_payload ws sequence issuedAt in
          Some (base64url (utf8_bytes payload) @ ''.'' @ sign_cursor mac payload secret))"

text \<open>The checks of a payload whose fields have been split.\<close>

definition check_cursor :: "mac \<Rightarrow> string \<Rightarrow> string \<Rightarrow> string \<Rightarrow> string \<Rightarrow> int \<Rightarrow> string list \<Rightarrow> cursor_rejection + int" where
  "check_cursor mac secret payload signature ws now parts =
     (case parts of
        [version, payloadWs, sequenceValue, issuedAtValue] \<Rightarrow>
          if version \<noteq> CURSOR_VERSION \<or> payloadWs = [] \<or> sequenceValue = [] \<or> issuedAtValue = [] then Inl Rejected_malformed
          else if sign_cursor mac payload secret \<noteq> signature then Inl Rejected_malformed
          else if payloadWs \<noteq> ws then Inl Rejected_foreign_workspace
          else (case (safe_number sequenceValue, safe_number issuedAtValue) of
              (Some sequence, Some issuedAt) \<Rightarrow>
                if sequence < 0 then Inl Rejected_malformed
                else if now - issuedAt > EVENT_CURSOR_LIFETIME_MS then Inl Rejected_expired
                else Inr sequence
            | _ \<Rightarrow> Inl Rejected_malformed)
      | _ \<Rightarrow> Inl Rejected_malformed)"

definition decodeWorkspaceEventCursor ::
  "mac \<Rightarrow> (string \<Rightarrow> string option) \<Rightarrow> string option \<Rightarrow> string \<Rightarrow> string \<Rightarrow> int \<Rightarrow> cursor_rejection + int" where
  "decodeWorkspaceEventCursor mac decoder auth token ws now =
     (case cursorSecret auth of
        None \<Rightarrow> Inl Rejected_unavailable
      | Some secret \<Rightarrow>
          (case split_on (CHR ''.'') token of
             [encoded, signature] \<Rightarrow>
               if encoded = [] \<or> signature = [] then Inl Rejected_malformed
               else (case decoder encoded of
                   None \<Rightarrow> Inl Rejected_malformed
                 | Some payload \<Rightarrow> check_cursor mac secret payload signature ws now (split_on (CHR '':'') payload))
           | _ \<Rightarrow> Inl Rejected_malformed))"

section \<open>The cursor a request presents\<close>

fun rejection_reason :: "cursor_rejection \<Rightarrow> resync_reason" where
  "rejection_reason Rejected_expired = Cursor_expired"
| "rejection_reason Rejected_foreign_workspace = Cursor_foreign_workspace"
| "rejection_reason Rejected_malformed = Cursor_malformed"
| "rejection_reason Rejected_unavailable = Cursor_unavailable"

text \<open>The requested sequence and the rejection with which the stream starts.\<close>

definition read_presented ::
  "mac \<Rightarrow> (string \<Rightarrow> string option) \<Rightarrow> string option \<Rightarrow> string option \<Rightarrow> string \<Rightarrow> int \<Rightarrow> int option \<times> resync_reason option" where
  "read_presented mac decoder auth presented ws now =
     (case presented of
        None \<Rightarrow> (None, None)
      | Some token \<Rightarrow>
          if token = [] then (None, None)
          else (case decodeWorkspaceEventCursor mac decoder auth token ws now of
              Inr sequence \<Rightarrow> (Some sequence, None)
            | Inl reason \<Rightarrow> (None, Some (rejection_reason reason))))"

section \<open>Shape of a cursor\<close>

lemma join_split: "js_join [c] (split_on c s) = s"
proof (induction s)
  case (Cons d s)
  then show ?case using split_on_ne [of c s] by (cases "split_on c s"; cases "tl (split_on c s)") (auto simp: js_join.simps)
qed simp

lemma sextet_chars: "list_all token_char base64_alphabet" "length base64_alphabet = 64"
  by code_simp+

lemma sextet_token: "token_char (sextet n)"
  using sextet_chars by (simp add: sextet_def list_all_length)

lemma base64_token: "list_all token_char (base64url bs)"
  by (induction bs rule: base64url.induct) (simp_all add: sextet_token)

lemma base64_Nil: "base64url bs = [] \<longleftrightarrow> bs = []"
  by (cases bs rule: base64url.cases) simp_all

lemma token_not_dot: "token_char c \<Longrightarrow> c \<noteq> CHR ''.'' \<and> c \<noteq> LF \<and> \<not> is_js_space c"
  by (auto simp: token_char_def is_digit_def lower_char_def is_js_space_def split: if_splits)

lemma token_text:
  assumes "list_all token_char s"
  shows "CHR ''.'' \<notin> set s" "LF \<notin> set s" "s = [] \<or> \<not> is_js_space (hd s)"
proof -
  have c: "c \<noteq> CHR ''.'' \<and> c \<noteq> LF \<and> \<not> is_js_space c" if "c \<in> set s" for c
    using that assms token_not_dot [of c] by (simp add: list_all_iff)
  show "CHR ''.'' \<notin> set s" "LF \<notin> set s" "s = [] \<or> \<not> is_js_space (hd s)" using c by (blast, blast, metis hd_in_set)
qed

text \<open>A minted cursor has the shape the client stores and fits on one line of a frame.\<close>

lemma minted_shape:
  assumes "encodeWorkspaceEventCursor mac auth ws sequence issuedAt = Some token" and "\<And>k p. mac k p \<noteq> []"
  shows "token_shape token" and "clean_cursor token" and "token \<noteq> []"
proof -
  obtain secret where t: "token = base64url (utf8_bytes (cursor_payload ws sequence issuedAt)) @ ''.'' @ sign_cursor mac (cursor_payload ws sequence issuedAt) secret"
    using assms(1) by (auto simp: encodeWorkspaceEventCursor_def Let_def split: option.splits)
  have ne: "utf8_bytes (cursor_payload ws sequence issuedAt) \<noteq> []"
    by (simp add: cursor_payload_def CURSOR_VERSION_def utf8_bytes_def utf8_cp_def)
  note parts = base64_token [of "utf8_bytes (cursor_payload ws sequence issuedAt)"] base64_token [of "mac (CURSOR_DOMAIN @ '':'' @ secret) (cursor_payload ws sequence issuedAt)"]
  note free = token_text [OF parts(1)] token_text [OF parts(2)]
  show "token_shape token" using parts free(1,4) ne assms(2)
    by (simp add: t token_shape_def sign_cursor_def split_on_line split_on_plain base64_Nil)
  show "clean_cursor token" using free ne by (auto simp: t clean_cursor_def sign_cursor_def base64_Nil hd_append)
  show "token \<noteq> []" by (simp add: t)
qed

section \<open>Numbers and fields\<close>

lemma digit_not_space: "is_digit a \<Longrightarrow> \<not> is_js_space a \<and> a \<noteq> CHR ''-'' \<and> a \<noteq> CHR ''+'' \<and> a \<noteq> CHR '':''"
  by (auto simp: is_js_space_def is_digit_def)

lemma trim_digits:
  assumes "list_all is_digit ds"
  shows "js_trim ds = ds"
proof -
  have "dropWhile is_js_space xs = xs" if "list_all is_digit xs" for xs
    using that digit_not_space by (cases xs) auto
  with assms show ?thesis by (simp add: js_trim_def list_all_iff)
qed

lemma safe_number_show:
  assumes "0 \<le> n" and "n \<le> max_safe"
  shows "safe_number (show_int n) = Some n"
proof -
  have d: "list_all is_digit (digit_chars (nat n))" "digit_chars (nat n) \<noteq> []" using digit_chars_digits [of "nat n"] by simp_all
  have sign: "hd (digit_chars (nat n)) \<noteq> CHR ''-''" "hd (digit_chars (nat n)) \<noteq> CHR ''+''"
    using d digit_not_space [of "hd (digit_chars (nat n))"] by (auto simp: list_all_iff)
  show ?thesis using assms d sign trim_digits [OF d(1)]
    by (simp add: safe_number_def show_int_def show_nat_def digit_chars_value Let_def)
qed

lemma show_no_colon: "0 \<le> n \<Longrightarrow> CHR '':'' \<notin> set (show_int n) \<and> show_int n \<noteq> []"
  using digit_chars_digits [of "nat n"] digit_not_space by (auto simp: show_int_def show_nat_def list_all_iff)

lemma payload_fields:
  assumes "CHR '':'' \<notin> set ws" and "0 \<le> sequence" and "0 \<le> issuedAt"
  shows "split_on (CHR '':'') (cursor_payload ws sequence issuedAt) = [CURSOR_VERSION, ws, show_int sequence, show_int issuedAt]"
proof -
  have "CHR '':'' \<notin> set CURSOR_VERSION" by (simp add: CURSOR_VERSION_def)
  then show ?thesis using assms show_no_colon [of sequence] show_no_colon [of issuedAt]
    by (simp add: cursor_payload_def split_on_line split_on_plain del: split_on.simps)
qed

text \<open>What a minted cursor decodes to, for any reader.\<close>

lemma decode_minted:
  assumes "encodeWorkspaceEventCursor mac auth ws sequence issuedAt = Some token" and "\<And>k p. mac k p \<noteq> []"
    and "decoder (base64url (utf8_bytes (cursor_payload ws sequence issuedAt))) = Some (cursor_payload ws sequence issuedAt)"
    and "CHR '':'' \<notin> set ws" and "ws \<noteq> []" and "0 \<le> sequence" and "sequence \<le> max_safe" and "0 \<le> issuedAt" and "issuedAt \<le> max_safe"
    and "cursorSecret auth = Some secret" and "cursorSecret auth' = Some secret'"
  shows "decodeWorkspaceEventCursor mac decoder auth' token ws' now =
    (if sign_cursor mac (cursor_payload ws sequence issuedAt) secret' \<noteq> sign_cursor mac (cursor_payload ws sequence issuedAt) secret then Inl Rejected_malformed
     else if ws \<noteq> ws' then Inl Rejected_foreign_workspace
     else if now - issuedAt > EVENT_CURSOR_LIFETIME_MS then Inl Rejected_expired
     else Inr sequence)"
proof -
  let ?p = "cursor_payload ws sequence issuedAt"
  have t: "token = base64url (utf8_bytes ?p) @ ''.'' @ sign_cursor mac ?p secret"
    using assms(1,10) by (simp add: encodeWorkspaceEventCursor_def Let_def)
  have "split_on (CHR ''.'') token = [base64url (utf8_bytes ?p), sign_cursor mac ?p secret]"
    using token_text(1) [OF base64_token] by (simp add: t sign_cursor_def split_on_line split_on_plain)
  moreover have "base64url (utf8_bytes ?p) \<noteq> []" "sign_cursor mac ?p secret \<noteq> []"
    using assms(2) by (simp_all add: base64_Nil sign_cursor_def cursor_payload_def CURSOR_VERSION_def utf8_bytes_def utf8_cp_def)
  ultimately show ?thesis
    using assms(3-9,11) show_no_colon [of sequence] show_no_colon [of issuedAt]
    by (auto simp: decodeWorkspaceEventCursor_def check_cursor_def payload_fields safe_number_show)
qed

text \<open>C23: a cursor minted for a workspace is read back as the same sequence by that workspace for thirty days, and
  then refused as expired; by every other workspace it is refused as foreign; and a server with another secret
  refuses it as malformed, unless the two secrets happen to sign its payload alike.\<close>

theorem cursor_round_trip:
  assumes "encodeWorkspaceEventCursor mac auth ws sequence issuedAt = Some token" and "\<And>k p. mac k p \<noteq> []"
    and "\<And>s. decoder (base64url (utf8_bytes s)) = Some s"
    and "CHR '':'' \<notin> set ws" and "ws \<noteq> []" and "0 \<le> sequence" and "sequence \<le> max_safe" and "0 \<le> issuedAt" and "issuedAt \<le> max_safe"
    and "cursorSecret auth = Some secret" and "cursorSecret auth' = Some secret'"
  shows "decodeWorkspaceEventCursor mac decoder auth token ws now =
      (if now \<le> issuedAt + 30 * 24 * 60 * 60 * 1000 then Inr sequence else Inl Rejected_expired)
    \<and> (ws' \<noteq> ws \<longrightarrow> decodeWorkspaceEventCursor mac decoder auth token ws' now = Inl Rejected_foreign_workspace)
    \<and> (sign_cursor mac (cursor_payload ws sequence issuedAt) secret' \<noteq> sign_cursor mac (cursor_payload ws sequence issuedAt) secret
       \<longrightarrow> decodeWorkspaceEventCursor mac decoder auth' token ws' now = Inl Rejected_malformed)"
  using decode_minted [where decoder = decoder, OF assms(1,2) assms(3) assms(4-10,10)]
    decode_minted [where decoder = decoder, OF assms(1,2) assms(3) assms(4-11)]
  by (auto simp: EVENT_CURSOR_LIFETIME_MS_def)

text \<open>C24: whatever token is accepted is authentic: it consists of a text that the platform reads as the version, this very
  workspace, the sequence and an issue time at most thirty days ago, and of the signature of that payload
  under the server's secret.\<close>

theorem accepted_cursor_authentic:
  assumes "decodeWorkspaceEventCursor mac decoder auth token ws now = Inr sequence"
  shows "\<exists>secret encoded payload sequenceValue issuedAtValue issuedAt.
    auth = Some secret \<and> 32 \<le> length secret \<and> token = encoded @ ''.'' @ sign_cursor mac payload secret \<and> decoder encoded = Some payload
    \<and> payload = js_join '':'' [CURSOR_VERSION, ws, sequenceValue, issuedAtValue]
    \<and> safe_number sequenceValue = Some sequence \<and> 0 \<le> sequence
    \<and> safe_number issuedAtValue = Some issuedAt \<and> now \<le> issuedAt + EVENT_CURSOR_LIFETIME_MS"
proof -
  obtain secret encoded signature payload where t:
    "auth = Some secret" "32 \<le> length secret" "split_on (CHR ''.'') token = [encoded, signature]" "decoder encoded = Some payload"
    "check_cursor mac secret payload signature ws now (split_on (CHR '':'') payload) = Inr sequence"
    using assms by (auto simp: decodeWorkspaceEventCursor_def cursorSecret_def split: option.splits list.splits if_splits)
  obtain sv iv issuedAt where p: "split_on (CHR '':'') payload = [CURSOR_VERSION, ws, sv, iv]" "sign_cursor mac payload secret = signature"
    "safe_number sv = Some sequence" "0 \<le> sequence" "safe_number iv = Some issuedAt" "now \<le> issuedAt + EVENT_CURSOR_LIFETIME_MS"
    using t(5) by (auto simp: check_cursor_def split: list.splits option.splits if_splits)
  have "payload = js_join '':'' [CURSOR_VERSION, ws, sv, iv]" "token = encoded @ ''.'' @ signature"
    using join_split [of "CHR '':''" payload] join_split [of "CHR ''.''" token] by (simp_all add: p(1) t(3))
  with t p show ?thesis by blast
qed

section \<open>Witnesses\<close>

text \<open>A strict decoder that inverts the encoding, and a checksum in place of the HMAC.\<close>

definition sextet_value :: "char \<Rightarrow> nat" where
  "sextet_value c = length (takeWhile (\<lambda>d. d \<noteq> c) base64_alphabet)"

fun sextets_bytes :: "nat list \<Rightarrow> bytes" where
  "sextets_bytes (p # q # r # s # xs) = (p * 4 + q div 16) # (q mod 16 * 16 + r div 4) # (r mod 4 * 64 + s) # sextets_bytes xs"
| "sextets_bytes [p, q, r] = [p * 4 + q div 16, q mod 16 * 16 + r div 4]"
| "sextets_bytes [p, q] = [p * 4 + q div 16]"
| "sextets_bytes _ = []"

definition strict_decoder :: "string \<Rightarrow> string option" where
  "strict_decoder s = map_option (map char_of) (utf8_decode (sextets_bytes (map sextet_value s)))"

lemma sextet_value_sextet: "n < 64 \<Longrightarrow> sextet_value (sextet n) = n"
proof -
  have "list_all (\<lambda>n. sextet_value (sextet n) = n) [0..<64]" by code_simp
  then show "n < 64 \<Longrightarrow> sextet_value (sextet n) = n" by (simp add: list_all_iff)
qed

lemma sextet_bounds:
  assumes "a < 256" and "b < 256" and "c < (256::nat)"
  shows "a div 4 < 64" "a mod 4 * 16 < 64" "a mod 4 * 16 + b div 16 < 64" "b mod 16 * 4 < 64" "b mod 16 * 4 + c div 64 < 64" "c mod 64 < 64"
proof -
  have "b div 16 < 16" "c div 64 < 4" "a mod 4 < 4" "b mod 16 < 16" using assms by simp_all
  then show "a mod 4 * 16 < 64" "a mod 4 * 16 + b div 16 < 64" "b mod 16 * 4 < 64" "b mod 16 * 4 + c div 64 < 64" by linarith+
  show "a div 4 < 64" "c mod 64 < 64" using assms(1) by simp_all
qed

lemma sextet_joins:
  assumes "b < 256" and "c < (256::nat)"
  shows "a div 4 * 4 + (a mod 4 * 16 + b div 16) div 16 = a" "(a mod 4 * 16 + b div 16) mod 16 * 16 + (b mod 16 * 4 + c div 64) div 4 = b"
    "(b mod 16 * 4 + c div 64) mod 4 * 64 + c mod 64 = c" "a div 4 * 4 + a mod 4 * 16 div 16 = a"
    "(a mod 4 * 16 + b div 16) mod 16 * 16 + b mod 16 * 4 div 4 = b"
proof -
  have q: "b div 16 < 16" "c div 64 < 4" using assms by simp_all
  have "(a mod 4 * 16 + b div 16) div 16 = a mod 4" "(a mod 4 * 16 + b div 16) mod 16 = b div 16"
    "(b mod 16 * 4 + c div 64) div 4 = b mod 16" "(b mod 16 * 4 + c div 64) mod 4 = c div 64"
    using q by (simp_all add: div_mult_self3 mod_mult_self3)
  then show "a div 4 * 4 + (a mod 4 * 16 + b div 16) div 16 = a" "(a mod 4 * 16 + b div 16) mod 16 * 16 + (b mod 16 * 4 + c div 64) div 4 = b"
    "(b mod 16 * 4 + c div 64) mod 4 * 64 + c mod 64 = c" "a div 4 * 4 + a mod 4 * 16 div 16 = a"
    "(a mod 4 * 16 + b div 16) mod 16 * 16 + b mod 16 * 4 div 4 = b" by simp_all
qed

lemma base64_round_trip: "list_all (\<lambda>b. b < 256) bs \<Longrightarrow> sextets_bytes (map sextet_value (base64url bs)) = bs"
proof (induction bs rule: base64url.induct)
  case (2 a)
  then show ?case using sextet_bounds(1,2) [of a 0 0] sextet_joins(4) [of 0 0 a] by (simp add: sextet_value_sextet)
next
  case (3 a b)
  then show ?case using sextet_bounds(1,3,4) [of a b 0] sextet_joins(1,5) [of b 0 a] by (simp add: sextet_value_sextet)
next
  case (4 a b c bs)
  then show ?case using sextet_bounds(1,3,5,6) [of a b c] sextet_joins(1,2,5) [of b c a] sextet_joins(3) [of b c] by (simp add: sextet_value_sextet)
qed simp

lemma strict_decode_inverts: "strict_decoder (base64url (utf8_bytes s)) = Some s"
proof -
  have c: "valid_cp (of_char c)" for c :: char
  proof -
    have "of_char c < (256::nat)" using mod_less_divisor [of 256 "of_char c :: nat"] by (simp add: of_char_mod_256)
    then show ?thesis unfolding valid_cp_def by linarith
  qed
  have bytes: "list_all (\<lambda>b. b < 256) (utf8_bytes s)" using utf8_cp_bytes [OF c] by (induction s) (simp_all add: utf8_bytes_def)
  have "utf8_decode (utf8_bytes s) = Some (map of_char s)"
    using utf8_decode_all [of "map of_char s"] c by (simp add: utf8_bytes_def list_all_iff comp_def)
  then show ?thesis by (simp add: strict_decoder_def base64_round_trip [OF bytes] comp_def)
qed

definition sample_mac :: mac where
  "sample_mac k p = [length k mod 256, length p mod 256]"

definition sample_secret :: string where "sample_secret = replicate 32 (CHR ''s'')"

theorem cursor_round_trip_witness:
  "\<exists>token. encodeWorkspaceEventCursor sample_mac (Some sample_secret) ''w1'' 7 1000 = Some token
     \<and> decodeWorkspaceEventCursor sample_mac strict_decoder (Some sample_secret) token ''w1'' 5000 = Inr 7
     \<and> decodeWorkspaceEventCursor sample_mac strict_decoder (Some sample_secret) token ''w2'' 5000 = Inl Rejected_foreign_workspace"
proof -
  have secret: "cursorSecret (Some sample_secret) = Some sample_secret" by code_simp
  then obtain token where t: "encodeWorkspaceEventCursor sample_mac (Some sample_secret) ''w1'' 7 1000 = Some token"
    by (simp add: encodeWorkspaceEventCursor_def Let_def)
  have "sample_mac k p \<noteq> []" for k p by (simp add: sample_mac_def)
  from cursor_round_trip [OF t this strict_decode_inverts _ _ _ _ _ _ secret secret]
  have "decodeWorkspaceEventCursor sample_mac strict_decoder (Some sample_secret) token ''w1'' 5000 = Inr 7"
    "decodeWorkspaceEventCursor sample_mac strict_decoder (Some sample_secret) token ''w2'' 5000 = Inl Rejected_foreign_workspace"
    by (simp_all add: max_safe_def)
  with t show ?thesis by blast
qed

theorem accepted_cursor_authentic_witness:
  "\<exists>token payload. decodeWorkspaceEventCursor sample_mac strict_decoder (Some sample_secret) token ''w1'' 5000 = Inr 7
     \<and> (\<exists>encoded. token = encoded @ ''.'' @ sign_cursor sample_mac payload sample_secret)"
proof -
  have ok: "\<not> isl (decodeWorkspaceEventCursor sample_mac strict_decoder (Some sample_secret)
      (the (encodeWorkspaceEventCursor sample_mac (Some sample_secret) ''w1'' 7 1000)) ''w1'' 5000)" by code_simp
  have "decodeWorkspaceEventCursor sample_mac strict_decoder (Some sample_secret)
      (the (encodeWorkspaceEventCursor sample_mac (Some sample_secret) ''w1'' 7 1000)) ''w1'' 5000 = Inr 7" by code_simp
  with accepted_cursor_authentic [OF this] show ?thesis by auto
qed

end
