(* ===== verification/Event_Resume.thy ===== *)
theory Event_Resume
  imports Event_Delivery Event_Cursor
begin

text \<open>
  A reload of the client: what a connection leaves in the storage, read by the next session and presented to the
  server, which verifies the signed cursor and starts the stream where the last one stopped.
\<close>

section \<open>What a connection leaves in the storage\<close>

lemma storage_keys: "cursor_key ws \<noteq> cursor_token_key ws'"
  by (simp add: cursor_key_def cursor_token_key_def)

lemma get_set: "get_item (set_item k v (Stored m)) j = (if j = k then Some v else get_item (Stored m) j)"
  by (induction m) auto

lemma set_stored: "\<exists>m'. set_item k v (Stored m) = Stored m'"
  by simp

text \<open>One delivery that continues the applied sequence writes both the sequence and the token.\<close>

lemma step_storage:
  assumes "cl_storage c = Stored m" and "int (delivery_sequence d) = cl_applied c + 1" and "cursor \<noteq> []"
  shows "\<exists>m'. cl_storage (client_step d cursor c) = Stored m'
    \<and> map_of m' (cursor_key (cl_workspace c)) = Some (show_int (int (delivery_sequence d)))
    \<and> map_of m' (cursor_token_key (cl_workspace c)) = Some cursor"
proof -
  let ?k = "cursor_key (cl_workspace c)" and ?t = "cursor_token_key (cl_workspace c)" and ?n = "show_int (int (delivery_sequence d))"
  have "cl_storage (client_step d cursor c) \<in> {set_item ?t cursor (set_item ?k ?n (Stored m)), set_item ?k ?n (set_item ?t cursor (Stored m))}"
    using assms by (cases d) (simp_all add: applyEvent_def record_applied_def clear_audience_def diagnostics_def refresh_def add_effect_def
      persistCursor_def persistCursorToken_def Let_def)
  moreover have "get_item (set_item ?t cursor (set_item ?k ?n (Stored m))) ?k = Some ?n \<and> get_item (set_item ?t cursor (set_item ?k ?n (Stored m))) ?t = Some cursor"
    "get_item (set_item ?k ?n (set_item ?t cursor (Stored m))) ?k = Some ?n \<and> get_item (set_item ?k ?n (set_item ?t cursor (Stored m))) ?t = Some cursor"
    using storage_keys [of "cl_workspace c" "cl_workspace c"] by (simp_all only: set_item.simps get_set [unfolded set_item.simps]) auto
  ultimately show ?thesis by auto
qed

lemma steps_append: "client_steps (as @ bs) c = client_steps bs (client_steps as c)"
  by (induction as arbitrary: c) auto

lemma steps_fields:
  assumes "queued (cl_pending c)" and "map (\<lambda>(d, _). delivery_sequence d) ds = [Suc n..<Suc (n + length ds)]" and "cl_applied c = int n"
    and "cl_storage c = Stored m" and "list_all (\<lambda>(_, cursor). cursor \<noteq> []) ds"
  shows "cl_workspace (client_steps ds c) = cl_workspace c \<and> (\<exists>m'. cl_storage (client_steps ds c) = Stored m')"
  using assms
proof (induction ds arbitrary: c n m)
  case (Cons p ds)
  obtain d cursor where p: "p = (d, cursor)" by (cases p)
  have "[Suc n..<Suc (n + length (p # ds))] = Suc n # [Suc (Suc n)..<Suc (Suc n + length ds)]" by (simp add: upt_conv_Cons del: upt_Suc)
  with Cons.prems(2) have d: "delivery_sequence d = Suc n" and rest: "map (\<lambda>(d, _). delivery_sequence d) ds = [Suc (Suc n)..<Suc (Suc n + length ds)]"
    by (simp_all add: p)
  have n: "int (delivery_sequence d) = cl_applied c + 1" using d Cons.prems(3) by simp
  note step = next_delivery [OF Cons.prems(1) n, of cursor]
  obtain m' where "cl_storage (client_step d cursor c) = Stored m'" using step_storage [OF Cons.prems(4) n] Cons.prems(5) p by auto
  from Cons.IH [OF step(1) rest _ this] Cons.prems(5) step(2,3) d show ?case by (simp add: p)
qed simp

lemma steps_storage:
  assumes "queued (cl_pending c)" and "map (\<lambda>(d, _). delivery_sequence d) ds = [Suc n..<Suc (n + length ds)]" and "cl_applied c = int n"
    and "cl_storage c = Stored m" and "list_all (\<lambda>(_, cursor). cursor \<noteq> []) ds" and "ds \<noteq> []"
  shows "\<exists>m'. cl_storage (client_steps ds c) = Stored m' \<and> map_of m' (cursor_key (cl_workspace c)) = Some (show_int (int (n + length ds)))
    \<and> map_of m' (cursor_token_key (cl_workspace c)) = Some (snd (last ds))"
proof -
  obtain as d cursor where ds: "ds = as @ [(d, cursor)]" using assms(6) by (metis rev_exhaust surj_pair)
  have as: "map (\<lambda>(d, _). delivery_sequence d) as = [Suc n..<Suc (n + length as)]" and d: "delivery_sequence d = Suc (n + length as)"
    using assms(2) by (simp_all add: ds upt_Suc_append)
  have run: "cl_applied (client_steps as c) = int (n + length as)" using client_steps_run [OF assms(1) as assms(3)] by simp
  have "cl_workspace (client_steps as c) = cl_workspace c \<and> (\<exists>m'. cl_storage (client_steps as c) = Stored m')"
    using steps_fields [OF assms(1) as assms(3,4)] assms(5) by (simp add: ds)
  then obtain m' where m': "cl_workspace (client_steps as c) = cl_workspace c" "cl_storage (client_steps as c) = Stored m'" by blast
  have "int (delivery_sequence d) = cl_applied (client_steps as c) + 1" "cursor \<noteq> []" using d run assms(5) by (simp_all add: ds)
  from step_storage [OF m'(2) this] show ?thesis using m'(1) d by (simp add: ds steps_append)
qed

lemma read_storage:
  assumes "\<And>n. clean_cursor (cursor_text (sn_mint sn n)) \<and> cursor_text (sn_mint sn n) \<noteq> []" and "cl_pending c = []" and "0 \<le> cl_applied c" and "n = nat (cl_applied c)"
    and "map vw_workspaceSequence views = [Suc n..<Suc (n + length views)]" and "int (n + length views) \<le> max_safe"
    and "concat texts = concat ((''retry: 1000'' @ [LF, LF]) # frames_for env iso_text ws user sn views)"
    and "cl_storage c = Stored m" and "views \<noteq> []"
  shows "\<exists>m'. cl_storage (connect texts c) = Stored m' \<and> map_of m' (cursor_key (cl_workspace c)) = Some (show_int (int (n + length views)))
    \<and> map_of m' (cursor_token_key (cl_workspace c)) = Some (cursor_text (sn_mint sn (n + length views)))"
proof -
  let ?ds = "deliveries_for env ws user sn views" and ?c = "(diagnostics D_connected None c)\<lparr>cl_serverRetryMs := Some 1000\<rparr>"
  have "vw_workspaceSequence e \<in> {Suc n..<Suc (n + length views)}" if "e \<in> set views" for e
    using that assms(5) by (metis image_eqI set_map set_upt)
  then have safe: "list_all (\<lambda>e. 0 < vw_workspaceSequence e \<and> int (vw_workspaceSequence e) \<le> max_safe) views"
    using assms(6) by (fastforce simp: list_all_iff)
  have clean: "\<And>n. clean_cursor (cursor_text (sn_mint sn n))" using assms(1) by blast
  have "cl_storage (connect texts c) = cl_storage (client_steps ?ds ?c)"
    using arg_cong [OF read_stream(1) [OF clean safe assms(7,2)], of w_storage] by (simp add: view_of_def diagnostics_def add_effect_def)
  moreover have len: "length ?ds = length views" "?ds \<noteq> []" using assms(9) by (simp_all add: deliveries_for_def)
  moreover have "map (\<lambda>(d, _). delivery_sequence d) ?ds = [Suc n..<Suc (n + length ?ds)]"
    unfolding len assms(5) [symmetric] by (simp add: deliveries_for_def reference_sequence)
  moreover have "queued (cl_pending ?c)" "cl_applied ?c = int n" "cl_workspace ?c = cl_workspace c" "cl_storage ?c = Stored m"
    using assms(2-4,8) by (simp_all add: diagnostics_def add_effect_def queued_def)
  moreover have "list_all (\<lambda>(_, cursor). cursor \<noteq> []) ?ds" using assms(1) by (simp add: deliveries_for_def list_all_iff)
  moreover have "snd (last ?ds) = cursor_text (sn_mint sn (n + length views))"
  proof -
    have "vw_workspaceSequence (last views) = n + length views" using assms(5,9) by (metis last_map last_snoc map_is_Nil_conv upt_Suc)
    then show ?thesis using assms(9) by (simp add: deliveries_for_def last_map)
  qed
  ultimately show ?thesis using steps_storage [of ?c ?ds n m] by simp
qed

section \<open>The next session\<close>

text \<open>C3: a session that has caught up with a log, over a stream with signed cursors, leaves in the browser's storage what
  the next session needs: a reload within thirty days starts with the head as its applied sequence, and
  the server accepts the token it presents as exactly that position.\<close>

theorem reload_resumes:
  assumes "inj (new_id env)" and "(log_step env)\<^sup>*\<^sup>* db0 (sn_log sn)" and "no_events db0" and "snapshot_ok env ws user sn"
    and "0 \<le> cl_applied c" and "decideReplay (Some (cl_applied c)) (workspaceEventWindow env (sn_log sn) ws) = Replay_from s"
    and "length (event_rows (sn_log sn)) < k"
    and "start_stream env iso_text ws user (Some (cl_applied c)) None sn (replicate k sn) (new_producer None) = (ph, p)"
    and "concat texts = concat (pd_sent p)" and "cl_pending c = []"
    and "sn_mint sn = (\<lambda>n. encodeWorkspaceEventCursor mac auth ws (int n) issuedAt)" and "cursorSecret auth = Some secret"
    and "\<And>key payload. mac key payload \<noteq> []" and "\<And>s. decoder (base64url (utf8_bytes s)) = Some s"
    and "CHR '':'' \<notin> set ws" and "ws \<noteq> []" and "0 \<le> issuedAt" and "issuedAt \<le> max_safe" and "now \<le> issuedAt + EVENT_CURSOR_LIFETIME_MS"
    and "latest = win_latest (workspaceEventWindow env (sn_log sn) ws)" and "int latest \<le> max_safe" and "cl_applied c < int latest"
    and "cl_storage c = Stored m" and "cl_workspace c = ws" and "storage = cl_storage (connect texts c)"
  shows "readCursor ws storage = int latest
    \<and> read_presented mac decoder auth (Some (readCursorToken ws storage)) ws now = (Some (int latest), None)"
proof -
  from stream_replay_complete [OF assms(1-7)] obtain p' views where p':
    "start_stream env iso_text ws user (Some (cl_applied c)) None sn (replicate k sn) (new_producer None) = (Live, p')"
    "pd_sent p' = (''retry: 1000'' @ [LF, LF]) # frames_for env iso_text ws user sn views"
    and q: "map vw_workspaceSequence views = [Suc (nat (cl_applied c))..<Suc latest]" unfolding assms(20) by blast
  have sent: "concat texts = concat ((''retry: 1000'' @ [LF, LF]) # frames_for env iso_text ws user sn views)" using p' assms(8,9) by simp
  let ?n = "nat (cl_applied c)" and ?ds = "deliveries_for env ws user sn views"
  have minted: "\<exists>token. encodeWorkspaceEventCursor mac auth ws (int n) issuedAt = Some token" for n
    by (simp add: encodeWorkspaceEventCursor_def assms(12) Let_def)
  have tokens: "clean_cursor (cursor_text (sn_mint sn n)) \<and> cursor_text (sn_mint sn n) \<noteq> []" for n
    using minted [of n] minted_shape(2,3) [OF _ assms(13)] by (auto simp: assms(11) cursor_text_def)
  have ahead: "?n < latest" using assms(5,22) by linarith
  have "length views = latest - ?n" using arg_cong [OF q, of length] by (simp del: upt_Suc)
  then have latest: "?n + length views = latest" "views \<noteq> []" using ahead by auto
  from read_storage [OF tokens assms(10,5) refl q [folded latest(1)] _ sent assms(23) latest(2), unfolded latest(1), OF assms(21)]
  obtain m' where m': "storage = Stored m'" "map_of m' (cursor_key ws) = Some (show_int (int latest))"
    "map_of m' (cursor_token_key ws) = Some (cursor_text (sn_mint sn latest))" unfolding assms(24,25) by blast
  obtain token where t: "encodeWorkspaceEventCursor mac auth ws (int latest) issuedAt = Some token" using minted by blast
  have pos: "0 < int latest" "show_int (int latest) \<noteq> []" using assms(5,22) show_no_colon [of "int latest"] by simp_all
  have "readCursor ws storage = int latest" using m' pos assms(21) by (simp add: readCursor_def safe_number_show)
  moreover have "readCursorToken ws storage = token"
    using m' minted_shape [OF t assms(13)] by (simp add: readCursorToken_def assms(11) cursor_text_def t)
  moreover have "decodeWorkspaceEventCursor mac decoder auth token ws now = Inr (int latest)"
    using decode_minted [where decoder = decoder, OF t assms(13,14,15,16) _ assms(21,17,18,12,12)] assms(19) by simp
  ultimately show ?thesis using minted_shape(3) [OF t assms(13)] by (simp add: read_presented_def)
qed

section \<open>Witness\<close>

definition signed_snapshot :: snapshot where
  "signed_snapshot = stream_snapshot\<lparr>sn_mint := \<lambda>n. encodeWorkspaceEventCursor sample_mac (Some sample_secret) ''w1'' (int n) 1000\<rparr>"

definition signed_stream :: producer where
  "signed_stream = snd (start_stream stream_env (\<lambda>_. []) ''w1'' ''u1'' (Some 1) None signed_snapshot (replicate 3 signed_snapshot) (new_producer None))"

theorem reload_resumes_witness:
  "readCursor ''w1'' (cl_storage (connect [concat (pd_sent signed_stream)] sample_client)) = 2
   \<and> read_presented sample_mac strict_decoder (Some sample_secret)
       (Some (readCursorToken ''w1'' (cl_storage (connect [concat (pd_sent signed_stream)] sample_client)))) ''w1'' 5000 = (Some 2, None)"
proof -
  have ids: "inj (new_id stream_env)" by (rule injI) (simp add: stream_env_def replicate_eq_replicate)
  have steps: "(log_step stream_env)\<^sup>*\<^sup>* sample_db (sn_log signed_snapshot)"
    using run_appends_steps [of stream_env sample_db "[sample_event, sample_event]"] by (simp add: signed_snapshot_def stream_snapshot_def stream_db_def)
  have ok: "no_events sample_db" "snapshot_ok stream_env ''w1'' ''u1'' signed_snapshot" by code_simp+
  have client: "0 \<le> cl_applied sample_client" "cl_pending sample_client = []" "cl_applied sample_client = 1" "cl_storage sample_client = Stored []" "cl_workspace sample_client = ''w1''"
    by (simp_all add: sample_client_def)
  have decide: "decideReplay (Some (cl_applied sample_client)) (workspaceEventWindow stream_env (sn_log signed_snapshot) ''w1'') = Replay_from 1" by code_simp
  have few: "length (event_rows (sn_log signed_snapshot)) < 3" by code_simp
  have start: "start_stream stream_env (\<lambda>_. []) ''w1'' ''u1'' (Some (cl_applied sample_client)) None signed_snapshot (replicate 3 signed_snapshot) (new_producer None)
      = (fst (start_stream stream_env (\<lambda>_. []) ''w1'' ''u1'' (Some 1) None signed_snapshot (replicate 3 signed_snapshot) (new_producer None)), signed_stream)"
    by (simp add: signed_stream_def client)
  have whole: "concat [concat (pd_sent signed_stream)] = concat (pd_sent signed_stream)" by simp
  have mint: "sn_mint signed_snapshot = (\<lambda>n. encodeWorkspaceEventCursor sample_mac (Some sample_secret) ''w1'' (int n) 1000)" by (simp add: signed_snapshot_def)
  have secret: "cursorSecret (Some sample_secret) = Some sample_secret" by code_simp
  have mac: "sample_mac key payload \<noteq> []" for key payload by (simp add: sample_mac_def)
  have w: "2 = win_latest (workspaceEventWindow stream_env (sn_log signed_snapshot) ''w1'')" by code_simp
  have bounds: "CHR '':'' \<notin> set ''w1''" "''w1'' \<noteq> []" "(0::int) \<le> 1000" "1000 \<le> max_safe" "(5000::int) \<le> 1000 + EVENT_CURSOR_LIFETIME_MS" "int 2 \<le> max_safe" by code_simp+
  have behind: "cl_applied sample_client < int 2" by (simp add: client)
  from reload_resumes [OF ids steps ok client(1) decide few start whole client(2) mint secret mac strict_decode_inverts bounds(1-5) w bounds(6) behind client(4,5) refl]
  show ?thesis by simp
qed

end
