(* ===== verification/Event_Reconnect.thy ===== *)
theory Event_Reconnect
  imports Complex_Main "HOL-Library.Sublist" Prelude
begin

text \<open>
  When the event client connects: the backoff and the scheduling of \<open>createWorkspaceEventSubscription\<close> in
  \<^verbatim>\<open>packages/data/src/events.ts\<close>. A connection is in flight from the call of \<open>connect\<close> until its promise settles; the
  clock readings, the random number and what ends a connection are inputs. The hooks of the options called at the end of a
  connection do not throw. The timer of \<open>schedule\<close> never fires early.
\<close>

section \<open>Backoff\<close>

definition INITIAL_RECONNECT_DELAY_MS :: int where "INITIAL_RECONNECT_DELAY_MS = 1000"
definition MAX_RECONNECT_DELAY_MS :: int where "MAX_RECONNECT_DELAY_MS = 30000"
definition STABLE_CONNECTION_MS :: int where "STABLE_CONNECTION_MS = 10000"

text \<open>\<open>Math.round\<close>: halves are rounded up.\<close>

definition math_round :: "rat \<Rightarrow> int" where
  "math_round x = \<lfloor>x + 1 / 2\<rfloor>"

definition exponential_delay :: "int \<Rightarrow> int" where
  "exponential_delay attempt = min (INITIAL_RECONNECT_DELAY_MS * 2 ^ nat (max 0 (attempt - 1))) MAX_RECONNECT_DELAY_MS"

definition reconnectDelay :: "int \<Rightarrow> rat \<Rightarrow> int" where
  "reconnectDelay attempt random =
     (let exponential = rat_of_int (exponential_delay attempt) in math_round (exponential / 2 + random * (exponential / 2)))"

section \<open>The subscription\<close>

text \<open>\<open>rn_timer\<close> is the time at which the scheduled callback is due; \<open>rn_starts\<close> and \<open>rn_ends\<close> record the calls of
  \<open>connect\<close> and how many have settled.\<close>

record reconnector =
  rn_stopped :: bool
  rn_paused :: bool
  rn_inFlight :: bool
  rn_reconnectRequested :: bool
  rn_aborted :: bool
  rn_timer :: "int option"
  rn_retryAt :: "int option"
  rn_attempt :: int
  rn_serverRetryMs :: "int option"
  rn_starts :: "int list"
  rn_ends :: nat

definition start_connect :: "int \<Rightarrow> reconnector \<Rightarrow> reconnector" where
  "start_connect now st = st\<lparr>rn_inFlight := True, rn_aborted := False, rn_starts := rn_starts st @ [now]\<rparr>"

definition run_subscription :: "int \<Rightarrow> reconnector \<Rightarrow> reconnector" where
  "run_subscription now st =
     (if rn_stopped st \<or> rn_paused st then st
      else if rn_inFlight st then st
      else start_connect now st)"

definition armRetry :: "int \<Rightarrow> reconnector \<Rightarrow> reconnector" where
  "armRetry now st =
     (let st = st\<lparr>rn_timer := None\<rparr> in
      if rn_stopped st \<or> rn_paused st then st
      else (case rn_retryAt st of
          None \<Rightarrow> st
        | Some retryAt \<Rightarrow>
            let remaining = max 0 (retryAt - now) in
            if remaining = 0 then run_subscription now (st\<lparr>rn_retryAt := None\<rparr>)
            else st\<lparr>rn_timer := Some (now + remaining)\<rparr>))"

definition scheduleReconnect :: "rat \<Rightarrow> int \<Rightarrow> int \<Rightarrow> reconnector \<Rightarrow> reconnector" where
  "scheduleReconnect random now armed st =
     (if rn_stopped st \<or> rn_paused st then st
      else let attempt = rn_attempt st + 1; delay = reconnectDelay attempt random in
        armRetry armed (st\<lparr>rn_attempt := attempt, rn_retryAt := Some (now + max delay (case rn_serverRetryMs st of None \<Rightarrow> 0 | Some n \<Rightarrow> n))\<rparr>))"

text \<open>The end of \<open>connect\<close> (\<open>connectedAt\<close> is zero when the response never came) and the rest of \<open>run\<close>.\<close>

definition connection_ends :: "rat \<Rightarrow> int \<Rightarrow> int \<Rightarrow> int \<Rightarrow> int \<Rightarrow> reconnector \<Rightarrow> reconnector" where
  "connection_ends random connectedAt ended now armed st =
     (let st = st\<lparr>rn_attempt := (if connectedAt > 0 \<and> ended - connectedAt \<ge> STABLE_CONNECTION_MS then 0 else rn_attempt st),
                 rn_inFlight := False, rn_ends := rn_ends st + 1\<rparr> in
      if rn_reconnectRequested st then run_subscription now (st\<lparr>rn_reconnectRequested := False\<rparr>)
      else scheduleReconnect random now armed st)"

definition timer_fires :: "int \<Rightarrow> reconnector \<Rightarrow> reconnector" where
  "timer_fires now st = run_subscription now (st\<lparr>rn_timer := None, rn_retryAt := None\<rparr>)"

definition reconnectNow :: "int \<Rightarrow> reconnector \<Rightarrow> reconnector" where
  "reconnectNow now st =
     (if rn_stopped st \<or> rn_paused st then st
      else let st = st\<lparr>rn_timer := None\<rparr> in
        if rn_retryAt st \<noteq> None then armRetry now st
        else if rn_inFlight st then st\<lparr>rn_reconnectRequested := True, rn_aborted := True\<rparr>
        else run_subscription now st)"

definition visibility_changed :: "bool \<Rightarrow> int \<Rightarrow> reconnector \<Rightarrow> reconnector" where
  "visibility_changed visible now st =
     (if rn_stopped st \<or> (\<not> visible) = rn_paused st then st
      else let st = st\<lparr>rn_paused := \<not> visible\<rparr> in
        if rn_paused st then st\<lparr>rn_timer := None, rn_reconnectRequested := False, rn_aborted := rn_aborted st \<or> rn_inFlight st\<rparr>
        else reconnectNow now st)"

definition stop_subscription :: "reconnector \<Rightarrow> reconnector" where
  "stop_subscription st =
     st\<lparr>rn_stopped := True, rn_reconnectRequested := False, rn_timer := None, rn_aborted := rn_aborted st \<or> rn_inFlight st\<rparr>"

definition create_subscription :: "bool \<Rightarrow> int \<Rightarrow> reconnector" where
  "create_subscription visible now = run_subscription now
     \<lparr>rn_stopped = False, rn_paused = \<not> visible, rn_inFlight = False, rn_reconnectRequested = False, rn_aborted = False,
      rn_timer = None, rn_retryAt = None, rn_attempt = 0, rn_serverRetryMs = None, rn_starts = [], rn_ends = 0\<rparr>"

text \<open>What can happen to a subscription, in any order.\<close>

datatype sub_event =
    Timer_fires int
  | Connection_ends rat int int int int
  | Retry_hint int
  | Reconnect_call int
  | Visibility bool int
  | Stop_call

fun enabled :: "sub_event \<Rightarrow> reconnector \<Rightarrow> bool" where
  "enabled (Timer_fires now) st = (case rn_timer st of None \<Rightarrow> False | Some due \<Rightarrow> due \<le> now)"
| "enabled (Connection_ends random c e now armed) st = (rn_inFlight st \<and> 0 \<le> random \<and> random < 1)"
| "enabled (Retry_hint n) st = (rn_inFlight st \<and> 0 \<le> n)"
| "enabled _ st = True"

fun happens :: "sub_event \<Rightarrow> reconnector \<Rightarrow> reconnector" where
  "happens (Timer_fires now) st = timer_fires now st"
| "happens (Connection_ends random c e now armed) st = connection_ends random c e now armed st"
| "happens (Retry_hint n) st = st\<lparr>rn_serverRetryMs := Some n\<rparr>"
| "happens (Reconnect_call now) st = reconnectNow now st"
| "happens (Visibility visible now) st = visibility_changed visible now st"
| "happens Stop_call st = stop_subscription st"

inductive sub_step :: "reconnector \<Rightarrow> reconnector \<Rightarrow> bool" where
  sub_stepI: "enabled e st \<Longrightarrow> sub_step st (happens e st)"

section \<open>Bounds of the delay\<close>

lemma exponential_bounds: "1000 \<le> exponential_delay attempt" "exponential_delay attempt \<le> 30000"
proof -
  have "(1::int) \<le> 2 ^ n" for n by simp
  then show "1000 \<le> exponential_delay attempt" "exponential_delay attempt \<le> 30000"
    by (simp_all add: exponential_delay_def INITIAL_RECONNECT_DELAY_MS_def MAX_RECONNECT_DELAY_MS_def)
qed

lemma exponential_even: "even (exponential_delay attempt)"
  by (simp add: exponential_delay_def INITIAL_RECONNECT_DELAY_MS_def MAX_RECONNECT_DELAY_MS_def min_def)

lemma delay_between:
  assumes "0 \<le> random" and "random < 1"
  shows "exponential_delay attempt div 2 \<le> reconnectDelay attempt random" and "reconnectDelay attempt random \<le> exponential_delay attempt"
proof -
  obtain h where h: "exponential_delay attempt = 2 * h" using exponential_even [of attempt] by (rule evenE)
  have pos: "0 < h" using exponential_bounds(1) [of attempt] h by simp
  have r: "reconnectDelay attempt random = \<lfloor>of_int h + random * of_int h + 1 / 2\<rfloor>" by (simp add: reconnectDelay_def math_round_def h)
  have "0 \<le> random * of_int h" "random * of_int h < of_int h" using assms pos by simp_all
  then show "exponential_delay attempt div 2 \<le> reconnectDelay attempt random" "reconnectDelay attempt random \<le> exponential_delay attempt"
    unfolding r h by (linarith | simp add: floor_le_iff le_floor_iff)+
qed

text \<open>C36: the delay before a reconnect lies between half and all of a second doubled at every attempt, up to thirty
  seconds: at least half a second, at most thirty, and from the sixth attempt on at least fifteen.\<close>

theorem reconnect_delay_bounds:
  assumes "0 \<le> random" and "random < 1" and "1 \<le> attempt"
  shows "min (500 * 2 ^ nat (attempt - 1)) 15000 \<le> reconnectDelay attempt random
    \<and> reconnectDelay attempt random \<le> min (1000 * 2 ^ nat (attempt - 1)) 30000
    \<and> (6 \<le> attempt \<longrightarrow> 15000 \<le> reconnectDelay attempt random)"
proof -
  have e: "exponential_delay attempt = 2 * min (500 * 2 ^ nat (attempt - 1)) 15000"
    using assms(3) by (simp add: exponential_delay_def INITIAL_RECONNECT_DELAY_MS_def MAX_RECONNECT_DELAY_MS_def min_def)
  have "15000 \<le> 500 * (2::int) ^ nat (attempt - 1)" if "6 \<le> attempt"
  proof -
    have "5 \<le> nat (attempt - 1)" using that by linarith
    then have "(2::int) ^ 5 \<le> 2 ^ nat (attempt - 1)" by (rule power_increasing) simp
    then show ?thesis by simp
  qed
  with delay_between [OF assms(1,2), of attempt] show ?thesis unfolding e by (auto simp: min_def split: if_splits)
qed

section \<open>One connection at a time, and never stuck\<close>

definition sub_inv :: "reconnector \<Rightarrow> bool" where
  "sub_inv st \<longleftrightarrow> length (rn_starts st) = rn_ends st + (if rn_inFlight st then 1 else 0)
     \<and> (rn_inFlight st \<longrightarrow> rn_retryAt st = None)
     \<and> (rn_timer st \<noteq> None \<longrightarrow> rn_timer st = rn_retryAt st \<and> \<not> rn_stopped st \<and> \<not> rn_paused st)
     \<and> (rn_reconnectRequested st \<longrightarrow> rn_inFlight st \<and> rn_aborted st)
     \<and> (rn_stopped st \<or> rn_paused st \<or> rn_inFlight st \<or> rn_timer st \<noteq> None)
     \<and> (rn_inFlight st \<and> (rn_stopped st \<or> rn_paused st) \<longrightarrow> rn_aborted st)"

text \<open>No connection, no timer: the states in which the next attempt is decided.\<close>

definition at_rest :: "reconnector \<Rightarrow> bool" where
  "at_rest st \<longleftrightarrow> length (rn_starts st) = rn_ends st \<and> \<not> rn_inFlight st \<and> \<not> rn_reconnectRequested st \<and> rn_timer st = None"

lemma run_inv: "at_rest st \<Longrightarrow> rn_retryAt st = None \<Longrightarrow> sub_inv (run_subscription now st)"
  by (simp add: at_rest_def sub_inv_def run_subscription_def start_connect_def)

lemma arm_inv:
  assumes "at_rest (st\<lparr>rn_timer := None\<rparr>)" and "rn_retryAt st = Some d"
  shows "sub_inv (armRetry now st)"
proof (cases "rn_stopped st \<or> rn_paused st")
  case True
  then show ?thesis using assms by (simp add: armRetry_def at_rest_def sub_inv_def)
next
  case active: False
  show ?thesis
  proof (cases "d \<le> now")
    case True
    then have "armRetry now st = run_subscription now (st\<lparr>rn_timer := None, rn_retryAt := None\<rparr>)"
      using active assms(2) by (simp add: armRetry_def Let_def)
    then show ?thesis using run_inv [of "st\<lparr>rn_timer := None, rn_retryAt := None\<rparr>" now] assms(1) by (simp add: at_rest_def)
  next
    case False
    then have "armRetry now st = st\<lparr>rn_timer := Some d\<rparr>" using active assms(2) by (simp add: armRetry_def Let_def)
    then show ?thesis using active assms by (simp add: at_rest_def sub_inv_def)
  qed
qed

lemma schedule_inv: "at_rest st \<Longrightarrow> sub_inv (scheduleReconnect random now armed st)"
proof (cases "rn_stopped st \<or> rn_paused st")
  case False
  assume "at_rest st"
  with False show ?thesis unfolding scheduleReconnect_def Let_def by (simp, intro arm_inv) (simp_all add: at_rest_def)
qed (simp add: scheduleReconnect_def at_rest_def sub_inv_def)

lemma ends_inv:
  assumes "sub_inv st" and "rn_inFlight st"
  shows "sub_inv (connection_ends random connectedAt ended now armed st)"
proof -
  let ?st = "\<lambda>a. st\<lparr>rn_attempt := a, rn_inFlight := False, rn_ends := rn_ends st + 1\<rparr>"
  have none: "rn_retryAt st = None" "rn_timer st = None" "length (rn_starts st) = rn_ends st + 1" using assms by (auto simp: sub_inv_def)
  show ?thesis
  proof (cases "rn_reconnectRequested st")
    case True
    have "sub_inv (run_subscription now ((?st a)\<lparr>rn_reconnectRequested := False\<rparr>))" for a
      by (rule run_inv) (simp_all add: at_rest_def none)
    with True show ?thesis by (simp add: connection_ends_def Let_def)
  next
    case False
    have "sub_inv (scheduleReconnect random now armed (?st a))" for a
      by (rule schedule_inv) (simp add: at_rest_def none False)
    with False show ?thesis by (simp add: connection_ends_def Let_def)
  qed
qed

text \<open>What \<open>reconnectNow\<close> needs: it is also called when the subscription has just become visible.\<close>

lemma reconnect_inv:
  assumes "length (rn_starts st) = rn_ends st + (if rn_inFlight st then 1 else 0)" and "rn_inFlight st \<longrightarrow> rn_retryAt st = None"
    and "rn_reconnectRequested st \<longrightarrow> rn_inFlight st" and "\<not> rn_stopped st" and "\<not> rn_paused st"
  shows "sub_inv (reconnectNow now st)"
proof (cases "rn_retryAt st")
  case None
  show ?thesis
  proof (cases "rn_inFlight st")
    case True
    then show ?thesis using assms None by (simp add: reconnectNow_def sub_inv_def)
  next
    case False
    then have "reconnectNow now st = run_subscription now (st\<lparr>rn_timer := None\<rparr>)" using assms None by (simp add: reconnectNow_def)
    then show ?thesis using assms None False run_inv [of "st\<lparr>rn_timer := None\<rparr>" now] by (simp add: at_rest_def)
  qed
next
  case (Some d)
  then have "reconnectNow now st = armRetry now (st\<lparr>rn_timer := None\<rparr>)" using assms by (simp add: reconnectNow_def)
  then show ?thesis using assms Some arm_inv [of "st\<lparr>rn_timer := None\<rparr>" d now] by (simp add: at_rest_def)
qed

lemma visibility_inv:
  assumes "sub_inv st"
  shows "sub_inv (visibility_changed visible now st)"
proof (cases "rn_stopped st \<or> (\<not> visible) = rn_paused st")
  case True
  then show ?thesis using assms by (simp add: visibility_changed_def)
next
  case False
  show ?thesis
  proof (cases visible)
    case True
    then have "visibility_changed visible now st = reconnectNow now (st\<lparr>rn_paused := False\<rparr>)" using False by (simp add: visibility_changed_def)
    then show ?thesis using assms False reconnect_inv [of "st\<lparr>rn_paused := False\<rparr>" now] by (simp add: sub_inv_def [of st])
  next
    case hidden: False
    then show ?thesis using assms False by (auto simp: visibility_changed_def sub_inv_def)
  qed
qed

lemma timer_inv:
  assumes "sub_inv st" and "rn_timer st \<noteq> None"
  shows "sub_inv (timer_fires now st)"
proof -
  have "\<not> rn_inFlight st" using assms by (auto simp: sub_inv_def)
  then show ?thesis unfolding timer_fires_def using assms(1) by (intro run_inv) (auto simp: at_rest_def sub_inv_def)
qed

lemma create_inv: "sub_inv (create_subscription visible now)"
  unfolding create_subscription_def by (rule run_inv) (simp_all add: at_rest_def)

lemma sub_step_inv: "sub_step st st' \<Longrightarrow> sub_inv st \<Longrightarrow> sub_inv st'"
proof (induction rule: sub_step.induct)
  case (sub_stepI e st)
  show ?case
  proof (cases e)
    case (Timer_fires now)
    then show ?thesis using sub_stepI timer_inv [of st now] by (simp split: option.splits)
  next
    case (Connection_ends r c x n m)
    then show ?thesis using sub_stepI ends_inv [of st] by simp
  next
    case (Reconnect_call now)
    then show ?thesis using sub_stepI(2) reconnect_inv [of st now]
      by (cases "rn_stopped st \<or> rn_paused st") (simp add: reconnectNow_def, simp add: sub_inv_def [of st])
  next
    case (Visibility v now)
    then show ?thesis using visibility_inv [OF sub_stepI(2)] by simp
  qed (use sub_stepI in \<open>auto simp: sub_inv_def stop_subscription_def\<close>)
qed

lemma sub_steps_inv: "sub_step\<^sup>*\<^sup>* st st' \<Longrightarrow> sub_inv st \<Longrightarrow> sub_inv st'"
  by (induction rule: rtranclp_induct) (auto intro: sub_step_inv)

text \<open>C13: whatever sequence of timers, lost connections, server hints, visibility changes and calls a subscription sees,
  at most one of its connections is open; while it is visible and not stopped, either a connection is
  open or a timer is armed for its next attempt, never both and never neither; and while it is hidden or
  stopped no timer is armed and an open connection has been aborted.\<close>

theorem one_connection_or_timer:
  assumes "sub_step\<^sup>*\<^sup>* (create_subscription visible now) st"
  shows "length (rn_starts st) = rn_ends st + (if rn_inFlight st then 1 else 0)
    \<and> (if rn_stopped st \<or> rn_paused st then rn_timer st = None \<and> (rn_inFlight st \<longrightarrow> rn_aborted st)
       else rn_inFlight st = (rn_timer st = None))"
  using sub_steps_inv [OF assms create_inv] by (auto simp: sub_inv_def)

section \<open>The deadline of a retry\<close>

text \<open>Until the deadline of a pending retry passes no connection starts, whatever happens.\<close>

definition waits_until :: "int \<Rightarrow> int list \<Rightarrow> reconnector \<Rightarrow> bool" where
  "waits_until d starts st \<longleftrightarrow> rn_starts st = starts \<and> rn_retryAt st = Some d \<and> \<not> rn_inFlight st
     \<or> (\<exists>t ts. rn_starts st = starts @ t # ts \<and> d \<le> t)"

lemma starts_grow:
  "prefix (rn_starts st) (rn_starts (run_subscription now st))"
  "prefix (rn_starts st) (rn_starts (armRetry now st))"
  "prefix (rn_starts st) (rn_starts (scheduleReconnect random now armed st))"
  "prefix (rn_starts st) (rn_starts (reconnectNow now st))"
proof -
  show run: "prefix (rn_starts st) (rn_starts (run_subscription now st))" for now st
    by (simp add: run_subscription_def start_connect_def)
  show arm: "prefix (rn_starts st) (rn_starts (armRetry now st))" for now st
    using run [of "st\<lparr>rn_timer := None, rn_retryAt := None\<rparr>" now] by (simp add: armRetry_def Let_def split: option.split)
  show "prefix (rn_starts st) (rn_starts (scheduleReconnect random now armed st))"
    using arm [of "st\<lparr>rn_attempt := _, rn_retryAt := _\<rparr>" armed] by (simp add: scheduleReconnect_def Let_def)
  show "prefix (rn_starts st) (rn_starts (reconnectNow now st))"
    using run [of "st\<lparr>rn_timer := None\<rparr>" now] arm [of "st\<lparr>rn_timer := None\<rparr>" now] by (simp add: reconnectNow_def Let_def)
qed

lemma happens_grows: "prefix (rn_starts st) (rn_starts (happens e st))"
proof (cases e)
  case (Timer_fires now)
  then show ?thesis using starts_grow(1) [of "st\<lparr>rn_timer := None, rn_retryAt := None\<rparr>" now] by (simp add: timer_fires_def)
next
  case (Connection_ends r c x n m)
  have "prefix (rn_starts st) (rn_starts (run_subscription n (st\<lparr>rn_attempt := a, rn_inFlight := f, rn_ends := k, rn_reconnectRequested := False\<rparr>)))"
    "prefix (rn_starts st) (rn_starts (scheduleReconnect r n m (st\<lparr>rn_attempt := a, rn_inFlight := f, rn_ends := k\<rparr>)))" for a f k
    using starts_grow(1) [of "st\<lparr>rn_attempt := a, rn_inFlight := f, rn_ends := k, rn_reconnectRequested := False\<rparr>" n]
      starts_grow(3) [of "st\<lparr>rn_attempt := a, rn_inFlight := f, rn_ends := k\<rparr>" r n m] by simp_all
  then show ?thesis using Connection_ends by (simp add: connection_ends_def Let_def)
next
  case (Visibility v now)
  then show ?thesis using starts_grow(4) [of "st\<lparr>rn_paused := False\<rparr>" now] by (simp add: visibility_changed_def Let_def)
qed (simp_all add: starts_grow stop_subscription_def)

lemma waits_armed:
  assumes "rn_starts st = starts" and "rn_retryAt st = Some d" and "\<not> rn_inFlight st"
  shows "waits_until d starts (armRetry now st)"
  using assms by (auto simp: waits_until_def armRetry_def run_subscription_def start_connect_def Let_def)

lemma waits_reconnect:
  assumes "rn_starts st = starts" and "rn_retryAt st = Some d" and "\<not> rn_inFlight st"
  shows "waits_until d starts (reconnectNow now st)"
  using assms waits_armed [of "st\<lparr>rn_timer := None\<rparr>" starts d now] by (simp add: reconnectNow_def waits_until_def Let_def)

lemma waits_step:
  assumes "sub_step st st'" and "sub_inv st" and "waits_until d starts st"
  shows "waits_until d starts st'"
proof (cases "rn_starts st = starts \<and> rn_retryAt st = Some d \<and> \<not> rn_inFlight st")
  case False
  with assms(3) obtain t ts where t: "rn_starts st = starts @ t # ts" "d \<le> t" by (auto simp: waits_until_def)
  from assms(1) obtain e where "st' = happens e st" by (cases) auto
  with happens_grows [of st e] t show ?thesis by (auto simp: waits_until_def prefix_def)
next
  case w: True
  from assms(1) obtain e where e: "st' = happens e st" "enabled e st" by (cases) auto
  show ?thesis
  proof (cases e)
    case (Timer_fires now)
    then have "d \<le> now" "\<not> rn_stopped st" "\<not> rn_paused st" using e w assms(2) by (auto simp: sub_inv_def split: option.splits)
    then show ?thesis using e w Timer_fires by (simp add: timer_fires_def run_subscription_def start_connect_def waits_until_def)
  next
    case (Reconnect_call now)
    then show ?thesis using e w waits_reconnect by simp
  next
    case (Visibility v now)
    then show ?thesis using e w waits_reconnect [of "st\<lparr>rn_paused := False\<rparr>" starts d now]
      by (simp add: visibility_changed_def waits_until_def Let_def)
  qed (use e w in \<open>simp_all add: stop_subscription_def waits_until_def\<close>)
qed

lemma waits_steps:
  assumes "sub_step\<^sup>*\<^sup>* st st'" and "sub_inv st" and "waits_until d starts st"
  shows "waits_until d starts st'"
  using assms by (induction rule: rtranclp_induct) (auto intro: waits_step sub_steps_inv)

text \<open>C17: after a connection of a visible subscription was lost, and however the user hides, shows or reconnects it, the
  next connection starts no earlier than the backoff and the server's retry hint demand, so at least half
  a second after the loss.\<close>

theorem backoff_respected:
  assumes "sub_step\<^sup>*\<^sup>* (create_subscription visible t0) st" and "enabled (Connection_ends random connectedAt ended now armed) st"
    and "\<not> rn_stopped st" and "\<not> rn_paused st" and "\<not> rn_reconnectRequested st"
    and "sub_step\<^sup>*\<^sup>* (connection_ends random connectedAt ended now armed st) st'" and "rn_starts st' = rn_starts st @ t # ts"
    and "attempt = (if connectedAt > 0 \<and> ended - connectedAt \<ge> STABLE_CONNECTION_MS then 0 else rn_attempt st) + 1"
  shows "now + reconnectDelay attempt random \<le> t \<and> now + (case rn_serverRetryMs st of None \<Rightarrow> 0 | Some n \<Rightarrow> n) \<le> t \<and> now + 500 \<le> t"
proof -
  let ?d = "now + max (reconnectDelay attempt random) (case rn_serverRetryMs st of None \<Rightarrow> 0 | Some n \<Rightarrow> n)"
  let ?lost = "st\<lparr>rn_inFlight := False, rn_ends := rn_ends st + 1, rn_attempt := attempt, rn_retryAt := Some ?d\<rparr>"
  have inv: "sub_inv st" by (rule sub_steps_inv [OF assms(1) create_inv])
  have lost: "connection_ends random connectedAt ended now armed st = armRetry armed ?lost"
    using assms(3-5) by (simp add: connection_ends_def scheduleReconnect_def assms(8) Let_def)
  have "waits_until ?d (rn_starts st) (connection_ends random connectedAt ended now armed st)"
    unfolding lost by (rule waits_armed) simp_all
  moreover have "sub_inv (connection_ends random connectedAt ended now armed st)" using inv assms(2) by (intro ends_inv) simp_all
  ultimately have "waits_until ?d (rn_starts st) st'" using waits_steps [OF assms(6)] by blast
  then have "?d \<le> t" using assms(7) by (auto simp: waits_until_def)
  moreover have "500 \<le> reconnectDelay attempt random"
    using delay_between(1) [of random attempt] exponential_bounds(1) [of attempt] assms(2) by simp
  ultimately show ?thesis by linarith
qed

text \<open>Once stopped, a subscription never connects again and arms no timer.\<close>

theorem stop_is_final:
  assumes "sub_step\<^sup>*\<^sup>* (stop_subscription st) st'"
  shows "rn_starts st' = rn_starts st \<and> rn_timer st' = None \<and> rn_stopped st'"
  using assms
proof (induction rule: rtranclp_induct)
  case (step y z)
  from step(2) obtain e where e: "z = happens e y" "enabled e y" by (cases) auto
  have "rn_stopped y" "rn_timer y = None" using step.IH by simp_all
  then have "rn_starts z = rn_starts y \<and> rn_timer z = None \<and> rn_stopped z"
    using e by (cases e) (simp_all add: connection_ends_def run_subscription_def scheduleReconnect_def reconnectNow_def
      visibility_changed_def stop_subscription_def Let_def)
  with step.IH show ?case by simp
qed (simp add: stop_subscription_def)

section \<open>Witnesses\<close>

text \<open>A connection opened at time 0 that ends before it was answered, and its retry.\<close>

definition lost_event :: sub_event where "lost_event = Connection_ends (1 / 2) 0 10 10 10"
definition lost_once :: reconnector where "lost_once = happens lost_event (create_subscription True 0)"

lemma then_happens: "sub_step\<^sup>*\<^sup>* st st' \<Longrightarrow> enabled e st' \<Longrightarrow> sub_step\<^sup>*\<^sup>* st (happens e st')"
  by (erule rtranclp.rtrancl_into_rtrancl) (rule sub_stepI)

theorem reconnect_delay_bounds_witness: "2000 \<le> reconnectDelay 3 (1 / 2) \<and> reconnectDelay 3 (1 / 2) \<le> 4000"
  using reconnect_delay_bounds [of "1 / 2" 3] by simp

theorem one_connection_or_timer_witness: "\<not> rn_inFlight lost_once \<and> rn_timer lost_once \<noteq> None"
proof -
  have "enabled lost_event (create_subscription True 0)" by code_simp
  from one_connection_or_timer [OF then_happens [OF rtranclp.rtrancl_refl this], folded lost_once_def]
  have "rn_inFlight lost_once = (rn_timer lost_once = None) \<or> rn_stopped lost_once \<or> rn_paused lost_once"
    by (simp split: if_splits)
  moreover have "\<not> rn_inFlight lost_once" "\<not> rn_stopped lost_once" "\<not> rn_paused lost_once" by code_simp+
  ultimately show ?thesis by simp
qed

definition hidden_and_shown :: reconnector where
  "hidden_and_shown = happens (Visibility True 20) (happens (Visibility False 15) lost_once)"

theorem backoff_respected_witness:
  "rn_starts (happens (Timer_fires 760) hidden_and_shown) = [0, 760] \<and> 10 + 500 \<le> (760::int)"
proof -
  have en: "enabled (Connection_ends (1 / 2) 0 10 10 10) (create_subscription True 0)" "enabled (Timer_fires 760) hidden_and_shown" by code_simp+
  have s: "rn_starts (happens (Timer_fires 760) hidden_and_shown) = [0, 760]" by code_simp
  have lost: "connection_ends (1 / 2) 0 10 10 10 (create_subscription True 0) = lost_once" by (simp add: lost_once_def lost_event_def)
  have "sub_step\<^sup>*\<^sup>* lost_once hidden_and_shown"
    unfolding hidden_and_shown_def by (rule then_happens [OF then_happens [OF rtranclp.rtrancl_refl]]) simp_all
  from then_happens [OF this en(2)]
  have steps: "sub_step\<^sup>*\<^sup>* (connection_ends (1 / 2) 0 10 10 10 (create_subscription True 0)) (happens (Timer_fires 760) hidden_and_shown)"
    unfolding lost .
  have idle: "\<not> rn_stopped (create_subscription True 0)" "\<not> rn_paused (create_subscription True 0)" "\<not> rn_reconnectRequested (create_subscription True 0)" by code_simp+
  have "rn_starts (create_subscription True 0) = [0]" by code_simp
  then have grows: "rn_starts (happens (Timer_fires 760) hidden_and_shown) = rn_starts (create_subscription True 0) @ 760 # []" unfolding s by simp
  from backoff_respected [OF rtranclp.rtrancl_refl en(1) idle steps grows refl] s show ?thesis by simp
qed

theorem stop_is_final_witness: "rn_starts (happens (Visibility False 15) (stop_subscription lost_once)) = [0]"
proof -
  have "sub_step\<^sup>*\<^sup>* (stop_subscription lost_once) (happens (Visibility False 15) (stop_subscription lost_once))"
    by (rule then_happens [OF rtranclp.rtrancl_refl]) simp
  from stop_is_final [OF this] have "rn_starts (happens (Visibility False 15) (stop_subscription lost_once)) = rn_starts lost_once" by simp
  moreover have "rn_starts lost_once = [0]" by code_simp
  ultimately show ?thesis by simp
qed

end
