(* ===== verification/Content_Access.thy ===== *)
theory Content_Access
  imports Event_Visibility
begin

text \<open>
  The rest of \<^verbatim>\<open>packages/db/src/project-access.ts\<close>: the visibility of task-owned rows, the editor shortcut for
  conversations, and the visibility of a content reference. Whether \<open>filterVisibleMessageRows\<close> of
  \<^verbatim>\<open>job-outbound-read.ts\<close> keeps a message is the argument \<open>sees\<close>.
\<close>

section \<open>Operations\<close>

text \<open>The column \<open>visibility\<close> of the channels, given by the ids of those open to participants only, and the participants.\<close>

record participant_row =
  pt_workspaceId :: string
  pt_channelId :: string
  pt_principalKind :: string
  pt_userId :: "string option"

record conversation_tables =
  participants_only :: "string list"
  participant_rows :: "participant_row list"

definition visibleTaskCondition :: "related_tables \<Rightarrow> access_scope \<Rightarrow> string option \<Rightarrow> bool" where
  "visibleTaskCondition rel scope column =
     (if sc_hiddenProjectIds scope = [] then True
      else (case column of
          None \<Rightarrow> True
        | Some tid \<Rightarrow> tid \<notin> set (map tk_id (filter (\<lambda>t. case tk_projectId t of None \<Rightarrow> False | Some p \<Rightarrow> p \<in> set (sc_hiddenProjectIds scope)) (task_rows rel)))))"

datatype conversation_target = Target_channel string | Target_message string

text \<open>The project of the row that is found; the channel of a message is joined by its id alone.\<close>

fun target_project :: "db_env \<Rightarrow> product_db \<Rightarrow> related_tables \<Rightarrow> string \<Rightarrow> conversation_target \<Rightarrow> string option" where
  "target_project env db rel ws (Target_channel cid) = Option.bind (channel_in env db ws (uuid_in env cid)) ch_projectId"
| "target_project env db rel ws (Target_message mid) =
     Option.bind (message_in env rel ws (uuid_in env mid)) (\<lambda>m. Option.bind (find (\<lambda>c. ch_id c = mg_channelId m) (channel_rows db)) ch_projectId)"

definition isMembersProjectEditorForConversation ::
  "db_env \<Rightarrow> product_db \<Rightarrow> related_tables \<Rightarrow> string \<Rightarrow> string \<Rightarrow> conversation_target \<Rightarrow> bool" where
  "isMembersProjectEditorForConversation env db rel workspaceId userId target =
     (case target_project env db rel workspaceId target of
        None \<Rightarrow> False
      | Some pid \<Rightarrow>
          if pid = [] then False
          else (case resolveProjectAccessScope env db workspaceId userId of
              None \<Rightarrow> False
            | Some scope \<Rightarrow> pid \<in> set (sc_membersOnlyProjectIds scope) \<and> map_of (rev (sc_memberRoles scope)) pid = Some Editor))"

definition participates :: "db_env \<Rightarrow> conversation_tables \<Rightarrow> string \<Rightarrow> string \<Rightarrow> channel_row \<Rightarrow> bool" where
  "participates env conv ws user c =
     list_ex (\<lambda>t. pt_workspaceId t = uuid_in env ws \<and> pt_channelId t = ch_id c \<and> pt_principalKind t = ''user'' \<and> pt_userId t = Some (uuid_in env user))
       (participant_rows conv)"

definition task_part :: "db_env \<Rightarrow> related_tables \<Rightarrow> string \<Rightarrow> access_scope \<Rightarrow> content_row \<Rightarrow> bool" where
  "task_part env rel ws scope x =
     (case cr_taskId x of
        None \<Rightarrow> canReadProject scope None
      | Some tid \<Rightarrow> (case task_in env rel ws tid of None \<Rightarrow> False | Some t \<Rightarrow> canReadProject scope (tk_projectId t)))"

definition message_part ::
  "db_env \<Rightarrow> product_db \<Rightarrow> related_tables \<Rightarrow> conversation_tables \<Rightarrow> (string \<Rightarrow> bool) \<Rightarrow> string \<Rightarrow> string \<Rightarrow> access_scope \<Rightarrow> string \<Rightarrow> bool" where
  "message_part env db rel conv sees ws user scope mid =
     (case message_in env rel ws mid of
        None \<Rightarrow> False
      | Some m \<Rightarrow>
          (case find (\<lambda>c. ch_id c = mg_channelId m \<and> ch_workspaceId c = uuid_in env ws \<and> ch_lifecycle c = PActive) (channel_rows db) of
             None \<Rightarrow> False
           | Some c \<Rightarrow>
               if \<not> canReadProject scope (ch_projectId c) then False
               else if ch_id c \<in> set (participants_only conv) \<and> \<not> participates env conv ws user c then False
               else sees (mg_id m)))"

definition isContentRefVisible ::
  "db_env \<Rightarrow> product_db \<Rightarrow> related_tables \<Rightarrow> conversation_tables \<Rightarrow> (string \<Rightarrow> bool) \<Rightarrow> string \<Rightarrow> string \<Rightarrow> string \<Rightarrow> bool" where
  "isContentRefVisible env db rel conv sees workspaceId userId contentRefId =
     (case resolveProjectAccessScope env db workspaceId userId of
        None \<Rightarrow> False
      | Some scope \<Rightarrow>
          (case find (\<lambda>x. cr_id x = uuid_in env contentRefId \<and> cr_workspaceId x = uuid_in env workspaceId) (content_rows rel) of
             None \<Rightarrow> False
           | Some x \<Rightarrow>
               if \<not> task_part env rel workspaceId scope x then False
               else (case cr_messageId x of None \<Rightarrow> True | Some mid \<Rightarrow> message_part env db rel conv sees workspaceId userId scope mid)))"

section \<open>Against the tables\<close>

definition open_project :: "db_env \<Rightarrow> product_db \<Rightarrow> string \<Rightarrow> string \<Rightarrow> string option \<Rightarrow> bool" where
  "open_project env db ws user p \<longleftrightarrow> (case p of None \<Rightarrow> True | Some pid \<Rightarrow> \<not> concealed_id env db ws user pid)"

lemma scope_open:
  assumes "tables_ok env db" and "uuid_in env user = user" and "resolveProjectAccessScope env db ws user = Some scope"
  shows "canReadProject scope p = open_project env db ws user p"
proof -
  have "\<not> concealed_id env db ws user []" using assms(1) by (auto simp: concealed_id_def list_ex_iff tables_ok_def)
  then show ?thesis using hidden_concealed [OF assms] by (auto simp: canReadProject_def open_project_def split: option.splits)
qed

text \<open>A content reference of the workspace that belongs to nothing the user may not see: its task, if any, is there and in
  no concealed project, its message, if any, is there and visible, in an active channel of the workspace whose
  project is not concealed and which, when it is open to participants only, the user takes part in.\<close>

definition content_open :: "db_env \<Rightarrow> product_db \<Rightarrow> related_tables \<Rightarrow> conversation_tables \<Rightarrow> (string \<Rightarrow> bool) \<Rightarrow> string \<Rightarrow> string \<Rightarrow> content_row \<Rightarrow> bool" where
  "content_open env db rel conv sees ws user x \<longleftrightarrow>
     (\<forall>tid. cr_taskId x = Some tid \<longrightarrow>
        (\<exists>t\<in>set (task_rows rel). tk_id t = tid \<and> tk_workspaceId t = uuid_in env ws \<and> open_project env db ws user (tk_projectId t)))
     \<and> (\<forall>mid. cr_messageId x = Some mid \<longrightarrow> sees mid \<and>
        (\<exists>m\<in>set (message_rows rel). mg_id m = mid \<and> mg_workspaceId m = uuid_in env ws
           \<and> (\<exists>c\<in>set (channel_rows db). ch_id c = mg_channelId m \<and> ch_workspaceId c = uuid_in env ws \<and> ch_lifecycle c = PActive
                \<and> open_project env db ws user (ch_projectId c)
                \<and> (ch_id c \<in> set (participants_only conv) \<longrightarrow> participates env conv ws user c))))"

text \<open>Looking a row up by its unique key.\<close>

lemma find_key:
  assumes "distinct (map key rows)" and "\<And>r. P r \<Longrightarrow> key r = k"
  shows "(case find P rows of None \<Rightarrow> False | Some r \<Rightarrow> Q r) \<longleftrightarrow> (\<exists>r\<in>set rows. P r \<and> Q r)"
proof (cases "find P rows")
  case None
  have "\<not> P r" if "r \<in> set rows" for r using None that by (simp add: find_None_iff)
  with None show ?thesis by auto
next
  case (Some r)
  then have r: "r \<in> set rows" "P r" by (auto simp: find_Some_iff)
  have inj: "inj_on key (set rows)" using assms(1) by (simp add: distinct_map)
  have "s = r" if "s \<in> set rows" "P s" for s
    using inj_onD [OF inj _ that(1) r(1)] assms(2) [OF that(2)] assms(2) [OF r(2)] by simp
  with r show ?thesis unfolding Some option.case by blast
qed

lemma task_part_open:
  assumes "tables_ok env db" and "related_ok env db rel" and "uuid_in env user = user" and "resolveProjectAccessScope env db ws user = Some scope"
  shows "task_part env rel ws scope x \<longleftrightarrow> (\<forall>tid. cr_taskId x = Some tid \<longrightarrow>
    (\<exists>t\<in>set (task_rows rel). tk_id t = tid \<and> tk_workspaceId t = uuid_in env ws \<and> open_project env db ws user (tk_projectId t)))"
proof -
  have d: "distinct (map tk_id (task_rows rel))" using assms(2) by (simp add: related_ok_def)
  show ?thesis
    using find_key [OF d, of "\<lambda>t. tk_id t = tid \<and> tk_workspaceId t = uuid_in env ws" tid "\<lambda>t. canReadProject scope (tk_projectId t)" for tid]
    by (cases "cr_taskId x") (auto simp: task_part_def task_in_def scope_open [OF assms(1,3,4)] open_project_def)
qed

lemma message_part_open:
  assumes "tables_ok env db" and "related_ok env db rel" and "uuid_in env user = user" and "resolveProjectAccessScope env db ws user = Some scope"
  shows "message_part env db rel conv sees ws user scope mid \<longleftrightarrow> sees mid \<and>
    (\<exists>m\<in>set (message_rows rel). mg_id m = mid \<and> mg_workspaceId m = uuid_in env ws
       \<and> (\<exists>c\<in>set (channel_rows db). ch_id c = mg_channelId m \<and> ch_workspaceId c = uuid_in env ws \<and> ch_lifecycle c = PActive
            \<and> open_project env db ws user (ch_projectId c)
            \<and> (ch_id c \<in> set (participants_only conv) \<longrightarrow> participates env conv ws user c)))"
proof -
  have m: "distinct (map mg_id (message_rows rel))" and c: "distinct (map ch_id (channel_rows db))"
    using assms(1,2) by (simp_all add: related_ok_def tables_ok_def)
  let ?Q = "\<lambda>m c. canReadProject scope (ch_projectId c) \<and> (ch_id c \<in> set (participants_only conv) \<longrightarrow> participates env conv ws user c) \<and> sees (mg_id m)"
  have inner: "(case find (\<lambda>c. ch_id c = mg_channelId m \<and> ch_workspaceId c = uuid_in env ws \<and> ch_lifecycle c = PActive) (channel_rows db) of
      None \<Rightarrow> False | Some c \<Rightarrow> ?Q m c) \<longleftrightarrow> (\<exists>c\<in>set (channel_rows db). (ch_id c = mg_channelId m \<and> ch_workspaceId c = uuid_in env ws \<and> ch_lifecycle c = PActive) \<and> ?Q m c)" for m
    by (rule find_key [OF c, of _ "mg_channelId m"]) simp
  have "message_part env db rel conv sees ws user scope mid \<longleftrightarrow>
      (case message_in env rel ws mid of None \<Rightarrow> False | Some m \<Rightarrow>
        (case find (\<lambda>c. ch_id c = mg_channelId m \<and> ch_workspaceId c = uuid_in env ws \<and> ch_lifecycle c = PActive) (channel_rows db) of
          None \<Rightarrow> False | Some c \<Rightarrow> ?Q m c))"
    by (auto simp: message_part_def split: option.split)
  also have "\<dots> \<longleftrightarrow> (\<exists>m\<in>set (message_rows rel). (mg_id m = mid \<and> mg_workspaceId m = uuid_in env ws) \<and>
      (\<exists>c\<in>set (channel_rows db). (ch_id c = mg_channelId m \<and> ch_workspaceId c = uuid_in env ws \<and> ch_lifecycle c = PActive) \<and> ?Q m c))"
    unfolding inner message_in_def by (rule find_key [OF m, of _ mid]) simp
  finally show ?thesis by (auto simp: scope_open [OF assms(1,3,4)])
qed

text \<open>A content reference is visible exactly to members of the workspace, and exactly when it is open to them by the tables. The
  history window of a group is not part of it, although the classification of events asks for it.\<close>

theorem content_visible_exact:
  assumes "tables_ok env db" and "related_ok env db rel" and "uuid_in env user = user"
  shows "isContentRefVisible env db rel conv sees ws user cid \<longleftrightarrow>
    role_in db (uuid_in env ws) user \<noteq> None
    \<and> (\<exists>x\<in>set (content_rows rel). cr_id x = uuid_in env cid \<and> cr_workspaceId x = uuid_in env ws \<and> content_open env db rel conv sees ws user x)"
proof (cases "resolveProjectAccessScope env db ws user")
  case None
  then show ?thesis using scope_None_iff [OF assms(3), of db ws] by (simp add: isContentRefVisible_def)
next
  case (Some scope)
  have d: "distinct (map cr_id (content_rows rel))" using assms(2) by (simp add: related_ok_def)
  have "isContentRefVisible env db rel conv sees ws user cid \<longleftrightarrow>
      (case find (\<lambda>x. cr_id x = uuid_in env cid \<and> cr_workspaceId x = uuid_in env ws) (content_rows rel) of
        None \<Rightarrow> False | Some x \<Rightarrow> content_open env db rel conv sees ws user x)"
    by (auto simp: isContentRefVisible_def Some content_open_def task_part_open [OF assms Some] message_part_open [OF assms Some] split: option.split)
  also have "\<dots> \<longleftrightarrow> (\<exists>x\<in>set (content_rows rel). (cr_id x = uuid_in env cid \<and> cr_workspaceId x = uuid_in env ws) \<and> content_open env db rel conv sees ws user x)"
    by (rule find_key [OF d, of _ "uuid_in env cid"]) simp
  finally show ?thesis using Some scope_None_iff [OF assms(3), of db ws] by auto
qed

text \<open>A task of the workspace passes the condition on task-owned rows exactly when its project is not concealed.\<close>

lemma visible_task_exact:
  assumes "tables_ok env db" and "related_ok env db rel" and "uuid_in env user = user" and "resolveProjectAccessScope env db ws user = Some scope"
    and "t \<in> set (task_rows rel)"
  shows "visibleTaskCondition rel scope (Some (tk_id t)) = open_project env db ws user (tk_projectId t)"
proof -
  have d: "distinct (map tk_id (task_rows rel))" using assms(2) by (simp add: related_ok_def)
  have "tk_id t \<in> set (map tk_id (filter P (task_rows rel))) \<longleftrightarrow> P t" for P
    using d assms(5) by (auto simp: distinct_map dest: inj_onD)
  moreover have "sc_hiddenProjectIds scope = [] \<Longrightarrow> open_project env db ws user (tk_projectId t)"
    using hidden_concealed [OF assms(1,3,4)] by (auto simp: open_project_def split: option.splits)
  ultimately show ?thesis using hidden_concealed [OF assms(1,3,4)]
    by (auto simp: visibleTaskCondition_def open_project_def split: option.splits)
qed

section \<open>The editor shortcut\<close>

text \<open>The shortcut that lets project editors post without the write role of the workspace opens exactly for the listed
  editors of a members-only project who are still members of the workspace, and only for those who may change
  the project anyway.\<close>

theorem editor_shortcut_exact:
  assumes "tables_ok env db" and "uuid_in env user = user" and "p \<in> set (project_rows db)" and "pj_workspaceId p = uuid_in env ws"
    and "target_project env db rel ws target = Some (pj_id p)"
  shows "(isMembersProjectEditorForConversation env db rel ws user target \<longleftrightarrow>
      pj_visibility p = Members_only \<and> role_in db (uuid_in env ws) user \<noteq> None \<and> listed_as db (pj_id p) user = Some Editor)
    \<and> (isMembersProjectEditorForConversation env db rel ws user target \<longrightarrow> may_change db (uuid_in env ws) user p)"
proof -
  have ne: "pj_id p \<noteq> []" and d: "distinct (map (\<lambda>m. (pm_projectId m, pm_userId m)) (member_rows db))"
    using assms(1,3) by (auto simp: tables_ok_def)
  have iff: "isMembersProjectEditorForConversation env db rel ws user target \<longleftrightarrow>
      pj_visibility p = Members_only \<and> role_in db (uuid_in env ws) user \<noteq> None \<and> listed_as db (pj_id p) user = Some Editor"
  proof (cases "resolveProjectAccessScope env db ws user")
    case None
    then show ?thesis using ne scope_None_iff [OF assms(2), of db ws] by (simp add: isMembersProjectEditorForConversation_def assms(5))
  next
    case (Some scope)
    from resolve_scope_iff(1) [OF assms(2) Some] obtain m where m: "ms_userId m = user" "scope = scope_of (scope_join env db ws [user]) m" by blast
    have "set (sc_membersOnlyProjectIds scope) = members_only_ids env db ws"
      by (simp add: m(2) scope_of_def Let_def set_js_dedupe scope_join_fst)
    moreover have "map_of (rev (sc_memberRoles scope)) (pj_id p) = (if pj_id p \<in> members_only_ids env db ws then listed_as db (pj_id p) user else None)"
      using member_role_map [OF assms(2) d] by (simp add: m scope_of_def Let_def)
    ultimately show ?thesis using ne Some scope_None_iff [OF assms(2), of db ws] members_only_iff [OF assms(1,3,4)]
      by (auto simp: isMembersProjectEditorForConversation_def assms(5))
  qed
  then show ?thesis by (auto simp: may_change_def)
qed

section \<open>Witnesses\<close>

text \<open>A group of one participant with a message that has a content reference.\<close>

definition group_content :: related_tables where
  "group_content = \<lparr>message_rows = [\<lparr>mg_id = ''m1'', mg_workspaceId = ''w1'', mg_channelId = ''c3''\<rparr>], task_rows = [], artifact_rows = [],
     content_rows = [\<lparr>cr_id = ''x1'', cr_workspaceId = ''w1'', cr_taskId = None, cr_messageId = Some ''m1''\<rparr>]\<rparr>"

definition group_db :: product_db where
  "group_db = sample_db\<lparr>channel_rows := [sample_channel\<lparr>ch_id := ''c3'', ch_kind := ''group'', ch_projectId := None\<rparr>]\<rparr>"

definition group_members :: conversation_tables where
  "group_members = \<lparr>participants_only = [''c3''],
     participant_rows = [\<lparr>pt_workspaceId = ''w1'', pt_channelId = ''c3'', pt_principalKind = ''user'', pt_userId = Some ''u2''\<rparr>]\<rparr>"

theorem content_visible_exact_witness:
  "isContentRefVisible sample_env group_db group_content group_members (\<lambda>_. True) ''w1'' ''u2'' ''x1''
   \<and> \<not> isContentRefVisible sample_env group_db group_content group_members (\<lambda>_. True) ''w1'' ''u1'' ''x1''"
proof -
  have ok: "tables_ok sample_env group_db" "related_ok sample_env group_db group_content" "uuid_in sample_env ''u2'' = ''u2''" "uuid_in sample_env ''u1'' = ''u1''"
    by code_simp+
  have "\<not> isContentRefVisible sample_env group_db group_content group_members (\<lambda>_. True) ''w1'' ''u1'' ''x1''" by code_simp
  moreover have "role_in group_db (uuid_in sample_env ''w1'') ''u2'' \<noteq> None" by code_simp
  moreover have "content_open sample_env group_db group_content group_members (\<lambda>_. True) ''w1'' ''u2'' (hd (content_rows group_content))"
  proof -
    have "participates sample_env group_members ''w1'' ''u2'' (hd (channel_rows group_db))" by code_simp
    moreover have "uuid_in sample_env ''w1'' = ''w1''" by code_simp
    ultimately show ?thesis by (simp add: content_open_def group_content_def group_db_def sample_channel_def open_project_def)
  qed
  moreover have "hd (content_rows group_content) \<in> set (content_rows group_content)" "cr_id (hd (content_rows group_content)) = uuid_in sample_env ''x1''"
    "cr_workspaceId (hd (content_rows group_content)) = uuid_in sample_env ''w1''" by code_simp+
  ultimately show ?thesis using content_visible_exact [OF ok(1-3), of group_members "\<lambda>_. True" "''w1''" "''x1''"] by blast
qed

theorem editor_shortcut_exact_witness:
  "\<not> isMembersProjectEditorForConversation sample_env sample_db sample_related ''w1'' ''u1'' (Target_channel ''c1'')
   \<and> may_change sample_db ''w1'' ''u1'' sample_project"
proof -
  have "uuid_in sample_env ''u1'' = ''u1''" "sample_project \<in> set (project_rows sample_db)" "pj_workspaceId sample_project = uuid_in sample_env ''w1''"
    "target_project sample_env sample_db sample_related ''w1'' (Target_channel ''c1'') = Some (pj_id sample_project)"
    by code_simp+
  from editor_shortcut_exact [OF sample_tables_ok this]
  have "isMembersProjectEditorForConversation sample_env sample_db sample_related ''w1'' ''u1'' (Target_channel ''c1'')
      \<longrightarrow> listed_as sample_db (pj_id sample_project) ''u1'' = Some Editor" by blast
  moreover have "listed_as sample_db (pj_id sample_project) ''u1'' = None" by code_simp
  moreover have "may_change sample_db ''w1'' ''u1'' sample_project"
    by (simp add: may_change_def role_in_def sample_db_def)
  ultimately show ?thesis by auto
qed

end
