(* ===== verification/Spec2Isabelle.thy ===== *)
theory Spec2Isabelle
  imports Approvals Grants Leases Cleanup_Plan Journal Input_Authority Checkpoint_Retention Janitor Cbor Wire Retention_Policy Group_Participation Project_Order Invitations Event_Resume Event_Reconnect Content_Access
begin

text \<open>
  Verification library for Adea, a workspace for people and agents: the authority core of the desktop host,
  the wire format shared by host and clients, the policies, project and invitation operations of the product
  database, and the event stream from the log of a workspace to the cache of a client.

  \<^bold>\<open>The program.\<close> The desktop host (\<^verbatim>\<open>apps/desktop/shell/src/dev-runtime\<close>) runs terminals, worktrees and
  repositories on a user's machine for agents. Destructive or privileged requests need an owner approval,
  are recorded in an audit trail, and act through project grants, leases, cleanup plans and journals kept in
  durable JSON files. Terminal bytes travel in CBOR frames whose codec and checks live in
  \<^verbatim>\<open>packages/types/src\<close>. The product database (\<^verbatim>\<open>packages/db/src\<close>) keeps workspaces, projects, channels and
  groups in Postgres; every change appends an event to the log of its workspace in the same transaction, and
  pure policy modules decide who may read, speak, publish or delete. The web server streams the log to each
  subscriber, classified by what that user may see, and the client in \<^verbatim>\<open>packages/data/src\<close> turns the
  stream into refreshes of its cached queries.

  \<^bold>\<open>Desktop authority.\<close>
  \<^item> \<open>Host_Store\<close>: \<^verbatim>\<open>host-store.ts\<close>, \<open>createDurableJsonStore\<close>. State: the file contents; \<open>store_load\<close> and
    \<open>store_save\<close> with their errors, and \<open>transact\<close>, the load-decide-save shape of every authority. The
    locale \<open>record_store\<close> states the contract (a failed call changes nothing, what was saved is loaded) and
    is interpreted for the JSON store and again for the leases.
  \<^item> \<open>Approvals\<close>: \<^verbatim>\<open>authority.ts\<close>. Issuance, verification and the two ways to spend an approval, and the
    reachable ledgers; an approval reference is spent at most once.
  \<^item> \<open>Grants\<close>: \<^verbatim>\<open>audit.ts\<close> and \<^verbatim>\<open>grants.ts\<close>. The scrubbing of audit detail, grant creation, revocation and
    paged listing; a grant needs a spent approval and grants stay unique.
  \<^item> \<open>Leases\<close>: \<^verbatim>\<open>worktrees/leases.ts\<close> and \<^verbatim>\<open>errors.ts\<close>. Acquire, heartbeat, release, reconciliation; release is
    final, and what the cleanup gate reads.
  \<^item> \<open>Cleanup_Plan\<close> and \<open>Journal\<close>: \<^verbatim>\<open>worktrees/cleanup-plan.ts\<close> and \<^verbatim>\<open>journal.ts\<close>. The blockers, the plan text that
    is signed, the drift check that keeps the decision of the gate; the append-only journal, its replay and the
    journaled step, which runs once until it is rolled back (locale \<open>line_codec\<close> for the reading of one line).

  \<^bold>\<open>Terminal and resources.\<close>
  \<^item> \<open>Input_Authority\<close>: \<^verbatim>\<open>terminal/input-authority.ts\<close>; fences are valid exactly until ownership changes.
  \<^item> \<open>Checkpoint_Retention\<close>: \<^verbatim>\<open>terminal/retention.ts\<close> on a directory tree; eviction is oldest first, respects
    the protected floor, agrees with the directory, and a scope pass ends below its cap unless nothing is left to
    take or an empty session stops it.
  \<^item> \<open>Janitor\<close>: \<^verbatim>\<open>resources/janitor-model.ts\<close>; porcelain parsing, the byte walk, the plan digest.

  \<^bold>\<open>Wire.\<close> \<open>Utf8\<close>, \<open>Cbor\<close> and \<open>Wire\<close>: \<^verbatim>\<open>dev-runtime-unicode.ts\<close>, \<^verbatim>\<open>dev-runtime-cbor.ts\<close>,
  \<^verbatim>\<open>dev-runtime-cbor-length.ts\<close>, the frame checks of \<^verbatim>\<open>dev-runtime.ts\<close> and \<^verbatim>\<open>dev-runtime-control.ts\<close>, and
  \<^verbatim>\<open>channel/wire.ts\<close>. Round trips, the length computation against the encoder, order-free encoding, and the
  contiguity of accepted input offsets. \<open>Json\<close> is \<open>JSON.stringify\<close> as plans, digests and event payloads use
  it, with its unique readability.

  \<^bold>\<open>Product policies.\<close> \<open>Retention_Policy\<close> (\<^verbatim>\<open>retention-policy.ts\<close>) on unchecked values: parsing, receipts,
  the deletion gate. \<open>Group_Participation\<close> (\<^verbatim>\<open>group-participation-policy.ts\<close>): creation, reads, turns and
  publication, whose shared contract is the locale \<open>participation_gate\<close>, interpreted for all four.

  \<^bold>\<open>Product operations.\<close> \<open>Event_Log\<close> (\<^verbatim>\<open>event-contract.ts\<close>, \<^verbatim>\<open>transactions.ts\<close>), \<open>Project_Access\<close>
  (\<^verbatim>\<open>project-access.ts\<close>), \<open>Projects\<close> (\<^verbatim>\<open>projects.ts\<close>, \<^verbatim>\<open>project-sharing.ts\<close>, \<^verbatim>\<open>project-state-policy.ts\<close>,
  \<^verbatim>\<open>project-state-decisions.ts\<close>, and the primary channel of \<^verbatim>\<open>conversations.ts\<close>): the tables are the record
  \<open>product_db\<close>, an operation is a transaction on it, a thrown error leaves the tables unchanged.
  \<open>Project_Laws\<close> proves once, in the locale \<open>project_relation\<close>, that a relation kept by the primitive
  statements is kept by every operation, and interprets it for the event log, the revision token and the
  unique keys; \<open>Project_Lifecycle\<close> draws the properties from it. \<open>Project_Order\<close> states what a reorder does
  and the size its event allows. \<open>Invitations\<close> (\<^verbatim>\<open>workspace-invitations.ts\<close>) has all operations on
  invitations; a token is accepted by one user at most, never after a revocation, and the preview agrees with
  what accepting does.

  \<^bold>\<open>Event stream.\<close>
  \<^item> \<open>Event_Replay\<close>: \<^verbatim>\<open>event-log.ts\<close> and \<open>decideReplay\<close>. Paged reads, the retained window, pruning and the
    publication records; a cursor is replayed exactly when the log holds everything after it, as long as the
    workspace retains an event.
  \<^item> \<open>Event_Visibility\<close>: \<^verbatim>\<open>event-visibility.ts\<close>. The page-wise classification with its five queries equals a
    reference that decides each event alone. \<open>Content_Access\<close> adds the rest of \<^verbatim>\<open>project-access.ts\<close>: who may
    see a content reference (the filter of published messages is an argument), and the editor shortcut.
  \<^item> \<open>Event_Stream\<close>: \<^verbatim>\<open>apps/web/src/server/workspace-event-stream.ts\<close> and the route
    \<^verbatim>\<open>api/v1/workspaces/$workspaceId/events.ts\<close>. Frames, the replay loop, the live loop with its poll,
    re-authorization, heartbeat and lifetime, and the connection slots. The replay keeps order and leaves no gap
    while others write and the subscriber may leave; revocation ends a stream in time.
  \<^item> \<open>Json_Parse\<close> and \<open>Event_Client\<close>: \<^verbatim>\<open>packages/data/src/events.ts\<close>. \<open>JSON.parse\<close> with its round trip, the
    parser of the stream text, the cursor and token, the queue of refreshes; how the network cuts the text
    does not matter.
  \<^item> \<open>Event_Delivery\<close> composes log, classification, producer and client: a subscriber that reconnects reaches
    the head of the log, each event once and in order.
  \<^item> \<open>Event_Cursor\<close>: \<^verbatim>\<open>apps/web/src/server/event-cursor.ts\<close>, the signed cursor, its round trip and its refusals;
    \<open>Event_Resume\<close>: a reload finds in the storage what it needs to continue at the same position.
  \<^item> \<open>Event_Reconnect\<close>: when the client of \<^verbatim>\<open>events.ts\<close> connects. Its state machine keeps at most one connection,
    never gets stuck, and respects the backoff and the retry hint.

  \<^bold>\<open>Conventions.\<close> A thrown error is a left value of a sum. Values the code receives unchecked are \<open>jsval\<close>.
  Clocks, generated ids, digests, \<open>Date.parse\<close>, \<open>Date.toISOString\<close>, the HMAC and the base64url decoder
  of the platform and the reading of a uuid by the database are arguments; what is assumed of them is written in the statement. So are the three
  authorization conditions the classification takes from \<^verbatim>\<open>group-participation-store.ts\<close> and
  \<^verbatim>\<open>job-outbound-read.ts\<close>. Concurrency inside the database is serial by the row locks
  of the sources, so an interleaving is a sequence of transactions; where the host has several callers the
  sequence of calls is arbitrary.

  \<^bold>\<open>Bounds and fuel.\<close> The CBOR decoder recurses on fuel given by the length of its input; \<open>decode_fuel\<close> shows
  that more fuel changes nothing. The paging of \<open>Grants\<close> counts pages, at most one per grant. The retention and
  walk loops are total with a termination proof. The producer of the stream reads one snapshot of the database
  per page, given as a list; more snapshots than the log has rows are enough for the replay to end. A
  subscriber that goes away does so after a given number of waits of the producer. The JSON parser recurses on
  fuel, the length of the text, which its round trip shows to be enough for what the server writes. Integers
  that JavaScript would lose precision on are
  guarded by \<open>is_safe_integer\<close> where the sources do so.

  \<^bold>\<open>Not modelled.\<close> The SQLite host store and its migrations, sockets, pseudo-terminals, git and HTTP adapters
  (they are input and output around the modelled decisions); the rest of the web server and the mobile and
  interface packages; authentication (a third-party library). Left out for their size: the
  conversations, tasks, jobs and lead turns of the database (of them only the rows that the modelled operations read
  or write), portable export and import, and the remaining request validators of \<^verbatim>\<open>dev-runtime.ts\<close>.
\<close>

end
